(* ===== verification/Prelude.thy ===== *)
theory Prelude
  imports Main "HOL-Library.AList"
begin

text \<open>
  Shared vocabulary of the development: Go maps as association lists with distinct keys,
  Go slices as lists, Go's \<open>append-if-absent\<close> loops, string helpers of the packages
  \<^verbatim>\<open>strings\<close>, \<^verbatim>\<open>strconv\<close> and \<^verbatim>\<open>slices\<close>, and errors as sums. A Go
  \<^verbatim>\<open>map[string]V\<close> is an association list; the order of the list has no meaning in the
  source (a \<^verbatim>\<open>range\<close> visits the keys in an unspecified order), so a definition that ranges
  over a map takes the order as an argument wherever its result could depend on it.
\<close>

named_theorems go_defs \<open>definitions of small Go library helpers, unfolded on demand\<close>
named_theorems branch_splits \<open>case splits that follow the early returns of the source\<close>

declare option.splits [branch_splits]
declare sum.splits [branch_splits]
declare if_splits [branch_splits]
declare prod.splits [branch_splits]

type_synonym 'v gomap = "(string \<times> 'v) list"

abbreviation get :: "'v gomap \<Rightarrow> string \<Rightarrow> 'v option" where
  "get m \<equiv> map_of m"

abbreviation put :: "string \<Rightarrow> 'v \<Rightarrow> 'v gomap \<Rightarrow> 'v gomap" where
  "put \<equiv> AList.update"

abbreviation keys :: "'v gomap \<Rightarrow> string list" where
  "keys m \<equiv> map fst m"

definition wf_map :: "'v gomap \<Rightarrow> bool" where
  "wf_map m \<longleftrightarrow> distinct (keys m)"

text \<open>
  The keys of a map in the order a \<^verbatim>\<open>range\<close> statement visits them. The order is an oracle
  \<open>ord\<close>: whatever it answers that is an enumeration of the keys without repetition is taken,
  so every order Go may choose is covered and every \<open>ord\<close> stands for a legal one.
\<close>

type_synonym range_oracle = "string list \<Rightarrow> string list"

definition range_keys :: "range_oracle \<Rightarrow> 'v gomap \<Rightarrow> string list" where
  "range_keys ord m =
     (let ks = ord (keys m)
      in if distinct ks \<and> set ks = set (keys m) then ks else keys m)"

subsection \<open>Errors\<close>

definition bind_res :: "('e + 'a) \<Rightarrow> ('a \<Rightarrow> 'e + 'b) \<Rightarrow> 'e + 'b" where
  "bind_res r f = (case r of Inl e \<Rightarrow> Inl e | Inr x \<Rightarrow> f x)"

subsection \<open>Append if absent\<close>

definition append_new :: "'a list \<Rightarrow> 'a \<Rightarrow> 'a list" where
  "append_new w d = (if d \<in> set w then w else w @ [d])"

definition extend_new :: "'a list \<Rightarrow> 'a list \<Rightarrow> 'a list" where
  "extend_new w ds = foldl append_new w ds"

subsection \<open>Strings\<close>

definition TrimPrefix :: "string \<Rightarrow> string \<Rightarrow> string" where
  "TrimPrefix s p = (if take (length p) s = p then drop (length p) s else s)"

definition HasPrefix :: "string \<Rightarrow> string \<Rightarrow> bool" where
  "HasPrefix s p \<longleftrightarrow> take (length p) s = p"

definition HasSuffix :: "string \<Rightarrow> string \<Rightarrow> bool" where
  "HasSuffix s p \<longleftrightarrow> length p \<le> length s \<and> drop (length s - length p) s = p"

definition TrimRight :: "char \<Rightarrow> string \<Rightarrow> string" where
  "TrimRight c s = rev (dropWhile (\<lambda>d. d = c) (rev s))"

fun Split :: "char \<Rightarrow> string \<Rightarrow> string list" where
  "Split c [] = [[]]"
| "Split c (d # s) =
     (if d = c then [] # Split c s
      else (case Split c s of [] \<Rightarrow> [[d]] | p # ps \<Rightarrow> (d # p) # ps))"

fun SplitN :: "nat \<Rightarrow> char \<Rightarrow> string \<Rightarrow> string list" where
  "SplitN 0 c s = []"
| "SplitN (Suc 0) c s = [s]"
| "SplitN (Suc (Suc n)) c s =
     (if c \<in> set s
      then takeWhile (\<lambda>d. d \<noteq> c) s # SplitN (Suc n) c (tl (dropWhile (\<lambda>d. d \<noteq> c) s))
      else [s])"

definition join :: "char \<Rightarrow> string list \<Rightarrow> string" where
  "join c ss = (case ss of [] \<Rightarrow> [] | x # xs \<Rightarrow> x @ concat (map (\<lambda>y. c # y) xs))"

definition is_digit :: "char \<Rightarrow> bool" where
  "is_digit c \<longleftrightarrow> 48 \<le> (of_char c :: nat) \<and> (of_char c :: nat) \<le> 57"

definition digit_val :: "char \<Rightarrow> nat" where
  "digit_val c = (of_char c :: nat) - 48"

definition digits_val :: "string \<Rightarrow> nat" where
  "digits_val s = foldl (\<lambda>n c. 10 * n + digit_val c) 0 s"

text \<open>
  \<^verbatim>\<open>strconv.Atoi\<close> on a 64-bit platform: an optional sign, at least one decimal digit,
  nothing else, and a value that fits an \<^verbatim>\<open>int\<close>.
\<close>

definition Atoi :: "string \<Rightarrow> int option" where
  "Atoi s =
     (let neg = (s \<noteq> [] \<and> hd s = CHR ''-'');
          ds = (if s \<noteq> [] \<and> (hd s = CHR ''-'' \<or> hd s = CHR ''+'') then tl s else s);
          v = (if neg then - int (digits_val ds) else int (digits_val ds))
      in if ds = [] \<or> \<not> list_all is_digit ds then None
         else if v < - (2 ^ 63) \<or> 2 ^ 63 - 1 < v then None
         else Some v)"

text \<open>\<^verbatim>\<open>val, _ := strconv.Atoi(s)\<close>: the value that comes with an error.\<close>

definition AtoiValue :: "string \<Rightarrow> int" where
  "AtoiValue s =
     (let neg = (s \<noteq> [] \<and> hd s = CHR ''-'');
          ds = (if s \<noteq> [] \<and> (hd s = CHR ''-'' \<or> hd s = CHR ''+'') then tl s else s)
      in case Atoi s of
           Some v \<Rightarrow> v
         | None \<Rightarrow> (if ds = [] \<or> \<not> list_all is_digit ds then 0
                     else if neg then - (2 ^ 63) else 2 ^ 63 - 1))"

fun itoa_nat :: "nat \<Rightarrow> string" where
  "itoa_nat n = (if n < 10 then [char_of (48 + n)] else itoa_nat (n div 10) @ [char_of (48 + n mod 10)])"

declare itoa_nat.simps [simp del]

definition Itoa :: "int \<Rightarrow> string" where
  "Itoa i = (if i < 0 then CHR ''-'' # itoa_nat (nat (- i)) else itoa_nat (nat i))"

subsection \<open>Lemmas on maps\<close>

lemma get_put [simp]: "get (put k v m) = (get m)(k \<mapsto> v)"
  by (simp add: update_conv')

lemma wf_map_put [simp]: "wf_map m \<Longrightarrow> wf_map (put k v m)"
  by (simp add: wf_map_def distinct_update)

lemma wf_map_Nil [simp]: "wf_map []"
  by (simp add: wf_map_def)

lemma set_keys_put [simp]: "fst ` set (put k v m) = insert k (fst ` set m)"
  by (induction m) auto

lemma get_None_iff: "get m k = None \<longleftrightarrow> k \<notin> fst ` set m"
  by (induction m) auto

lemma get_Some_key: "get m k = Some v \<Longrightarrow> k \<in> fst ` set m"
  by (metis get_None_iff option.distinct(1))

lemma put_same [simp]: "get m k = Some v \<Longrightarrow> put k v m = m"
  by (induction m) (auto split: if_splits)

lemma set_range_keys [simp]: "set (range_keys ord m) = fst ` set m"
  by (simp add: range_keys_def Let_def)

lemma distinct_range_keys [simp]: "wf_map m \<Longrightarrow> distinct (range_keys ord m)"
  by (simp add: range_keys_def Let_def wf_map_def)

lemma range_keys_self [simp]: "range_keys (\<lambda>ks. ks) m = keys m"
  by (simp add: range_keys_def)

subsection \<open>Lemmas on append-if-absent loops\<close>

lemma extend_new_Nil [simp]: "extend_new w [] = w"
  by (simp add: extend_new_def)

lemma extend_new_Cons [simp]: "extend_new w (d # ds) = extend_new (append_new w d) ds"
  by (simp add: extend_new_def)

lemma set_append_new [simp]: "set (append_new w d) = insert d (set w)"
  by (auto simp: append_new_def)

lemma set_extend_new [simp]: "set (extend_new w ds) = set w \<union> set ds"
  by (induction ds arbitrary: w) auto

lemma distinct_append_new [simp]: "distinct (append_new w d) = distinct w"
  by (auto simp: append_new_def)

lemma distinct_extend_new [simp]: "distinct (extend_new w ds) = distinct w"
  by (induction ds arbitrary: w) auto

lemma append_new_prefix: "\<exists>zs. append_new w d = w @ zs"
  by (auto simp: append_new_def)

lemma extend_new_prefix: "\<exists>zs. extend_new w ds = w @ zs \<and> set zs = set ds - set w"
proof (induction ds arbitrary: w)
  case Nil
  then show ?case by simp
next
  case (Cons d ds)
  obtain zs where zs: "extend_new (append_new w d) ds = append_new w d @ zs"
      "set zs = set ds - set (append_new w d)"
    using Cons.IH by blast
  show ?case
  proof (cases "d \<in> set w")
    case True
    with zs show ?thesis by (auto simp: append_new_def)
  next
    case False
    with zs have "extend_new w (d # ds) = w @ (d # zs) \<and> set (d # zs) = set (d # ds) - set w"
      by (auto simp: append_new_def)
    then show ?thesis by blast
  qed
qed

lemma extend_new_absorb: "set ds \<subseteq> set w \<Longrightarrow> extend_new w ds = w"
  by (induction ds) (auto simp: append_new_def)

lemma extend_new_append: "extend_new w (ds @ es) = extend_new (extend_new w ds) es"
  by (simp add: extend_new_def)

lemma bind_res_simps [simp]:
  "bind_res (Inl e) f = Inl e"
  "bind_res (Inr x) f = f x"
  by (simp_all add: bind_res_def)

lemma bind_res_Inr_conv: "bind_res r f = Inr y \<longleftrightarrow> (\<exists>x. r = Inr x \<and> f x = Inr y)"
  by (cases r) auto

subsection \<open>Lemmas on decimal numbers and separators\<close>

lemma itoa_digits: "list_all is_digit (itoa_nat n) \<and> itoa_nat n \<noteq> [] \<and> digits_val (itoa_nat n) = n"
proof (induction n rule: itoa_nat.induct)
  case (1 n)
  have digit: "is_digit (char_of (48 + k :: nat))" "digit_val (char_of (48 + k :: nat)) = k" if "k < 10" for k
    using that by (auto simp: is_digit_def digit_val_def of_char_of)
  show ?case
  proof (cases "n < 10")
    case True
    then show ?thesis using digit [OF True] by (subst (1 2 3) itoa_nat.simps) (simp add: digits_val_def)
  next
    case False
    then show ?thesis using 1 digit [of "n mod 10"]
      by (subst (1 2 3) itoa_nat.simps) (simp add: digits_val_def)
  qed
qed

lemma digit_not: "is_digit c \<Longrightarrow> c \<noteq> CHR ''-'' \<and> c \<noteq> CHR ''+'' \<and> c \<noteq> CHR ''.''"
  by (auto simp: is_digit_def)

lemma Atoi_digits:
  assumes "list_all is_digit ds" "ds \<noteq> []" "int (digits_val ds) < 2 ^ 63"
  shows "Atoi ds = Some (int (digits_val ds))"
proof -
  obtain c ds' where ds: "ds = c # ds'" using assms(2) by (cases ds) auto
  then have "c \<noteq> CHR ''-''" "c \<noteq> CHR ''+''" using assms(1) digit_not by auto
  then show ?thesis using assms by (simp add: Atoi_def ds Let_def)
qed

lemma Itoa_nat: "0 \<le> n \<Longrightarrow> Itoa n = itoa_nat (nat n)"
  by (simp add: Itoa_def)

lemma itoa_simps:
  "list_all is_digit (itoa_nat n)" "itoa_nat n \<noteq> []" "digits_val (itoa_nat n) = n"
  using itoa_digits by auto

lemma itoa_notin: "\<not> is_digit c \<Longrightarrow> c \<notin> set (itoa_nat n)"
  using itoa_simps(1) [of n] by (auto simp: list_all_iff)

lemma itoa_hd: "0 < n \<Longrightarrow> hd (itoa_nat n) \<noteq> CHR ''0''"
proof (induction n rule: itoa_nat.induct)
  case (1 n)
  have "char_of (48 + n :: nat) \<noteq> CHR ''0''" if "n < 10"
  proof
    assume "char_of (48 + n :: nat) = CHR ''0''"
    then have "(of_char (char_of (48 + n :: nat) :: char) :: nat) = of_char (CHR ''0'')" by simp
    then show False using that \<open>0 < n\<close> by (simp add: of_char_of)
  qed
  with 1 show ?case
    by (subst itoa_nat.simps) (auto simp: itoa_simps(2) hd_append)
qed

lemma itoa_short: "n < 10 \<Longrightarrow> length (itoa_nat n) = 1"
  by (subst itoa_nat.simps) simp

lemma Split_notin [simp]: "c \<notin> set s \<Longrightarrow> Split c s = [s]"
  by (induction s) auto

lemma Split_append: "c \<notin> set a \<Longrightarrow> Split c (a @ c # s) = a # Split c s"
  by (induction a) auto

lemma Split_nonempty [simp]: "Split c s \<noteq> []"
  by (induction s) (auto split: list.splits)

end
