(* ===== verification/Tags.thy ===== *)
theory Tags
  imports Prelude
begin

text \<open>
  Tag selection of plays, roles and blocks (\<^verbatim>\<open>api/project/v1/taggable.go\<close>): which work a run
  with \<^verbatim>\<open>--tags\<close> and \<^verbatim>\<open>--skip-tags\<close> executes, and how a child inherits the tags of
  its parent.
\<close>

definition AlwaysTag :: string where "AlwaysTag = ''always''"
definition NeverTag :: string where "NeverTag = ''never''"
definition AllTag :: string where "AllTag = ''all''"
definition TaggedTag :: string where "TaggedTag = ''tagged''"

record Taggable =
  Tags :: "string list"

fun isdisjoint :: "string list \<Rightarrow> string list \<Rightarrow> bool" where
  "isdisjoint [] b = True"
| "isdisjoint (s # a) b = (if s \<in> set b then False else isdisjoint a b)"

definition IsEnabled :: "Taggable \<Rightarrow> string list \<Rightarrow> string list \<Rightarrow> bool" where
  "IsEnabled t onlyTags skipTags =
     (let shouldRun =
        (if 0 < length onlyTags then
           (if AlwaysTag \<in> set (Tags t) then True
            else if AllTag \<in> set onlyTags \<and> NeverTag \<notin> set (Tags t) then True
            else if TaggedTag \<in> set onlyTags \<and> NeverTag \<notin> set (Tags t) then True
            else if \<not> isdisjoint onlyTags (Tags t) then True
            else False)
         else if NeverTag \<in> set (Tags t) then False
         else True)
      in if shouldRun \<and> 0 < length skipTags then
           (if AllTag \<in> set skipTags \<and>
               (AlwaysTag \<notin> set (Tags t) \<or> AlwaysTag \<notin> set skipTags) then False
            else if \<not> isdisjoint skipTags (Tags t) then False
            else if TaggedTag \<in> set skipTags \<and> 0 < length skipTags then False
            else shouldRun)
         else shouldRun)"

fun join_loop :: "string list \<Rightarrow> string list \<Rightarrow> string list" where
  "join_loop child [] = child"
| "join_loop child (tag # parent) =
     join_loop (if tag \<notin> set child then child @ [tag] else child) parent"

definition JoinTag :: "Taggable \<Rightarrow> Taggable \<Rightarrow> Taggable" where
  "JoinTag child parent = child\<lparr>Tags := join_loop (Tags child) (Tags parent)\<rparr>"


subsection \<open>What selection means\<close>

definition selected :: "string set \<Rightarrow> string set \<Rightarrow> bool" where
  "selected tags only \<longleftrightarrow>
     (if only = {} then NeverTag \<notin> tags
      else AlwaysTag \<in> tags \<or> (NeverTag \<notin> tags \<and> only \<inter> {AllTag, TaggedTag} \<noteq> {}) \<or>
           only \<inter> tags \<noteq> {})"

definition skipped :: "string set \<Rightarrow> string set \<Rightarrow> bool" where
  "skipped tags skip \<longleftrightarrow> skip \<inter> (tags \<union> {AllTag, TaggedTag}) \<noteq> {}"

lemma isdisjoint_iff [simp]: "isdisjoint a b \<longleftrightarrow> set a \<inter> set b = {}"
  by (induction a) auto

lemma join_loop_extend: "join_loop child parent = extend_new child parent"
  by (induction parent arbitrary: child) (simp_all add: append_new_def)

lemma Tags_JoinTag [simp]: "Tags (JoinTag c p) = extend_new (Tags c) (Tags p)"
  by (simp add: JoinTag_def join_loop_extend)

lemma IsEnabled_set:
  "IsEnabled t only skip \<longleftrightarrow>
     selected (set (Tags t)) (set only) \<and> \<not> skipped (set (Tags t)) (set skip)"
proof (cases "only = []")
  case True
  then show ?thesis
    by (auto simp: IsEnabled_def Let_def selected_def skipped_def)
next
  case False
  then show ?thesis
    by (auto simp: IsEnabled_def Let_def selected_def skipped_def)
qed

lemma IsEnabled_cong:
  "set (Tags t) = set (Tags t') \<Longrightarrow> IsEnabled t only skip = IsEnabled t' only skip"
  by (simp add: IsEnabled_set)

lemma skipped_mono: "skipped tags skip \<Longrightarrow> tags \<subseteq> tags' \<Longrightarrow> skipped tags' skip"
  by (auto simp: skipped_def)

text \<open>
  Tag selection, on every branch of the code: a block runs exactly when the \<^verbatim>\<open>--tags\<close> list
  selects it (no list: it is not tagged \<^verbatim>\<open>never\<close>; a list: it is tagged \<^verbatim>\<open>always\<close>, or it is
  not tagged \<^verbatim>\<open>never\<close> and the list names \<^verbatim>\<open>all\<close> or \<^verbatim>\<open>tagged\<close>, or it shares a tag with
  the list) and the \<^verbatim>\<open>--skip-tags\<close> list names neither one of its tags nor \<^verbatim>\<open>all\<close> nor
  \<^verbatim>\<open>tagged\<close>. This is what the code does and not what \<^verbatim>\<open>docs/en/framework/002-playbook.md\<close>
  says: there \<^verbatim>\<open>always\<close> always executes and \<^verbatim>\<open>never\<close> never does, while here \<^verbatim>\<open>--skip-tags all\<close>
  skips blocks tagged \<^verbatim>\<open>always\<close> and \<^verbatim>\<open>--tags x\<close> runs a block tagged \<^verbatim>\<open>never\<close> and \<^verbatim>\<open>x\<close>; and
  \<^verbatim>\<open>tagged\<close> takes untagged blocks too, in \<^verbatim>\<open>--tags\<close> as in \<^verbatim>\<open>--skip-tags\<close>.
\<close>

lemma IsEnabled_spec:
  "IsEnabled t only skip =
     ((if only = [] then NeverTag \<notin> set (Tags t)
       else AlwaysTag \<in> set (Tags t)
         \<or> (NeverTag \<notin> set (Tags t) \<and> (AllTag \<in> set only \<or> TaggedTag \<in> set only))
         \<or> (\<exists>x. x \<in> set only \<and> x \<in> set (Tags t)))
      \<and> AllTag \<notin> set skip \<and> TaggedTag \<notin> set skip
      \<and> (\<nexists>x. x \<in> set skip \<and> x \<in> set (Tags t)))"
  by (auto simp: IsEnabled_set selected_def skipped_def)

end
