(* ===== verification/Kahn.thy ===== *)
theory Kahn
  imports Prelude
begin

text \<open>
  The dependency graph of \<^verbatim>\<open>pkg/utils/graph.go\<close>: edges are added one at a time and every
  addition runs Kahn's algorithm over the whole graph to say whether it now has a cycle.
  The graph is a record with the source's two maps. Ranging over a Go map visits the keys in
  an unspecified order, so \<^verbatim>\<open>hasCycle\<close> takes that order (the oracle \<open>ord\<close>) as an argument
  and the theorems hold for every order.
\<close>

record KahnGraph =
  edges :: "string list gomap"
  indegree :: "int gomap"

definition NewKahnGraph :: KahnGraph where
  "NewKahnGraph = \<lparr>edges = [], indegree = []\<rparr>"

definition succs :: "string list gomap \<Rightarrow> string \<Rightarrow> string list" where
  "succs es n = (case get es n of None \<Rightarrow> [] | Some ns \<Rightarrow> ns)"

definition deg :: "int gomap \<Rightarrow> string \<Rightarrow> int" where
  "deg m n = (case get m n of None \<Rightarrow> 0 | Some d \<Rightarrow> d)"

text \<open>The inner loop over the neighbours of a dequeued node.\<close>

fun relax :: "string list \<Rightarrow> string list \<Rightarrow> int gomap \<Rightarrow> string list \<times> int gomap" where
  "relax [] queue indegreeCopy = (queue, indegreeCopy)"
| "relax (neighbor # ns) queue indegreeCopy =
     (let d = deg indegreeCopy neighbor - 1;
          indegreeCopy' = put neighbor d indegreeCopy
      in relax ns (if d = 0 then queue @ [neighbor] else queue) indegreeCopy')"

definition positive :: "int gomap \<Rightarrow> nat" where
  "positive m = length (filter (\<lambda>p. 0 < snd p) m)"

lemma positive_put: "positive (put k (deg m k - 1) m) + (if deg m k = 1 then 1 else 0) \<le> positive m"
  by (induction m) (auto simp: positive_def deg_def split: option.splits)

lemma relax_measure:
  "length (fst (relax ns q m)) + positive (snd (relax ns q m)) \<le> length q + positive m"
proof (induction ns arbitrary: q m)
  case Nil
  then show ?case by simp
next
  case (Cons n ns)
  let ?q = "if deg m n - 1 = 0 then q @ [n] else q" and ?m = "put n (deg m n - 1) m"
  have "length ?q + positive ?m \<le> length q + positive m"
    using positive_put [of n m] by (auto split: if_splits)
  with Cons.IH [of ?q ?m] show ?case by (simp add: Let_def)
qed

text \<open>The outer loop: dequeue, count, relax. It ends because a node is queued at most once.\<close>

function kahn_loop ::
  "string list gomap \<Rightarrow> string list \<Rightarrow> int gomap \<Rightarrow> nat \<Rightarrow> nat" where
  "kahn_loop es [] indegreeCopy processed = processed"
| "kahn_loop es (node # queue) indegreeCopy processed =
     (let (queue', indegreeCopy') = relax (succs es node) queue indegreeCopy
      in kahn_loop es queue' indegreeCopy' (processed + 1))"
  by pat_completeness auto
termination
proof (relation "measure (\<lambda>(es, q, m, p). length q + positive m)", goal_cases)
  case 1
  then show ?case by simp
next
  case (2 es node queue m p x q' m')
  then have "relax (succs es node) queue m = (q', m')" by simp
  with relax_measure [of "succs es node" queue m] show ?case by simp
qed

definition hasCycle :: "range_oracle \<Rightarrow> KahnGraph \<Rightarrow> bool" where
  "hasCycle ord g =
     (let indegreeCopy = indegree g;
          queue = filter (\<lambda>node. deg indegreeCopy node = 0) (range_keys ord indegreeCopy);
          processed = kahn_loop (edges g) queue indegreeCopy 0
      in processed \<noteq> length (keys indegreeCopy))"

definition AddEdge :: "string \<Rightarrow> string \<Rightarrow> KahnGraph \<Rightarrow> KahnGraph" where
  "AddEdge a b g =
     (let g1 = g\<lparr>edges := put a (succs (edges g) a @ [b]) (edges g)\<rparr>;
          g2 = g1\<lparr>indegree := put b (deg (indegree g1) b + 1) (indegree g1)\<rparr>
      in if get (indegree g2) a = None
         then g2\<lparr>indegree := put a 0 (indegree g2)\<rparr> else g2)"

definition AddEdgeAndCheckCycle ::
  "range_oracle \<Rightarrow> string \<Rightarrow> string \<Rightarrow> KahnGraph \<Rightarrow> bool \<times> KahnGraph" where
  "AddEdgeAndCheckCycle ord a b g = (let g' = AddEdge a b g in (hasCycle ord g', g'))"


subsection \<open>Well-formed graphs\<close>

definition edge_rel :: "KahnGraph \<Rightarrow> (string \<times> string) set" where
  "edge_rel g = {(a, b). b \<in> set (succs (edges g) a)}"

definition in_edges :: "string list gomap \<Rightarrow> string set \<Rightarrow> string \<Rightarrow> nat" where
  "in_edges es A n = (\<Sum>m\<in>A. count_list (succs es m) n)"

definition wf_graph :: "KahnGraph \<Rightarrow> bool" where
  "wf_graph g \<longleftrightarrow>
     wf_map (edges g) \<and> wf_map (indegree g) \<and>
     set (keys (edges g)) \<subseteq> set (keys (indegree g)) \<and>
     snd ` edge_rel g \<subseteq> set (keys (indegree g)) \<and>
     (\<forall>n. deg (indegree g) n = int (in_edges (edges g) (set (keys (edges g))) n))"

lemma deg_put [simp]: "deg (put k v m) n = (if n = k then v else deg m n)"
  by (simp add: deg_def)

lemma succs_put [simp]: "succs (put k v m) n = (if n = k then v else succs m n)"
  by (simp add: succs_def)

lemma succs_notin: "m \<notin> set (keys es) \<Longrightarrow> succs es m = []"
  by (simp add: succs_def get_None_iff [THEN iffD2])

lemma in_edges_zero_iff:
  "finite A \<Longrightarrow> in_edges es A n = 0 \<longleftrightarrow> (\<forall>m\<in>A. n \<notin> set (succs es m))"
  by (simp add: in_edges_def count_list_0_iff)

lemma in_edges_remove:
  "finite A \<Longrightarrow> x \<in> A \<Longrightarrow> in_edges es A n = count_list (succs es x) n + in_edges es (A - {x}) n"
  by (simp add: in_edges_def sum.remove)

lemma edge_rel_dom: "(a, b) \<in> edge_rel g \<Longrightarrow> a \<in> set (keys (edges g))"
  by (rule ccontr) (simp add: edge_rel_def succs_notin)

lemma finite_edge_rel [simp]: "finite (edge_rel g)"
proof -
  have "edge_rel g = (\<Union>a\<in>set (keys (edges g)). Pair a ` set (succs (edges g) a))"
    using edge_rel_dom by (fastforce simp: edge_rel_def)
  then show ?thesis by simp
qed

lemma wf_graph_new [simp]: "wf_graph NewKahnGraph"
  by (simp add: wf_graph_def NewKahnGraph_def in_edges_def deg_def edge_rel_def succs_def)

lemma edge_rel_new [simp]: "edge_rel NewKahnGraph = {}"
  by (simp add: NewKahnGraph_def edge_rel_def succs_def)

lemma edge_rel_AddEdge [simp]: "edge_rel (AddEdge a b g) = insert (a, b) (edge_rel g)"
  by (auto simp: AddEdge_def Let_def edge_rel_def split: if_splits)

lemma in_edges_AddEdge:
  assumes "finite A"
  shows "in_edges (put a (succs es a @ [b]) es) (insert a A) n =
         in_edges es (insert a A) n + (if n = b then 1 else 0)"
proof -
  let ?es = "put a (succs es a @ [b]) es"
  have "in_edges ?es (insert a A) n = count_list (succs ?es a) n + in_edges ?es (A - {a}) n"
    using in_edges_remove [of "insert a A" a ?es n] assms by simp
  moreover have "in_edges ?es (A - {a}) n = in_edges es (A - {a}) n"
    by (simp add: in_edges_def)
  moreover have "in_edges es (insert a A) n = count_list (succs es a) n + in_edges es (A - {a}) n"
    using in_edges_remove [of "insert a A" a es n] assms by simp
  ultimately show ?thesis by simp
qed

lemma in_edges_insert_notin:
  "finite A \<Longrightarrow> succs es a = [] \<Longrightarrow> in_edges es (insert a A) n = in_edges es A n"
  by (cases "a \<in> A") (simp_all add: in_edges_def insert_absorb)

lemma wf_graph_AddEdge:
  assumes "wf_graph g"
  shows "wf_graph (AddEdge a b g)"
proof -
  let ?es = "edges g" and ?g = "AddEdge a b g"
  let ?E = "set (keys ?es)"
  have edges': "edges ?g = put a (succs ?es a @ [b]) ?es"
    by (simp add: AddEdge_def Let_def)
  have deg': "deg (indegree ?g) n = deg (indegree g) n + (if n = b then 1 else 0)" for n
    by (auto simp: AddEdge_def Let_def) (auto simp: deg_def)
  have keys': "fst ` set (indegree ?g) = {a, b} \<union> fst ` set (indegree g)"
    by (auto simp: AddEdge_def Let_def get_None_iff)
  have "in_edges (edges ?g) (set (keys (edges ?g))) n =
        in_edges ?es ?E n + (if n = b then 1 else 0)" for n
  proof (cases "a \<in> ?E")
    case True
    then show ?thesis
      using in_edges_AddEdge [of ?E a ?es b n] by (simp add: edges' insert_absorb)
  next
    case False
    then show ?thesis
      using in_edges_AddEdge [of ?E a ?es b n] in_edges_insert_notin [of ?E ?es a n]
      by (simp add: edges' succs_notin)
  qed
  moreover have "wf_map (indegree ?g)"
    using assms by (simp add: AddEdge_def Let_def wf_graph_def)
  ultimately show ?thesis
    using assms by (auto simp: wf_graph_def edges' deg' keys')
qed

subsection \<open>The loop processes exactly the nodes that lie on or behind no cycle\<close>

lemma relax_spec:
  assumes "relax ns q m = (q', m')" and "\<forall>n. int (count_list ns n) \<le> deg m n"
    and "distinct q" and "\<forall>n\<in>set q. deg m n = 0"
  shows "distinct q' \<and> set q' = set q \<union> {n \<in> set ns. deg m' n = 0} \<and>
         (\<forall>n. deg m' n = deg m n - int (count_list ns n))"
  using assms
proof (induction ns arbitrary: q m)
  case Nil
  then show ?case by simp
next
  case (Cons x ns)
  define d where "d = deg m x - 1"
  define q1 where "q1 = (if d = 0 then q @ [x] else q)"
  define m1 where "m1 = put x d m"
  have run: "relax ns q1 m1 = (q', m')"
    using Cons.prems(1) by (simp add: q1_def m1_def d_def Let_def)
  have pos: "int (count_list ns x) + 1 \<le> deg m x"
    using Cons.prems(2) by (auto dest: spec [of _ x])
  then have x: "x \<notin> set q"
    using Cons.prems(4) by auto
  have bound: "\<forall>n. int (count_list ns n) \<le> deg m1 n"
  proof
    fix n
    show "int (count_list ns n) \<le> deg m1 n"
      using Cons.prems(2) pos by (cases "n = x") (auto simp: m1_def d_def dest: spec [of _ n])
  qed
  have zero: "\<forall>n\<in>set q1. deg m1 n = 0"
    using Cons.prems(4) x by (auto simp: q1_def m1_def)
  have dist: "distinct q1"
    using Cons.prems(3) x by (simp add: q1_def)
  have IH: "distinct q'" "set q' = set q1 \<union> {n \<in> set ns. deg m' n = 0}"
      "\<And>n. deg m' n = deg m1 n - int (count_list ns n)"
    using Cons.IH [OF run bound dist zero] by auto
  have "set q' = set q \<union> {n \<in> set (x # ns). deg m' n = 0}"
  proof (cases "d = 0")
    case True
    then have "deg m' x = 0"
      using IH(3) [of x] pos by (simp add: m1_def d_def)
    with IH(2) True show ?thesis by (auto simp: q1_def)
  next
    case False
    then have "deg m' x = 0 \<Longrightarrow> x \<in> set ns"
      using IH(3) [of x] count_list_0_iff [of ns x] by (auto simp: m1_def)
    with IH(2) False show ?thesis by (auto simp: q1_def)
  qed
  with IH(1,3) show ?case
    by (auto simp: m1_def d_def)
qed

definition loop_inv ::
  "string list gomap \<Rightarrow> string set \<Rightarrow> string set \<Rightarrow> string list \<Rightarrow> int gomap \<Rightarrow> bool" where
  "loop_inv es N P q m \<longleftrightarrow>
     distinct q \<and> set q \<inter> P = {} \<and> set q \<union> P \<subseteq> N \<and>
     (\<forall>n. deg m n = int (in_edges es (set (keys es) - P) n)) \<and>
     (\<forall>n\<in>N. n \<in> P \<union> set q \<longleftrightarrow> deg m n = 0)"

definition closed_under_preds :: "string list gomap \<Rightarrow> string set \<Rightarrow> bool" where
  "closed_under_preds es C \<longleftrightarrow> (\<forall>n\<in>C. \<exists>m\<in>C. n \<in> set (succs es m))"

lemma loop_inv_closed_queue:
  assumes inv: "loop_inv es N P q m" and C: "closed_under_preds es C" "C \<inter> P = {}"
  shows "C \<inter> set q = {}"
proof (rule ccontr)
  assume "C \<inter> set q \<noteq> {}"
  then obtain n where n: "n \<in> C" "n \<in> set q" by auto
  with inv have "in_edges es (set (keys es) - P) n = 0"
    by (auto simp: loop_inv_def)
  moreover obtain x where x: "x \<in> C" "n \<in> set (succs es x)"
    using C(1) n(1) by (auto simp: closed_under_preds_def)
  moreover have "x \<in> set (keys es)"
    using x(2) succs_notin [of x es] by fastforce
  ultimately show False
    using C(2) by (auto simp: in_edges_zero_iff)
qed

lemma loop_inv_step:
  assumes inv: "loop_inv es N P (node # q) m" and sub: "\<forall>n. set (succs es n) \<subseteq> N"
    and rel: "relax (succs es node) q m = (q', m')"
  shows "loop_inv es N (insert node P) q' m'"
proof -
  let ?E = "fst ` set es"
  have *: "distinct (node # q)" "set (node # q) \<inter> P = {}" "set (node # q) \<union> P \<subseteq> N"
    "\<And>n. deg m n = int (in_edges es (?E - P) n)"
    "\<And>n. n \<in> N \<Longrightarrow> n \<in> P \<union> set (node # q) \<longleftrightarrow> deg m n = 0"
    using inv by (auto simp: loop_inv_def)
  have split: "in_edges es (?E - P) n =
      count_list (succs es node) n + in_edges es (?E - insert node P) n" for n
  proof (cases "node \<in> ?E")
    case True
    then have "node \<in> ?E - P" using *(2) by simp
    moreover have "?E - P - {node} = ?E - insert node P" by blast
    ultimately show ?thesis
      using in_edges_remove [of "?E - P" node es n] by simp
  next
    case False
    then show ?thesis by (simp add: succs_notin)
  qed
  have "\<forall>n. int (count_list (succs es node) n) \<le> deg m n"
    by (simp add: *(4) split)
  moreover have "distinct q" "\<forall>n\<in>set q. deg m n = 0"
    using * by auto
  ultimately have r: "distinct q'" "set q' = set q \<union> {n \<in> set (succs es node). deg m' n = 0}"
      "\<And>n. deg m' n = deg m n - int (count_list (succs es node) n)"
    using relax_spec [OF rel] by auto
  have deg': "deg m' n = int (in_edges es (?E - insert node P) n)" for n
    by (simp add: r(3) *(4) split)
  have mem: "n \<in> insert node P \<union> set q' \<longleftrightarrow> deg m' n = 0" if "n \<in> N" for n
  proof (cases "n \<in> set (succs es node)")
    case True
    then have "0 < deg m n"
      using *(4) [of n] split [of n] count_list_0_iff [of "succs es node" n] by auto
    then have "n \<notin> P \<union> set (node # q)"
      using *(5) [OF that] by auto
    with True show ?thesis by (auto simp: r(2))
  next
    case False
    then have "deg m' n = deg m n" by (simp add: r(3))
    then show ?thesis using *(5) [OF that] False by (auto simp: r(2))
  qed
  have disj: "set q' \<inter> insert node P = {}"
  proof -
    have "deg m' n = 0 \<Longrightarrow> n \<in> set (succs es node) \<Longrightarrow> n \<notin> insert node P" for n
    proof -
      assume "n \<in> set (succs es node)"
      then have "0 < deg m n"
        using *(4) [of n] split [of n] count_list_0_iff [of "succs es node" n] by auto
      moreover have "n \<in> N" using \<open>n \<in> set (succs es node)\<close> sub by blast
      ultimately show "n \<notin> insert node P" using *(5) [of n] by auto
    qed
    then show ?thesis using *(1,2) by (auto simp: r(2))
  qed
  show ?thesis
    using r(1) disj deg' mem *(3) sub by (auto simp: loop_inv_def r(2))
qed

lemma kahn_loop_result:
  assumes "loop_inv es N P q m" "\<forall>n. set (succs es n) \<subseteq> N" "finite N"
  shows "\<exists>P' m'. kahn_loop es q m (card P) = card P' \<and> loop_inv es N P' [] m' \<and>
           (\<forall>C. closed_under_preds es C \<longrightarrow> C \<inter> P = {} \<longrightarrow> C \<inter> P' = {})"
  using assms
proof (induction es q m "card P" arbitrary: P rule: kahn_loop.induct)
  case (1 es m)
  then show ?case by auto
next
  case (2 es node q m)
  obtain q' m' where rel: "relax (succs es node) q m = (q', m')"
    by (cases "relax (succs es node) q m") auto
  have node: "node \<notin> P" "P \<subseteq> N"
    using "2.prems"(1) by (auto simp: loop_inv_def)
  then have card: "card P + 1 = card (insert node P)"
    using "2.prems"(3) finite_subset by fastforce
  have inv: "loop_inv es N (insert node P) q' m'"
    using loop_inv_step [OF "2.prems"(1,2) rel] .
  obtain P' m'' where P': "kahn_loop es q' m' (card (insert node P)) = card P'"
      "loop_inv es N P' [] m''"
      "\<forall>C. closed_under_preds es C \<longrightarrow> C \<inter> insert node P = {} \<longrightarrow> C \<inter> P' = {}"
    using "2.hyps" [OF rel [symmetric] refl card inv "2.prems"(2,3)] by auto
  have "C \<inter> insert node P = {}" if "closed_under_preds es C" "C \<inter> P = {}" for C
    using loop_inv_closed_queue [OF "2.prems"(1) that] that(2) by auto
  with P' have "kahn_loop es (node # q) m (card P) = card P' \<and> loop_inv es N P' [] m'' \<and>
      (\<forall>C. closed_under_preds es C \<longrightarrow> C \<inter> P = {} \<longrightarrow> C \<inter> P' = {})"
    using card by (auto simp: rel)
  then show ?case by blast
qed

lemma loop_inv_start:
  assumes "wf_graph g"
  shows "loop_inv (edges g) (set (keys (indegree g))) {}
           (filter (\<lambda>n. deg (indegree g) n = 0) (range_keys ord (indegree g))) (indegree g)"
  using assms by (auto simp: loop_inv_def wf_graph_def)

lemma loop_inv_end_closed:
  assumes "loop_inv es N P [] m" "set (keys es) \<subseteq> N"
  shows "closed_under_preds es (N - P)"
  using assms
  by (fastforce simp: loop_inv_def closed_under_preds_def in_edges_zero_iff)

lemma closed_iff_cyclic:
  "(\<exists>C. C \<noteq> {} \<and> closed_under_preds (edges g) C) \<longleftrightarrow> \<not> acyclic (edge_rel g)"
proof
  assume "\<exists>C. C \<noteq> {} \<and> closed_under_preds (edges g) C"
  then obtain C c where C: "c \<in> C" "closed_under_preds (edges g) C" by auto
  show "\<not> acyclic (edge_rel g)"
  proof
    assume "acyclic (edge_rel g)"
    then have "wf (edge_rel g)" by (simp add: finite_acyclic_wf)
    then obtain z where "z \<in> C" "\<forall>y. (y, z) \<in> edge_rel g \<longrightarrow> y \<notin> C"
      using C(1) by (metis wfE_min)
    then show False using C(2) by (auto simp: closed_under_preds_def edge_rel_def)
  qed
next
  assume "\<not> acyclic (edge_rel g)"
  then obtain x where x: "(x, x) \<in> (edge_rel g)\<^sup>+" by (auto simp: acyclic_def)
  let ?C = "{n. (x, n) \<in> (edge_rel g)\<^sup>+ \<and> (n, x) \<in> (edge_rel g)\<^sup>+}"
  have "\<exists>m\<in>?C. n \<in> set (succs (edges g) m)" if "n \<in> ?C" for n
  proof -
    obtain m where m: "(x, m) \<in> (edge_rel g)\<^sup>*" "(m, n) \<in> edge_rel g"
      using \<open>n \<in> ?C\<close> by (auto dest: tranclD2)
    then have "(x, m) \<in> (edge_rel g)\<^sup>+" using x by (meson trancl_rtrancl_trancl)
    moreover have "(m, x) \<in> (edge_rel g)\<^sup>+" using m(2) that by (auto intro: trancl_into_trancl2)
    ultimately show ?thesis using m(2) by (auto simp: edge_rel_def)
  qed
  then have "closed_under_preds (edges g) ?C" by (simp add: closed_under_preds_def)
  moreover have "x \<in> ?C" using x by simp
  ultimately show "\<exists>C. C \<noteq> {} \<and> closed_under_preds (edges g) C"
    by (intro exI [of _ ?C]) auto
qed

lemma wf_graph_succs:
  assumes "wf_graph g" "b \<in> set (succs (edges g) a)"
  shows "b \<in> fst ` set (indegree g)"
proof -
  have "b \<in> snd ` edge_rel g"
    using assms(2) by (force simp: edge_rel_def)
  moreover have "snd ` edge_rel g \<subseteq> fst ` set (indegree g)"
    using assms(1) by (simp add: wf_graph_def)
  ultimately show ?thesis by blast
qed

lemma closed_in_keys:
  "wf_graph g \<Longrightarrow> closed_under_preds (edges g) C \<Longrightarrow> C \<subseteq> set (keys (indegree g))"
  using wf_graph_succs by (fastforce simp: closed_under_preds_def)

lemma hasCycle_correct:
  assumes "wf_graph g"
  shows "hasCycle ord g \<longleftrightarrow> \<not> acyclic (edge_rel g)"
proof -
  let ?N = "set (keys (indegree g))" and ?m = "indegree g"
  let ?q = "filter (\<lambda>n. deg ?m n = 0) (range_keys ord ?m)"
  have sub: "\<forall>n. set (succs (edges g) n) \<subseteq> ?N"
    using wf_graph_succs [OF assms(1)] by auto
  obtain P m' where P: "kahn_loop (edges g) ?q ?m 0 = card P" "loop_inv (edges g) ?N P [] m'"
      "\<forall>C. closed_under_preds (edges g) C \<longrightarrow> C \<inter> P = {}"
    using kahn_loop_result [OF loop_inv_start [OF assms, of ord] sub] by auto
  have card: "length (keys ?m) = card ?N"
    using assms(1) by (metis distinct_card wf_graph_def wf_map_def)
  have PN: "P \<subseteq> ?N" using P(2) by (simp add: loop_inv_def)
  have clo: "closed_under_preds (edges g) (?N - P)"
    using loop_inv_end_closed [OF P(2)] assms(1) by (simp add: wf_graph_def)
  have "hasCycle ord g \<longleftrightarrow> card P \<noteq> card ?N"
    using card by (simp add: hasCycle_def Let_def P(1))
  also have "\<dots> \<longleftrightarrow> ?N - P \<noteq> {}"
    using PN card_subset_eq [OF finite_set PN] by (metis Diff_eq_empty_iff subset_antisym order_refl)
  also have "\<dots> \<longleftrightarrow> (\<exists>C. C \<noteq> {} \<and> closed_under_preds (edges g) C)"
    using clo P(3) closed_in_keys [OF assms(1)] by blast
  finally show ?thesis by (simp add: closed_iff_cyclic)
qed


subsection \<open>The contract the inventory relies on\<close>

text \<open>
  A client of the graph only sees: which edges it added, and after each addition whether they
  now form a cycle.
\<close>

locale cycle_checker =
  fixes new :: "'g"
    and add :: "string \<Rightarrow> string \<Rightarrow> 'g \<Rightarrow> bool \<times> 'g"
    and rel :: "'g \<Rightarrow> (string \<times> string) set"
    and ok :: "'g \<Rightarrow> bool"
  assumes ok_new: "ok new"
    and rel_new: "rel new = {}"
    and ok_add: "ok g \<Longrightarrow> add a b g = (c, g') \<Longrightarrow> ok g'"
    and rel_add: "ok g \<Longrightarrow> add a b g = (c, g') \<Longrightarrow> rel g' = insert (a, b) (rel g)"
    and add_cyclic: "ok g \<Longrightarrow> add a b g = (c, g') \<Longrightarrow> c \<longleftrightarrow> \<not> acyclic (rel g')"
begin

lemma add_keeps_cycle:
  assumes "ok g" "\<not> acyclic (rel g)" "add a b g = (c, g')"
  shows "c"
proof -
  have "rel g \<subseteq> rel g'" using rel_add [OF assms(1,3)] by auto
  then have "\<not> acyclic (rel g')" using assms(2) acyclic_subset by blast
  then show ?thesis using add_cyclic [OF assms(1,3)] by simp
qed

lemma add_within_acyclic:
  assumes "ok g" "rel g \<subseteq> r" "(a, b) \<in> r" "acyclic r" "add a b g = (c, g')"
  shows "\<not> c \<and> rel g' \<subseteq> r"
proof -
  have "rel g' \<subseteq> r" using assms rel_add [OF assms(1,5)] by auto
  then show ?thesis using add_cyclic [OF assms(1,5)] assms(4) acyclic_subset by blast
qed

end

interpretation kahn: cycle_checker NewKahnGraph "AddEdgeAndCheckCycle ord" edge_rel wf_graph
  for ord
  by unfold_locales
    (auto simp: AddEdgeAndCheckCycle_def Let_def wf_graph_AddEdge hasCycle_correct)

inductive built_graph :: "range_oracle \<Rightarrow> KahnGraph \<Rightarrow> (string \<times> string) list \<Rightarrow> bool"
  for ord where
  built_new: "built_graph ord NewKahnGraph []"
| built_add: "built_graph ord g es \<Longrightarrow> AddEdgeAndCheckCycle ord a b g = (c, g') \<Longrightarrow>
    built_graph ord g' ((a, b) # es)"

lemma built_graph_ok: "built_graph ord g es \<Longrightarrow> wf_graph g \<and> edge_rel g = set es"
  by (induction rule: built_graph.induct) (auto dest: kahn.ok_add kahn.rel_add)

text \<open>
  Claim C18. Kahn's algorithm as the source runs it is correct: on every graph built with
  \<^verbatim>\<open>NewKahnGraph\<close> and \<^verbatim>\<open>AddEdgeAndCheckCycle\<close> (repeated edges and self loops included, and
  whatever order Go ranges over the in-degree map), adding the edge \<open>a \<rightarrow> b\<close> answers
  \<^verbatim>\<open>true\<close> exactly when the edges added so far, the new one included, contain a cycle.
\<close>

theorem AddEdgeAndCheckCycle_correct:
  assumes "built_graph ord g es"
  shows "fst (AddEdgeAndCheckCycle ord a b g) \<longleftrightarrow> \<not> acyclic (insert (a, b) (set es))"
  using built_graph_ok [OF assms] kahn.add_cyclic [of g ord a b] kahn.rel_add [of g ord a b]
  by (cases "AddEdgeAndCheckCycle ord a b g") auto

theorem AddEdgeAndCheckCycle_correct_witness:
  "built_graph rev (AddEdge ''a'' ''b'' NewKahnGraph) [(''a'', ''b'')] \<and>
   fst (AddEdgeAndCheckCycle rev ''b'' ''a'' (AddEdge ''a'' ''b'' NewKahnGraph)) =
     (\<not> acyclic (insert (''b'', ''a'') (set [(''a'', ''b'')])))"
proof -
  have "built_graph rev (AddEdge ''a'' ''b'' NewKahnGraph) [(''a'', ''b'')]"
    by (rule built_add [OF built_new]) (simp add: AddEdgeAndCheckCycle_def Let_def)
  with AddEdgeAndCheckCycle_correct [OF this, of "''b''" "''a''"] show ?thesis by simp
qed

end
