(* ===== verification/Inventory.thy ===== *)
theory Inventory
  imports Kahn
begin

text \<open>
  The inventory's groups (\<^verbatim>\<open>pkg/variable/helper.go\<close> and \<^verbatim>\<open>pkg/utils/slice.go\<close>): duplicate
  elimination on host lists, the flattening of a group with its nested groups, and the group
  table every play is resolved against. \<^verbatim>\<open>hostsInGroup\<close> recurses through group references that
  the user wrote, so nothing in its text bounds the recursion: the model has fuel, and
  \<open>hostsInGroup_total\<close> shows that one more than the number of groups is always enough, cyclic
  inventories included. A \<^verbatim>\<open>runtime.RawExtension\<close> is its raw bytes. The branch
  \<^verbatim>\<open>groupsGraph == nil\<close> has no caller and is not modelled.
\<close>

record InventoryGroup =
  Groups :: "string list"
  Hosts :: "string list"
  Vars :: string

record Inventory =
  InvHosts :: "string gomap"
  InvVars :: string
  InvGroups :: "InventoryGroup gomap"

definition VariableLocalHost :: string where "VariableLocalHost = ''localhost''"
definition VariableGroupsAll :: string where "VariableGroupsAll = ''all''"
definition VariableUnGrouped :: string where "VariableUnGrouped = ''ungrouped''"

subsection \<open>Duplicate elimination\<close>

fun unique_loop :: "'a list \<Rightarrow> 'a list \<Rightarrow> 'a list \<Rightarrow> 'a list \<times> 'a list" where
  "unique_loop seen out [] = (seen, out)"
| "unique_loop seen out (v # vs) =
     (if v \<notin> set seen then unique_loop (v # seen) (out @ [v]) vs
      else unique_loop seen out vs)"

definition RemoveDuplicatesInOrder :: "'a list \<Rightarrow> 'a list" where
  "RemoveDuplicatesInOrder arr = snd (unique_loop [] [] arr)"

definition CombineSlice :: "string list \<Rightarrow> string list \<Rightarrow> string list" where
  "CombineSlice g1 g2 =
     (let (uniqueValues, mg) = unique_loop [] [] g1
      in snd (unique_loop uniqueValues mg g2))"

subsection \<open>Flattening a group\<close>

fun hostsInGroup ::
  "(string \<Rightarrow> string \<Rightarrow> 'g \<Rightarrow> bool \<times> 'g) \<Rightarrow> nat \<Rightarrow> Inventory \<Rightarrow> string \<Rightarrow> 'g \<Rightarrow>
   (string list \<times> 'g) option"
and childGroups ::
  "(string \<Rightarrow> string \<Rightarrow> 'g \<Rightarrow> bool \<times> 'g) \<Rightarrow> nat \<Rightarrow> Inventory \<Rightarrow> string \<Rightarrow> string list \<Rightarrow>
   string list \<Rightarrow> 'g \<Rightarrow> (string list option \<times> 'g) option" where
  "hostsInGroup add 0 iv groupName g = None"
| "hostsInGroup add (Suc fuel) iv groupName g =
     (case get (InvGroups iv) groupName of
        Some v \<Rightarrow>
          (case childGroups add fuel iv groupName (Groups v) [] g of
             None \<Rightarrow> None
           | Some (None, g') \<Rightarrow> Some ([], g')
           | Some (Some hosts, g') \<Rightarrow> Some (CombineSlice hosts (Hosts v), g'))
      | None \<Rightarrow> Some ([], g))"
| "childGroups add fuel iv groupName [] hosts g = Some (Some hosts, g)"
| "childGroups add fuel iv groupName (cg # cgs) hosts g =
     (let (cycle, g') = add groupName cg g
      in if cycle then Some (None, g')
         else (case hostsInGroup add fuel iv cg g' of
                 None \<Rightarrow> None
               | Some (hs, g'') \<Rightarrow>
                   childGroups add fuel iv groupName cgs (CombineSlice hs hosts) g''))"

subsection \<open>The group table\<close>

fun drop_grouped :: "string list \<Rightarrow> string list \<Rightarrow> string list" where
  "drop_grouped ungrouped [] = ungrouped"
| "drop_grouped ungrouped (v # hosts) =
     drop_grouped (if v \<in> set ungrouped then remove1 v ungrouped else ungrouped) hosts"

fun groupLoop ::
  "range_oracle \<Rightarrow> Inventory \<Rightarrow> string list \<Rightarrow>
   KahnGraph \<times> string list gomap \<times> string list \<Rightarrow>
   (KahnGraph \<times> string list gomap \<times> string list) option" where
  "groupLoop ord iv [] s = Some s"
| "groupLoop ord iv (gn # gns) (g, groups, ungrouped) =
     (case hostsInGroup (AddEdgeAndCheckCycle ord) (Suc (length (InvGroups iv))) iv gn g of
        None \<Rightarrow> None
      | Some (hosts, g') \<Rightarrow>
          groupLoop ord iv gns (g', put gn hosts groups, drop_grouped ungrouped hosts))"

definition ConvertGroup :: "range_oracle \<Rightarrow> Inventory \<Rightarrow> string list gomap option" where
  "ConvertGroup ord iv =
     (let hosts = range_keys ord (InvHosts iv);
          ungrouped = hosts;
          all = (if VariableLocalHost \<notin> set hosts then hosts @ [VariableLocalHost] else hosts);
          groups = put VariableGroupsAll all []
      in case groupLoop ord iv (range_keys ord (InvGroups iv)) (NewKahnGraph, groups, ungrouped) of
           None \<Rightarrow> None
         | Some (_, groups', ungrouped') \<Rightarrow> Some (put VariableUnGrouped ungrouped' groups'))"

subsection \<open>What the table should hold\<close>

definition child_rel :: "Inventory \<Rightarrow> (string \<times> string) set" where
  "child_rel iv = {(a, b). \<exists>v. get (InvGroups iv) a = Some v \<and> b \<in> set (Groups v)}"

definition group_members :: "Inventory \<Rightarrow> string \<Rightarrow> string set" where
  "group_members iv gn =
     {h. \<exists>b v. (gn, b) \<in> (child_rel iv)\<^sup>* \<and> get (InvGroups iv) b = Some v \<and> h \<in> set (Hosts v)}"

subsection \<open>Duplicate elimination is append-if-absent\<close>

lemma unique_loop_extend:
  "set seen = set out \<Longrightarrow>
   snd (unique_loop seen out xs) = extend_new out xs \<and>
   set (fst (unique_loop seen out xs)) = set out \<union> set xs"
  by (induction seen out xs rule: unique_loop.induct) (auto simp: append_new_def)

lemma RemoveDuplicatesInOrder_extend: "RemoveDuplicatesInOrder xs = extend_new [] xs"
  by (simp add: RemoveDuplicatesInOrder_def unique_loop_extend)

lemma CombineSlice_extend: "CombineSlice g1 g2 = extend_new (extend_new [] g1) g2"
proof -
  obtain seen mg where u: "unique_loop [] [] g1 = (seen, mg)"
    by (cases "unique_loop [] [] g1") auto
  with unique_loop_extend [of "[]" "[]" g1]
  have "mg = extend_new [] g1" "set seen = set mg" by auto
  with unique_loop_extend [of seen mg g2] show ?thesis
    by (simp add: CombineSlice_def u)
qed

lemma set_CombineSlice [simp]: "set (CombineSlice a b) = set a \<union> set b"
  by (simp add: CombineSlice_extend)

lemma distinct_CombineSlice [simp]: "distinct (CombineSlice a b)"
  by (simp add: CombineSlice_extend)

lemma extend_new_distinct: "distinct (w @ xs) \<Longrightarrow> extend_new w xs = w @ xs"
  by (induction xs arbitrary: w) (auto simp: append_new_def)

subsection \<open>Flattening terminates\<close>

context cycle_checker
begin

lemma acyclic_step_card:
  assumes "finite D" "gn \<in> D" "acyclic r'" "insert (gn, cg) r \<subseteq> r'"
  shows "card {x \<in> D. (x, cg) \<notin> r'\<^sup>+} < card {x \<in> D. (x, gn) \<notin> r\<^sup>+}"
proof (rule psubset_card_mono)
  show "finite {x \<in> D. (x, gn) \<notin> r\<^sup>+}" using assms(1) by simp
  have mono: "p \<in> r\<^sup>+ \<Longrightarrow> p \<in> r'\<^sup>+" for p using assms(4) trancl_mono [of p r r'] by auto
  have edge: "(gn, cg) \<in> r'" using assms(4) by auto
  have "(x, cg) \<in> r'\<^sup>+" if "(x, gn) \<in> r\<^sup>+" for x
    using mono [OF that] edge by (rule trancl_into_trancl)
  moreover have "(gn, gn) \<notin> r\<^sup>+" using assms(3) mono by (auto simp: acyclic_def)
  moreover have "(gn, cg) \<in> r'\<^sup>+" using edge by auto
  ultimately show "{x \<in> D. (x, cg) \<notin> r'\<^sup>+} \<subset> {x \<in> D. (x, gn) \<notin> r\<^sup>+}"
    using assms(2) by blast
qed

lemma unreached_card_mono:
  assumes "finite D" "r \<subseteq> r'"
  shows "card {x \<in> D. (x, gn) \<notin> r'\<^sup>+} \<le> card {x \<in> D. (x, gn) \<notin> r\<^sup>+}"
  using assms trancl_mono [of _ r r'] by (intro card_mono) auto

lemma childGroups_total:
  assumes "\<And>gn g. ok g \<Longrightarrow>
      card {x \<in> fst ` set (InvGroups iv). (x, gn) \<notin> (rel g)\<^sup>+} < fuel \<Longrightarrow>
      \<exists>hs g'. hostsInGroup add fuel iv gn g = Some (hs, g') \<and> ok g' \<and> rel g \<subseteq> rel g'"
    and "gn \<in> fst ` set (InvGroups iv)" "ok g"
    and "card {x \<in> fst ` set (InvGroups iv). (x, gn) \<notin> (rel g)\<^sup>+} \<le> fuel"
  shows "\<exists>r g'. childGroups add fuel iv gn cgs hosts g = Some (r, g') \<and> ok g' \<and> rel g \<subseteq> rel g'"
  using assms(3,4)
proof (induction cgs arbitrary: hosts g)
  case Nil
  then show ?case by simp
next
  case (Cons cg cgs)
  let ?D = "fst ` set (InvGroups iv)"
  obtain c g1 where step: "add gn cg g = (c, g1)" by (cases "add gn cg g") auto
  have g1: "ok g1" "rel g1 = insert (gn, cg) (rel g)"
    using ok_add [OF Cons.prems(1) step] rel_add [OF Cons.prems(1) step] by auto
  show ?case
  proof (cases c)
    case True
    with g1 step show ?thesis by auto
  next
    case False
    then have "acyclic (rel g1)" using add_cyclic [OF Cons.prems(1) step] by simp
    then have "card {x \<in> ?D. (x, cg) \<notin> (rel g1)\<^sup>+} < fuel"
      using acyclic_step_card [of ?D gn "rel g1" cg "rel g"] assms(2) g1(2) Cons.prems(2) by simp
    then obtain hs g2 where hs: "hostsInGroup add fuel iv cg g1 = Some (hs, g2)"
        "ok g2" "rel g1 \<subseteq> rel g2"
      using assms(1) [OF g1(1)] by blast
    then have sub: "rel g \<subseteq> rel g2" using g1(2) by auto
    have "card {x \<in> ?D. (x, gn) \<notin> (rel g2)\<^sup>+} \<le> fuel"
      using unreached_card_mono [of ?D "rel g" "rel g2" gn] sub Cons.prems(2) by simp
    from Cons.IH [OF hs(2) this, of "CombineSlice hs hosts"] show ?thesis
      using False step hs(1) sub by auto
  qed
qed

lemma flatten_total:
  assumes "ok g" "card {x \<in> fst ` set (InvGroups iv). (x, gn) \<notin> (rel g)\<^sup>+} < fuel"
  shows "\<exists>hs g'. hostsInGroup add fuel iv gn g = Some (hs, g') \<and> ok g' \<and> rel g \<subseteq> rel g'"
  using assms
proof (induction fuel arbitrary: gn g)
  case 0
  then show ?case by simp
next
  case (Suc fuel)
  show ?case
  proof (cases "get (InvGroups iv) gn")
    case None
    with Suc.prems show ?thesis by simp
  next
    case (Some v)
    have "\<exists>r g'. childGroups add fuel iv gn (Groups v) [] g = Some (r, g') \<and> ok g' \<and> rel g \<subseteq> rel g'"
      using Suc.IH Suc.prems get_Some_key [OF Some] by (intro childGroups_total) auto
    then show ?thesis using Some by (auto split: option.splits)
  qed
qed

end

subsection \<open>Flattening an acyclic inventory collects exactly the nested hosts\<close>

lemma group_members_unfold:
  assumes "get (InvGroups iv) gn = Some v"
  shows "group_members iv gn = set (Hosts v) \<union> (\<Union>cg\<in>set (Groups v). group_members iv cg)"
proof -
  have child: "(gn, b) \<in> child_rel iv \<longleftrightarrow> b \<in> set (Groups v)" for b
    using assms by (simp add: child_rel_def)
  have "(gn, b) \<in> (child_rel iv)\<^sup>* \<longleftrightarrow>
      b = gn \<or> (\<exists>cg\<in>set (Groups v). (cg, b) \<in> (child_rel iv)\<^sup>*)" for b
    by (metis child converse_rtranclE converse_rtrancl_into_rtrancl rtrancl.rtrancl_refl)
  then show ?thesis using assms by (auto simp: group_members_def)
qed

lemma group_members_None:
  assumes "get (InvGroups iv) gn = None"
  shows "group_members iv gn = {}"
proof -
  have "(gn, b) \<in> (child_rel iv)\<^sup>* \<Longrightarrow> b = gn" for b
    using assms by (erule_tac converse_rtranclE) (auto simp: child_rel_def)
  then show ?thesis using assms by (fastforce simp: group_members_def)
qed

context cycle_checker
begin

lemma childGroups_members:
  assumes IH: "\<And>gn g hs g'. ok g \<Longrightarrow> rel g \<subseteq> child_rel iv \<Longrightarrow>
      hostsInGroup add fuel iv gn g = Some (hs, g') \<Longrightarrow>
      set hs = group_members iv gn \<and> ok g' \<and> rel g' \<subseteq> child_rel iv"
    and acyc: "acyclic (child_rel iv)"
    and "ok g" "rel g \<subseteq> child_rel iv" "\<And>b. b \<in> set cgs \<Longrightarrow> (gn, b) \<in> child_rel iv"
    and "childGroups add fuel iv gn cgs hosts g = Some (r, g')"
  shows "\<exists>hs. r = Some hs \<and> set hs = set hosts \<union> (\<Union>cg\<in>set cgs. group_members iv cg) \<and>
    ok g' \<and> rel g' \<subseteq> child_rel iv"
  using assms(3-)
proof (induction cgs arbitrary: hosts g)
  case Nil
  then show ?case by auto
next
  case (Cons cg cgs)
  obtain c g1 where step: "add gn cg g = (c, g1)" by (cases "add gn cg g") auto
  have g1: "ok g1" "\<not> c" "rel g1 \<subseteq> child_rel iv"
    using ok_add [OF Cons.prems(1) step] Cons.prems(3)
      add_within_acyclic [OF Cons.prems(1,2) _ acyc step] by auto
  then obtain hs g2 where hs: "hostsInGroup add fuel iv cg g1 = Some (hs, g2)"
      and rest: "childGroups add fuel iv gn cgs (CombineSlice hs hosts) g2 = Some (r, g')"
    using Cons.prems(4) step by (auto split: option.splits)
  have g2: "set hs = group_members iv cg" "ok g2" "rel g2 \<subseteq> child_rel iv"
    using IH [OF g1(1,3) hs] by auto
  from Cons.IH [OF g2(2,3) _ rest] Cons.prems(3) g2(1) show ?case by auto
qed

lemma flatten_members:
  assumes acyc: "acyclic (child_rel iv)"
    and "ok g" "rel g \<subseteq> child_rel iv" "hostsInGroup add fuel iv gn g = Some (hs, g')"
  shows "set hs = group_members iv gn \<and> ok g' \<and> rel g' \<subseteq> child_rel iv"
  using assms(2-)
proof (induction fuel arbitrary: gn g hs g')
  case 0
  then show ?case by simp
next
  case (Suc fuel)
  show ?case
  proof (cases "get (InvGroups iv) gn")
    case None
    with Suc.prems show ?thesis by (simp add: group_members_None)
  next
    case (Some v)
    then obtain r where r: "childGroups add fuel iv gn (Groups v) [] g = Some (r, g')"
        "hs = (case r of None \<Rightarrow> [] | Some hosts \<Rightarrow> CombineSlice hosts (Hosts v))"
      using Suc.prems(3) by (auto split: option.splits)
    have "(gn, b) \<in> child_rel iv" if "b \<in> set (Groups v)" for b
      using Some that by (auto simp: child_rel_def)
    then have "\<exists>hs. r = Some hs \<and> set hs = set [] \<union> (\<Union>cg\<in>set (Groups v). group_members iv cg) \<and>
        ok g' \<and> rel g' \<subseteq> child_rel iv"
      by (intro childGroups_members [OF Suc.IH acyc Suc.prems(1,2) _ r(1)])
    then show ?thesis using r(2) group_members_unfold [OF Some] by auto
  qed
qed

lemma flatten_after_cycle:
  assumes "ok g" "\<not> acyclic (rel g)" "get (InvGroups iv) gn = Some v" "Groups v \<noteq> []"
    and "hostsInGroup add fuel iv gn g = Some (hs, g')"
  shows "hs = []"
proof -
  obtain n where n: "fuel = Suc n" using assms(5) by (cases fuel) auto
  obtain cg cgs where cg: "Groups v = cg # cgs" using assms(4) by (cases "Groups v") auto
  obtain c g1 where step: "add gn cg g = (c, g1)" by (cases "add gn cg g") auto
  then show ?thesis
    using add_keeps_cycle [OF assms(1,2) step] assms(3,5) by (simp add: n cg)
qed

end

lemma hostsInGroup_distinct:
  "hostsInGroup add fuel iv gn g = Some (hs, g') \<Longrightarrow> distinct hs"
  by (cases fuel) (auto split: option.splits)

subsection \<open>The group table\<close>

lemma set_drop_grouped [simp]:
  "distinct u \<Longrightarrow> set (drop_grouped u hs) = set u - set hs \<and> distinct (drop_grouped u hs)"
  by (induction u hs rule: drop_grouped.induct) auto

lemma flatten_fuel:
  "card {x \<in> fst ` set (InvGroups iv). P x} < Suc (length (InvGroups iv))"
proof -
  have "card {x \<in> fst ` set (InvGroups iv). P x} \<le> card (fst ` set (InvGroups iv))"
    by (intro card_mono) auto
  also have "\<dots> \<le> length (InvGroups iv)"
    by (metis card_length length_map list.set_map)
  finally show ?thesis by simp
qed

lemma groupLoop_total:
  "wf_graph g \<Longrightarrow> \<exists>s'. groupLoop ord iv gns (g, groups, u) = Some s'"
proof (induction gns arbitrary: g groups u)
  case Nil
  then show ?case by simp
next
  case (Cons gn gns)
  obtain hs g' where "hostsInGroup (AddEdgeAndCheckCycle ord) (Suc (length (InvGroups iv))) iv gn g
      = Some (hs, g')" "wf_graph g'"
    using kahn.flatten_total [OF Cons.prems flatten_fuel] by blast
  then show ?case using Cons.IH by auto
qed

lemma groupLoop_acyclic:
  assumes "acyclic (child_rel iv)" "wf_graph g" "edge_rel g \<subseteq> child_rel iv" "distinct u"
    and "distinct gns" "groupLoop ord iv gns (g, groups, u) = Some (g', groups', u')"
  shows "(\<forall>gn. gn \<in> set gns \<longrightarrow> (\<exists>hs. get groups' gn = Some hs \<and> set hs = group_members iv gn \<and> distinct hs)) \<and>
         (\<forall>gn. gn \<notin> set gns \<longrightarrow> get groups' gn = get groups gn) \<and>
         set u' = set u - (\<Union>gn\<in>set gns. group_members iv gn)"
  using assms(2-)
proof (induction gns arbitrary: g groups u)
  case Nil
  then show ?case by simp
next
  case (Cons gn gns)
  obtain hs g1 where hs: "hostsInGroup (AddEdgeAndCheckCycle ord) (Suc (length (InvGroups iv))) iv gn g
      = Some (hs, g1)"
    using kahn.flatten_total [OF Cons.prems(1) flatten_fuel] by blast
  have m: "set hs = group_members iv gn" "wf_graph g1" "edge_rel g1 \<subseteq> child_rel iv"
    using kahn.flatten_members [OF assms(1) Cons.prems(1,2) hs] by auto
  have rest: "groupLoop ord iv gns (g1, put gn hs groups, drop_grouped u hs) = Some (g', groups', u')"
    using Cons.prems(5) hs by simp
  note IH = Cons.IH [OF m(2,3) _ _ rest]
  have "get groups' gn = Some hs" using IH Cons.prems(3,4) by simp
  then show ?case
    using IH Cons.prems(3,4) m(1) hostsInGroup_distinct [OF hs] by auto
qed

text \<open>
  Resolving the groups of an inventory always returns: whatever groups the user
  wrote, self references and mutual references included, and in whatever order Go ranges
  over the maps, \<^verbatim>\<open>ConvertGroup\<close> produces a table (the recursion of \<^verbatim>\<open>hostsInGroup\<close> never
  goes deeper than the number of groups).
\<close>

theorem ConvertGroup_total: "\<exists>groups. ConvertGroup ord iv = Some groups"
proof -
  obtain s where "groupLoop ord iv (range_keys ord (InvGroups iv))
      (NewKahnGraph, put VariableGroupsAll
        (if VariableLocalHost \<notin> set (range_keys ord (InvHosts iv))
         then range_keys ord (InvHosts iv) @ [VariableLocalHost]
         else range_keys ord (InvHosts iv)) [], range_keys ord (InvHosts iv)) = Some s"
    using groupLoop_total [OF wf_graph_new] by blast
  then show ?thesis by (cases s) (simp add: ConvertGroup_def Let_def)
qed

text \<open>
  Claim C31. On an inventory whose groups do not refer to each other in a cycle (and that does
  not redefine the two built-in names), the table is the intended one: every group holds,
  without repetition, exactly the hosts of the groups it can reach; \<^verbatim>\<open>all\<close> holds the
  inventory's hosts and \<^verbatim>\<open>localhost\<close>; \<^verbatim>\<open>ungrouped\<close> holds the hosts of no group. This does
  not depend on the order of the map ranges.
\<close>

theorem ConvertGroup_acyclic:
  assumes "wf_map (InvHosts iv)" "wf_map (InvGroups iv)" "acyclic (child_rel iv)"
    and "VariableGroupsAll \<notin> fst ` set (InvGroups iv)" "VariableUnGrouped \<notin> fst ` set (InvGroups iv)"
  shows "\<exists>groups all ungrouped. ConvertGroup ord iv = Some groups \<and>
    (\<forall>gn \<in> fst ` set (InvGroups iv). \<exists>hs. get groups gn = Some hs \<and> distinct hs \<and>
       set hs = group_members iv gn) \<and>
    get groups VariableGroupsAll = Some all \<and>
    set all = insert VariableLocalHost (fst ` set (InvHosts iv)) \<and>
    get groups VariableUnGrouped = Some ungrouped \<and>
    set ungrouped = fst ` set (InvHosts iv) - (\<Union>gn\<in>fst ` set (InvGroups iv). group_members iv gn)"
proof -
  let ?hosts = "range_keys ord (InvHosts iv)"
  let ?all = "if VariableLocalHost \<notin> set ?hosts then ?hosts @ [VariableLocalHost] else ?hosts"
  let ?groups = "put VariableGroupsAll ?all []"
  obtain g' groups' u' where run: "groupLoop ord iv (range_keys ord (InvGroups iv))
      (NewKahnGraph, ?groups, ?hosts) = Some (g', groups', u')"
    using groupLoop_total [OF wf_graph_new] by (metis prod_cases3)
  have names: "VariableGroupsAll \<noteq> VariableUnGrouped"
    by (simp add: VariableGroupsAll_def VariableUnGrouped_def)
  have eq: "ConvertGroup ord iv = Some (put VariableUnGrouped u' groups')"
    using run by (simp add: ConvertGroup_def Let_def)
  have loop: "(\<forall>gn. gn \<in> set (range_keys ord (InvGroups iv)) \<longrightarrow>
        (\<exists>hs. get groups' gn = Some hs \<and> set hs = group_members iv gn \<and> distinct hs)) \<and>
      (\<forall>gn. gn \<notin> set (range_keys ord (InvGroups iv)) \<longrightarrow> get groups' gn = get ?groups gn) \<and>
      set u' = set ?hosts - (\<Union>gn\<in>set (range_keys ord (InvGroups iv)). group_members iv gn)"
    using assms(1,2) by (intro groupLoop_acyclic [OF assms(3) wf_graph_new _ _ _ run]) simp_all
  then have "get groups' VariableGroupsAll = Some ?all"
    using assms(4) by simp
  with loop eq names assms(5) show ?thesis
    by (intro exI [of _ "put VariableUnGrouped u' groups'"] exI [of _ ?all] exI [of _ u']) auto
qed

definition sample_inventory :: Inventory where
  "sample_inventory =
     \<lparr>InvHosts = [(''n1'', []), (''n2'', [])], InvVars = [],
      InvGroups = [(''k8s'', \<lparr>Groups = [''etcd''], Hosts = [], Vars = []\<rparr>),
                   (''etcd'', \<lparr>Groups = [], Hosts = [''n1''], Vars = []\<rparr>)]\<rparr>"

lemma sample_child_rel: "child_rel sample_inventory = {(''k8s'', ''etcd'')}"
  by (auto simp: child_rel_def sample_inventory_def split: if_splits)

theorem ConvertGroup_acyclic_witness:
  "\<exists>groups all ungrouped. ConvertGroup rev sample_inventory = Some groups \<and>
    (\<forall>gn \<in> fst ` set (InvGroups sample_inventory). \<exists>hs. get groups gn = Some hs \<and> distinct hs \<and>
       set hs = group_members sample_inventory gn) \<and>
    get groups VariableGroupsAll = Some all \<and>
    set all = insert VariableLocalHost (fst ` set (InvHosts sample_inventory)) \<and>
    get groups VariableUnGrouped = Some ungrouped \<and>
    set ungrouped = fst ` set (InvHosts sample_inventory) -
      (\<Union>gn\<in>fst ` set (InvGroups sample_inventory). group_members sample_inventory gn)"
proof (rule ConvertGroup_acyclic)
  show "acyclic (child_rel sample_inventory)"
    by (simp add: sample_child_rel acyclic_def trancl_insert)
qed (simp_all add: sample_inventory_def wf_map_def VariableGroupsAll_def VariableUnGrouped_def)

definition cyclic_inventory :: Inventory where
  "cyclic_inventory =
     \<lparr>InvHosts = [(''n1'', [])], InvVars = [],
      InvGroups = [(''bad'', \<lparr>Groups = [''bad''], Hosts = [], Vars = []\<rparr>),
                   (''k8s'', \<lparr>Groups = [''etcd''], Hosts = [], Vars = []\<rparr>),
                   (''etcd'', \<lparr>Groups = [], Hosts = [''n1''], Vars = []\<rparr>)]\<rparr>"

text \<open>
  The cycle check is shared by the whole table, so one cyclic group silently empties
  unrelated nested groups that happen to be visited after it: in this inventory the group
  \<^verbatim>\<open>bad\<close> refers to itself, \<^verbatim>\<open>k8s\<close> does not, and \<^verbatim>\<open>k8s\<close> resolves to its host or to nothing
  depending on Go's map iteration order.
\<close>

theorem ConvertGroup_order_dependent:
  "map_option (\<lambda>groups. get groups ''k8s'') (ConvertGroup (\<lambda>ks. ks) cyclic_inventory) = Some (Some [])
   \<and> map_option (\<lambda>groups. get groups ''k8s'') (ConvertGroup rev cyclic_inventory) = Some (Some [''n1''])"
  by code_simp

end
