(* ===== verification/Serial.thy ===== *)
theory Serial
  imports Prelude
begin

text \<open>
  Splitting the hosts of a play into batches (\<^verbatim>\<open>GroupHostBySerial\<close> in
  \<^verbatim>\<open>pkg/converter/converter.go\<close>). An entry of \<^verbatim>\<open>serial\<close> is an integer or a string, the string
  either a percentage or an integer. The size of a percentage is computed by the source in
  \<^verbatim>\<open>float64\<close> (\<^verbatim>\<open>strconv.ParseFloat\<close>, \<^verbatim>\<open>math.Ceil\<close>): that computation is the argument
  \<open>percent\<close>, from the digits and the number of hosts to the batch size, and the theorems hold
  whatever it returns. The loop that repeats the last size compares integers with a
  \<^verbatim>\<open>float64\<close> quotient of two lengths, which is exact at these magnitudes, so it runs once for
  each integer below the quotient. Slicing out of range panics in Go; the panic is the error
  value \<open>SliceBounds\<close>. Sizes are mathematical integers: a sum beyond 64 bits needs an entry
  larger than any host list, and the batch after such an entry is out of range either way.
\<close>

datatype serial = SInt int | SStr string | SOther

datatype serial_error =
    ParseFloatError string | ParseIntError string | UnknownSerialType
  | ZeroSerial serial | SliceBounds

definition serial_size ::
  "(string \<Rightarrow> nat \<Rightarrow> int option) \<Rightarrow> nat \<Rightarrow> serial \<Rightarrow> serial_error + int" where
  "serial_size percent n a =
     bind_res
       (case a of
          SInt val \<Rightarrow> Inr val
        | SStr val \<Rightarrow>
            (if HasSuffix val ''%'' then
               (case percent (take (length val - 1) val) n of
                  None \<Rightarrow> Inl (ParseFloatError val)
                | Some b \<Rightarrow> Inr b)
             else
               (case Atoi val of
                  None \<Rightarrow> Inl (ParseIntError val)
                | Some b \<Rightarrow> Inr b))
        | SOther \<Rightarrow> Inl UnknownSerialType)
       (\<lambda>si. if si = 0 then Inl (ZeroSerial a) else Inr si)"

fun serial_sizes ::
  "(string \<Rightarrow> nat \<Rightarrow> int option) \<Rightarrow> nat \<Rightarrow> serial list \<Rightarrow> serial_error + int list" where
  "serial_sizes percent n [] = Inr []"
| "serial_sizes percent n (a # as) =
     bind_res (serial_size percent n a) (\<lambda>si.
     bind_res (serial_sizes percent n as) (\<lambda>sis. Inr (si # sis)))"

definition repeats :: "int \<Rightarrow> int \<Rightarrow> nat" where
  "repeats missing si = (if si < 0 then 0 else nat ((missing + si - 1) div si))"

definition extend_sizes :: "nat \<Rightarrow> int list \<Rightarrow> int list" where
  "extend_sizes n sis =
     (let count = sum_list sis
      in if int n > count then sis @ replicate (repeats (int n - count) (last sis)) (last sis)
         else sis)"

definition slice :: "'a list \<Rightarrow> int \<Rightarrow> int \<Rightarrow> serial_error + 'a list" where
  "slice hosts b e =
     (if 0 \<le> b \<and> b \<le> e \<and> e \<le> int (length hosts)
      then Inr (take (nat (e - b)) (drop (nat b) hosts)) else Inl SliceBounds)"

fun split_batches ::
  "'a list \<Rightarrow> int list \<Rightarrow> int \<Rightarrow> int \<Rightarrow> serial_error + 'a list list" where
  "split_batches hosts [] b e = Inr []"
| "split_batches hosts (si # sis) b e =
     (let e1 = e + si;
          e2 = (if e1 > int (length hosts) then int (length hosts) else e1)
      in bind_res (slice hosts b e2) (\<lambda>batch.
         bind_res (split_batches hosts sis (b + si) e2) (\<lambda>rest. Inr (batch # rest))))"

definition GroupHostBySerial ::
  "(string \<Rightarrow> nat \<Rightarrow> int option) \<Rightarrow> 'a list \<Rightarrow> serial list \<Rightarrow> serial_error + 'a list list" where
  "GroupHostBySerial percent hosts serial =
     (if serial = [] then Inr [hosts]
      else bind_res (serial_sizes percent (length hosts) serial) (\<lambda>sis.
           split_batches hosts (extend_sizes (length hosts) sis) 0 0))"

subsection \<open>Chunks: what batching means\<close>

fun chunks :: "int list \<Rightarrow> 'a list \<Rightarrow> 'a list list" where
  "chunks [] hosts = []"
| "chunks (n # ns) hosts = take (nat n) hosts # chunks ns (drop (nat n) hosts)"

lemma concat_chunks:
  "\<forall>n\<in>set ns. 0 \<le> n \<Longrightarrow> int (length hosts) \<le> sum_list ns \<Longrightarrow> concat (chunks ns hosts) = hosts"
proof (induction ns hosts rule: chunks.induct)
  case (2 n ns hosts)
  then have "int (length (drop (nat n) hosts)) \<le> sum_list ns"
    by (cases "nat n \<le> length hosts") (auto intro: sum_list_nonneg)
  with 2 show ?case by simp
qed simp

lemma split_batches_chunks:
  assumes "\<forall>si\<in>set sis. 0 < si" "0 \<le> b" "b + sum_list (butlast sis) \<le> int (length hosts)"
  shows "split_batches hosts sis b b = Inr (chunks sis (drop (nat b) hosts))"
  using assms
proof (induction sis arbitrary: b)
  case Nil
  then show ?case by simp
next
  case (Cons si sis)
  show ?case
  proof (cases "sis = []")
    case True
    with Cons.prems show ?thesis
      by (auto simp: slice_def Let_def min_def)
  next
    case False
    have nonneg: "0 \<le> sum_list (butlast sis)"
      using Cons.prems(1) by (intro sum_list_nonneg) (auto dest!: in_set_butlastD intro: less_imp_le)
    with False Cons.prems have le: "b + si \<le> int (length hosts)" by simp
    have "split_batches hosts sis (b + si) (b + si) = Inr (chunks sis (drop (nat (b + si)) hosts))"
      using Cons.prems False by (intro Cons.IH) auto
    then show ?thesis
      using le Cons.prems by (auto simp: slice_def Let_def nat_add_distrib add.commute)
  qed
qed

lemma split_batches_bounds:
  assumes "split_batches hosts sis b b = Inr bs" "0 \<le> b" "b \<le> int (length hosts)"
    and "\<forall>si\<in>set sis. si \<noteq> 0"
  shows "(\<forall>si\<in>set sis. 0 < si) \<and> (sis \<noteq> [] \<longrightarrow> b + sum_list (butlast sis) \<le> int (length hosts))"
  using assms
proof (induction sis arbitrary: b bs)
  case Nil
  then show ?case by simp
next
  case (Cons si sis)
  have pos: "0 < si"
    using Cons.prems by (auto simp: slice_def Let_def bind_res_def split: if_splits)
  show ?case
  proof (cases "b + si \<le> int (length hosts)")
    case True
    then obtain bs' where "split_batches hosts sis (b + si) (b + si) = Inr bs'"
      using Cons.prems(1) by (auto simp: Let_def bind_res_Inr_conv)
    with Cons.IH [OF this] Cons.prems True pos show ?thesis by (auto simp: add.assoc)
  next
    case False
    have "sis = []"
    proof (rule ccontr)
      assume "sis \<noteq> []"
      then obtain sj ss where sis: "sis = sj # ss" by (cases sis) auto
      show False
        using Cons.prems False by (auto simp: sis Let_def bind_res_Inr_conv slice_def split: if_splits)
    qed
    with pos Cons.prems show ?thesis by simp
  qed
qed

lemma split_batches_error: "split_batches hosts sis b e = Inl err \<Longrightarrow> err = SliceBounds"
proof (induction sis arbitrary: b e)
  case (Cons si sis)
  then show ?case
    by (auto simp: Let_def bind_res_def slice_def split: if_splits sum.splits)
qed simp

lemma serial_sizes_nonzero:
  "serial_sizes percent n as = Inr sis \<Longrightarrow> length sis = length as \<and> (\<forall>si\<in>set sis. si \<noteq> 0)"
  by (induction as arbitrary: sis)
    (auto simp: bind_res_Inr_conv serial_size_def split: if_splits)

lemma repeats_bounds:
  assumes "0 < missing" "0 < si"
  shows "missing \<le> int (repeats missing si) * si" "int (repeats missing si) * si < missing + si"
    "0 < repeats missing si"
proof -
  have *: "(missing + si - 1) div si * si + (missing + si - 1) mod si = missing + si - 1"
    by (rule div_mult_mod_eq)
  have "0 \<le> (missing + si - 1) mod si" "(missing + si - 1) mod si < si"
    using assms by simp_all
  moreover have "int (repeats missing si) * si = (missing + si - 1) div si * si"
    using assms by (simp add: repeats_def pos_imp_zdiv_nonneg_iff)
  ultimately show l: "missing \<le> int (repeats missing si) * si"
    "int (repeats missing si) * si < missing + si"
    using * by - linarith+
  show "0 < repeats missing si"
    using l(1) assms by (cases "repeats missing si") auto
qed

lemma butlast_replicate_Suc: "butlast (replicate (Suc k) x) = replicate k x"
  by (induction k) auto

lemma extend_sizes_pos:
  assumes "sis \<noteq> []" "\<forall>si\<in>set sis. 0 < si"
  shows "\<forall>si\<in>set (extend_sizes n sis). 0 < si" "int n \<le> sum_list (extend_sizes n sis)"
    "sum_list (butlast sis) \<le> int n \<Longrightarrow> sum_list (butlast (extend_sizes n sis)) \<le> int n"
proof -
  have last: "0 < last sis" using assms by simp
  show "\<forall>si\<in>set (extend_sizes n sis). 0 < si"
    using assms by (auto simp: extend_sizes_def Let_def)
  show "int n \<le> sum_list (extend_sizes n sis)"
    using repeats_bounds(1) [of "int n - sum_list sis" "last sis"] last
    by (auto simp: extend_sizes_def Let_def sum_list_replicate)
  show "sum_list (butlast (extend_sizes n sis)) \<le> int n" if "sum_list (butlast sis) \<le> int n"
  proof (cases "sum_list sis < int n")
    case True
    let ?k = "repeats (int n - sum_list sis) (last sis)"
    have k: "0 < ?k" "int ?k * last sis < int n - sum_list sis + last sis"
      using repeats_bounds [of "int n - sum_list sis" "last sis"] True last by auto
    then have "butlast (extend_sizes n sis) = sis @ replicate (?k - 1) (last sis)"
      using True by (cases ?k)
        (simp_all add: extend_sizes_def Let_def butlast_append butlast_replicate_Suc del: replicate.simps)
    moreover have "int (?k - 1) * last sis = int ?k * last sis - last sis"
      using k(1) by (cases ?k) (simp_all add: algebra_simps)
    ultimately show ?thesis using k(2) by (simp add: sum_list_replicate)
  next
    case False
    then show ?thesis using that by (simp add: extend_sizes_def Let_def)
  qed
qed

lemma extend_sizes_neg:
  assumes "\<not> (\<forall>si\<in>set sis. 0 < si)"
  shows "\<not> (\<forall>si\<in>set (extend_sizes n sis). 0 < si)"
  using assms by (auto simp: extend_sizes_def Let_def)

lemma extend_sizes_long:
  assumes "\<forall>si\<in>set sis. 0 < si" "sis \<noteq> []" "int n < sum_list (butlast sis)"
  shows "extend_sizes n sis = sis"
proof -
  have "sum_list sis = sum_list (butlast sis) + last sis"
    using assms(2) by (metis append_butlast_last_id sum_list.append sum_list_simps(2) sum_list.Nil add_0_right)
  moreover have "0 < last sis" using assms by simp
  ultimately show ?thesis using assms(3) by (simp add: extend_sizes_def Let_def)
qed

lemma extend_sizes_nonzero:
  "sis \<noteq> [] \<Longrightarrow> \<forall>si\<in>set sis. si \<noteq> 0 \<Longrightarrow> \<forall>si\<in>set (extend_sizes n sis). si \<noteq> 0"
  by (auto simp: extend_sizes_def Let_def)

lemma extend_sizes_Nil_iff [simp]: "extend_sizes n sis = [] \<longleftrightarrow> sis = [] \<and> (n = 0 \<or> repeats (int n) (last []) = 0)"
  by (auto simp: extend_sizes_def Let_def)

lemma split_extended:
  assumes sis: "sis \<noteq> []" "\<forall>si\<in>set sis. si \<noteq> 0"
  shows "split_batches hosts (extend_sizes (length hosts) sis) 0 0 =
    (if (\<forall>si\<in>set sis. 0 < si) \<and> sum_list (butlast sis) \<le> int (length hosts)
     then Inr (chunks (extend_sizes (length hosts) sis) hosts) else Inl SliceBounds)"
proof (cases "(\<forall>si\<in>set sis. 0 < si) \<and> sum_list (butlast sis) \<le> int (length hosts)")
  case True
  then show ?thesis
    using split_batches_chunks [of "extend_sizes (length hosts) sis" 0 hosts]
      extend_sizes_pos [OF sis(1), of "length hosts"] by simp
next
  case False
  let ?sis = "extend_sizes (length hosts) sis"
  have "split_batches hosts ?sis 0 0 \<noteq> Inr bs" for bs
  proof
    assume "split_batches hosts ?sis 0 0 = Inr bs"
    from split_batches_bounds [OF this _ _ extend_sizes_nonzero [OF sis]]
    have *: "\<forall>si\<in>set ?sis. 0 < si" "?sis \<noteq> [] \<longrightarrow> sum_list (butlast ?sis) \<le> int (length hosts)"
      by auto
    then have pos: "\<forall>si\<in>set sis. 0 < si" using extend_sizes_neg by blast
    then have "?sis = sis" using False extend_sizes_long [OF pos sis(1)] by auto
    with * False pos sis(1) show False by auto
  qed
  then show ?thesis
    using False split_batches_error [of hosts ?sis 0 0]
    by (cases "split_batches hosts ?sis 0 0") auto
qed


text \<open>
  Claim C32. Whenever batching succeeds, it partitions the play: the batches in order are
  exactly the hosts in order, so no host is dropped, repeated or moved.
\<close>

theorem GroupHostBySerial_partition:
  assumes "GroupHostBySerial percent hosts serial = Inr batches"
  shows "concat batches = hosts"
proof (cases "serial = []")
  case True
  with assms show ?thesis by (auto simp: GroupHostBySerial_def)
next
  case False
  with assms obtain sis where sis: "serial_sizes percent (length hosts) serial = Inr sis"
      "split_batches hosts (extend_sizes (length hosts) sis) 0 0 = Inr batches"
    by (auto simp: GroupHostBySerial_def bind_res_Inr_conv)
  have ne: "sis \<noteq> []" "\<forall>si\<in>set sis. si \<noteq> 0"
    using serial_sizes_nonzero [OF sis(1)] False by auto
  have pos: "\<forall>si\<in>set sis. 0 < si" and eq: "batches = chunks (extend_sizes (length hosts) sis) hosts"
    using sis(2) split_extended [OF ne, of hosts] by (auto split: if_splits)
  show ?thesis
    unfolding eq using extend_sizes_pos [OF ne(1) pos, of "length hosts"]
    by (intro concat_chunks) (auto intro: less_imp_le)
qed

definition no_percent :: "string \<Rightarrow> nat \<Rightarrow> int option" where
  "no_percent s n = None"


theorem GroupHostBySerial_partition_witness:
  "concat [[''a''], [''b'', ''c''], [''d'']] = [''a'', ''b'', ''c'', ''d'']"
proof -
  have "GroupHostBySerial no_percent [''a'', ''b'', ''c'', ''d''] [SInt 1, SStr ''2''] =
     Inr [[''a''], [''b'', ''c''], [''d'']]"
    by code_simp
  then show ?thesis by (rule GroupHostBySerial_partition)
qed

end
