(* ===== verification/Merge.thy ===== *)
theory Merge
  imports Prelude
begin

text \<open>
  Values and deep merge. A Go \<^verbatim>\<open>any\<close> that comes out of JSON or YAML is a tree: nil, booleans,
  integers, floating point numbers (their literal), strings, lists and string-keyed maps. The program merges such trees in two places
  that were written independently: \<^verbatim>\<open>CombineVariables\<close> (\<^verbatim>\<open>pkg/variable/helper.go\<close>) for the
  variables of a host and \<^verbatim>\<open>combineConfigMaps\<close> (\<^verbatim>\<open>builtin/core/upgrade_path.go\<close>) for the
  configuration of an upgrade step. \<open>VMap\<close> stands for a \<^verbatim>\<open>map[string]any\<close>; other
  Go map types do not occur in decoded trees and are outside the model. The locale \<open>deep_merge\<close> states what both promise; the laws
  on paths are proved once in it and both functions are interpreted.
\<close>

datatype val = VNil | VBool bool | VNum int | VFloat string | VStr string | VList "val list"
  | VMap "(string \<times> val) list"

subsection \<open>CombineVariables\<close>

fun combine_val :: "val \<Rightarrow> val \<Rightarrow> val"
and CombineVariables :: "val gomap \<Rightarrow> val gomap \<Rightarrow> val gomap" where
  "combine_val (VMap val1) (VMap val2) = VMap (CombineVariables val1 val2)"
| "combine_val val1 val2 = val2"
| "CombineVariables mv [] = mv"
| "CombineVariables mv ((k, v) # m2) =
     CombineVariables
       (put k (combine_val (case get mv k of None \<Rightarrow> VNil | Some w \<Rightarrow> w) v) mv) m2"

subsection \<open>combineConfigMaps\<close>

fun combineConfigMaps :: "val gomap \<Rightarrow> val gomap \<Rightarrow> val gomap" where
  "combineConfigMaps out [] = out"
| "combineConfigMaps out ((k, sv) # src) =
     combineConfigMaps
       (put k
         (case get out k of
            Some (VMap bm) \<Rightarrow> (case sv of VMap sm \<Rightarrow> VMap (combineConfigMaps bm sm) | _ \<Rightarrow> sv)
          | _ \<Rightarrow> sv) out) src"

subsection \<open>Well-formed values and paths\<close>

fun wf_val :: "val \<Rightarrow> bool" where
  "wf_val (VList vs) = list_all wf_val vs"
| "wf_val (VMap m) = (distinct (map fst m) \<and> list_all (\<lambda>p. wf_val (snd p)) m)"
| "wf_val v = True"

definition wf_vars :: "val gomap \<Rightarrow> bool" where
  "wf_vars m \<longleftrightarrow> wf_val (VMap m)"

fun is_map :: "val \<Rightarrow> bool" where
  "is_map (VMap m) = True"
| "is_map v = False"

fun get_path :: "val gomap \<Rightarrow> string list \<Rightarrow> val option" where
  "get_path m [] = Some (VMap m)"
| "get_path m (k # ks) =
     (case get m k of
        None \<Rightarrow> None
      | Some v \<Rightarrow> (if ks = [] then Some v else (case v of VMap m' \<Rightarrow> get_path m' ks | _ \<Rightarrow> None)))"

text \<open>A map is silent about a path when it runs out of keys on the way, through maps only.\<close>

fun silent :: "val gomap \<Rightarrow> string list \<Rightarrow> bool" where
  "silent m [] = False"
| "silent m (k # ks) =
     (case get m k of
        None \<Rightarrow> True
      | Some v \<Rightarrow> (case v of VMap m' \<Rightarrow> silent m' ks | _ \<Rightarrow> False))"

lemma wf_vars_get: "wf_vars m \<Longrightarrow> get m k = Some v \<Longrightarrow> wf_val v"
  by (auto simp: wf_vars_def list_all_iff dest!: map_of_SomeD)

lemma wf_vars_get_map: "wf_vars m \<Longrightarrow> get m k = Some (VMap m') \<Longrightarrow> wf_vars m'"
  unfolding wf_vars_def [of m'] by (rule wf_vars_get)

lemma wf_vars_wf_map [simp]: "wf_vars m \<Longrightarrow> wf_map m"
  by (simp add: wf_vars_def wf_map_def)

lemma wf_vars_Nil [simp]: "wf_vars []"
  by (simp add: wf_vars_def)

lemma silent_get_path: "silent m p \<Longrightarrow> get_path m p = None"
proof (induction m p rule: silent.induct)
  case (2 m k ks)
  show ?case
  proof (cases "get m k")
    case None
    then show ?thesis by simp
  next
    case (Some v)
    then obtain m' where "v = VMap m'" "silent m' ks" using "2.prems" by (cases v) auto
    then show ?thesis using Some "2.IH" [OF Some] by (cases ks) auto
  qed
qed simp

locale deep_merge =
  fixes merge :: "val gomap \<Rightarrow> val gomap \<Rightarrow> val gomap"
  assumes get_merge: "wf_map m2 \<Longrightarrow>
    get (merge m1 m2) k =
      (case get m2 k of
         None \<Rightarrow> get m1 k
       | Some v \<Rightarrow> Some (case get m1 k of
                     Some (VMap a) \<Rightarrow> (case v of VMap b \<Rightarrow> VMap (merge a b) | _ \<Rightarrow> v)
                   | _ \<Rightarrow> v))"
begin

lemma get_merge_scalar:
  "wf_map m2 \<Longrightarrow> get m2 k = Some v \<Longrightarrow> \<not> is_map v \<Longrightarrow> get (merge m1 m2) k = Some v"
  by (cases v) (auto simp: get_merge split: option.splits val.splits)

lemma get_merge_absent: "wf_map m2 \<Longrightarrow> get m2 k = None \<Longrightarrow> get (merge m1 m2) k = get m1 k"
  by (simp add: get_merge)

lemma get_merge_map:
  "wf_map m2 \<Longrightarrow> get m2 k = Some (VMap b) \<Longrightarrow>
   get (merge m1 m2) k =
     Some (case get m1 k of Some (VMap a) \<Rightarrow> VMap (merge a b) | _ \<Rightarrow> VMap b)"
  by (simp add: get_merge split: option.splits val.splits)

lemma path_override:
  assumes "wf_vars m2" "get_path m2 p = Some v" "\<not> is_map v"
  shows "get_path (merge m1 m2) p = Some v"
  using assms
proof (induction p arbitrary: m1 m2)
  case Nil
  then show ?case by auto
next
  case (Cons k ks)
  obtain w where w: "get m2 k = Some w" using Cons.prems(2) by (auto split: option.splits)
  show ?case
  proof (cases "ks = []")
    case True
    then have "w = v" using Cons.prems(2) w by simp
    then show ?thesis using True w Cons.prems get_merge_scalar by simp
  next
    case False
    then obtain b where b: "w = VMap b" "get_path b ks = Some v"
      using Cons.prems(2) w by (auto split: val.splits)
    have wf: "wf_vars b" using wf_vars_get_map Cons.prems(1) w b(1) by blast
    have m: "get (merge m1 m2) k =
        Some (case get m1 k of Some (VMap a) \<Rightarrow> VMap (merge a b) | _ \<Rightarrow> VMap b)"
      using get_merge_map Cons.prems(1) w b(1) by simp
    show ?thesis
    proof (cases "\<exists>a. get m1 k = Some (VMap a)")
      case True
      then show ?thesis using m Cons.IH [OF wf b(2) Cons.prems(3)] \<open>ks \<noteq> []\<close> by auto
    next
      case False
      then have "get (merge m1 m2) k = Some (VMap b)"
        using m by (auto split: option.splits val.splits)
      then show ?thesis using b(2) \<open>ks \<noteq> []\<close> by simp
    qed
  qed
qed

lemma path_frame:
  assumes "wf_vars m2" "silent m2 p"
  shows "get_path (merge m1 m2) p = get_path m1 p"
  using assms
proof (induction p arbitrary: m1 m2)
  case Nil
  then show ?case by simp
next
  case (Cons k ks)
  show ?case
  proof (cases "get m2 k")
    case None
    then show ?thesis using Cons.prems(1) by (simp add: get_merge_absent)
  next
    case (Some w)
    then obtain b where b: "w = VMap b" "silent b ks" using Cons.prems(2) by (cases w) auto
    have ks: "ks \<noteq> []" using b(2) by auto
    have wf: "wf_vars b" using wf_vars_get_map Cons.prems(1) Some b(1) by blast
    have m: "get (merge m1 m2) k =
        Some (case get m1 k of Some (VMap a) \<Rightarrow> VMap (merge a b) | _ \<Rightarrow> VMap b)"
      using get_merge_map Cons.prems(1) Some b(1) by simp
    show ?thesis
    proof (cases "\<exists>a. get m1 k = Some (VMap a)")
      case True
      then show ?thesis using m Cons.IH [OF wf b(2)] ks by auto
    next
      case False
      then have "get (merge m1 m2) k = Some (VMap b)"
        using m by (auto split: option.splits val.splits)
      moreover have "get_path m1 (k # ks) = None"
        using False ks by (auto split: option.splits val.splits)
      ultimately show ?thesis using silent_get_path [OF b(2)] ks by simp
    qed
  qed
qed

lemma path_map:
  assumes "wf_vars m2" "get_path m2 p = Some v" "is_map v"
  shows "\<exists>w. get_path (merge m1 m2) p = Some w \<and> is_map w"
  using assms
proof (induction p arbitrary: m1 m2)
  case (Cons k ks)
  obtain b where b: "get m2 k = Some (VMap b)" "get_path b ks = Some v"
    using Cons.prems(2,3) by (auto split: option.splits if_splits val.splits elim: is_map.elims)
  have wf: "wf_vars b" by (rule wf_vars_get_map [OF Cons.prems(1) b(1)])
  have m: "get (merge m1 m2) k =
      Some (case get m1 k of Some (VMap a) \<Rightarrow> VMap (merge a b) | _ \<Rightarrow> VMap b)"
    using get_merge_map Cons.prems(1) b(1) by simp
  show ?case
  proof (cases "\<exists>a. get m1 k = Some (VMap a)")
    case True
    then show ?thesis using m Cons.IH [OF wf b(2) Cons.prems(3)] by auto
  next
    case False
    then have "get (merge m1 m2) k = Some (VMap b)"
      using m by (auto split: option.splits val.splits)
    then show ?thesis using b(2) Cons.prems(3) by auto
  qed
qed auto

lemma foldl_silent:
  assumes "\<forall>m\<in>set ms. wf_vars m \<and> silent m p"
  shows "get_path (foldl merge m0 ms) p = get_path m0 p"
  using assms by (induction ms arbitrary: m0) (auto simp: path_frame)

lemma foldl_last_wins:
  assumes "wf_vars m" "get_path m p = Some v" "\<not> is_map v"
    and "\<forall>m'\<in>set post. wf_vars m' \<and> silent m' p"
  shows "get_path (foldl merge m0 (pre @ m # post)) p = Some v"
  using assms by (simp add: foldl_silent path_override)

end

lemma get_CombineVariables:
  "wf_map m2 \<Longrightarrow>
   get (CombineVariables m1 m2) k =
     (case get m2 k of
        None \<Rightarrow> get m1 k
      | Some v \<Rightarrow> Some (combine_val (case get m1 k of None \<Rightarrow> VNil | Some w \<Rightarrow> w) v))"
proof (induction m2 arbitrary: m1)
  case (Cons p m2)
  obtain k' v where p: "p = (k', v)" by (cases p) auto
  have "k' \<notin> fst ` set m2" "wf_map m2" using Cons.prems by (auto simp: wf_map_def p)
  then show ?case using Cons.IH by (auto simp: p get_None_iff [THEN iffD2] split: option.splits)
qed simp

lemma get_combineConfigMaps:
  "wf_map m2 \<Longrightarrow>
   get (combineConfigMaps m1 m2) k =
     (case get m2 k of
        None \<Rightarrow> get m1 k
      | Some v \<Rightarrow> Some (case get m1 k of
                    Some (VMap a) \<Rightarrow> (case v of VMap b \<Rightarrow> VMap (combineConfigMaps a b) | _ \<Rightarrow> v)
                  | _ \<Rightarrow> v))"
proof (induction m2 arbitrary: m1)
  case (Cons p m2)
  obtain k' v where p: "p = (k', v)" by (cases p) auto
  have "k' \<notin> fst ` set m2" "wf_map m2" using Cons.prems by (auto simp: wf_map_def p)
  then show ?case
    using Cons.IH by (auto simp: p get_None_iff [THEN iffD2] split: option.splits)
qed simp

interpretation vars: deep_merge CombineVariables
proof unfold_locales
  fix m1 m2 :: "val gomap" and k
  assume wf: "wf_map m2"
  show "get (CombineVariables m1 m2) k =
      (case get m2 k of
         None \<Rightarrow> get m1 k
       | Some v \<Rightarrow> Some (case get m1 k of
                     Some (VMap a) \<Rightarrow> (case v of VMap b \<Rightarrow> VMap (CombineVariables a b) | _ \<Rightarrow> v)
                   | _ \<Rightarrow> v))"
    by (auto simp: get_CombineVariables [OF wf] split: option.splits val.splits)
qed

interpretation cfg: deep_merge combineConfigMaps
  by unfold_locales (rule get_combineConfigMaps)

subsection \<open>Merging keeps values well formed\<close>

lemma list_all_put: "list_all P m \<Longrightarrow> P (k, v) \<Longrightarrow> list_all P (put k v m)"
  by (induction m) auto

lemma wf_vars_put: "wf_vars m \<Longrightarrow> wf_val v \<Longrightarrow> wf_vars (put k v m)"
  by (simp add: wf_vars_def list_all_put distinct_update)

lemma combine_wf:
  "wf_val v1 \<Longrightarrow> wf_val v2 \<Longrightarrow> wf_val (combine_val v1 v2)"
  "wf_vars m1 \<Longrightarrow> list_all (\<lambda>p. wf_val (snd p)) m2 \<Longrightarrow> wf_vars (CombineVariables m1 m2)"
proof (induction v1 v2 and m1 m2 rule: combine_val_CombineVariables.induct)
  case (1 a b)
  then show ?case by (simp add: wf_vars_def)
next
  case (4 mv k v m2)
  have "wf_val (combine_val (case get mv k of None \<Rightarrow> VNil | Some w \<Rightarrow> w) v)"
    using "4.IH"(1) "4.prems" wf_vars_get [OF "4.prems"(1), of k]
    by (auto split: option.splits)
  then show ?case using "4.IH"(2) "4.prems" wf_vars_put by simp
qed auto

lemma wf_CombineVariables [simp]:
  "wf_vars m1 \<Longrightarrow> wf_vars m2 \<Longrightarrow> wf_vars (CombineVariables m1 m2)"
  by (rule combine_wf(2)) (simp_all add: wf_vars_def)

lemma combine_agree:
  "combine_val v1 v2 = (case v1 of
      VMap a \<Rightarrow> (case v2 of VMap b \<Rightarrow> VMap (combineConfigMaps a b) | _ \<Rightarrow> v2) | _ \<Rightarrow> v2)"
  "CombineVariables m1 m2 = combineConfigMaps m1 m2"
  by (induction v1 v2 and m1 m2 rule: combine_val_CombineVariables.induct)
    (auto split: option.splits val.splits)

text \<open>
  Claim C38. Deep merge of variables: every value that the second map gives at a path and that
  is not itself a map is the value of the result at that path, whatever the first map has
  there; at a path the second map is silent about the result is what the first map had; and
  merging well-formed values (no duplicate keys, at any depth) gives a well-formed value.
\<close>

theorem CombineVariables_override_frame:
  assumes "wf_vars m1" "wf_vars m2"
  shows "(\<forall>p v. get_path m2 p = Some v \<longrightarrow> \<not> is_map v \<longrightarrow>
            get_path (CombineVariables m1 m2) p = Some v)
       \<and> (\<forall>p. silent m2 p \<longrightarrow> get_path (CombineVariables m1 m2) p = get_path m1 p)
       \<and> wf_vars (CombineVariables m1 m2)"
  using assms vars.path_override vars.path_frame by auto

theorem CombineVariables_override_frame_witness:
  "get_path (CombineVariables [(''a'', VMap [(''x'', VNum 1), (''y'', VNum 2)])]
       [(''a'', VMap [(''x'', VStr ''new'')])]) [''a'', ''x''] = Some (VStr ''new'')
   \<and> get_path (CombineVariables [(''a'', VMap [(''x'', VNum 1), (''y'', VNum 2)])]
       [(''a'', VMap [(''x'', VStr ''new'')])]) [''a'', ''y''] = Some (VNum 2)"
  using CombineVariables_override_frame
    [of "[(''a'', VMap [(''x'', VNum 1), (''y'', VNum 2)])]" "[(''a'', VMap [(''x'', VStr ''new'')])]"]
  by (auto simp: wf_vars_def)

text \<open>
  On trees of the type \<open>val\<close> the two merge routines compute the same map. The code decides
  differently what a map is: \<^verbatim>\<open>CombineVariables\<close> by \<^verbatim>\<open>reflect.Kind\<close>, \<^verbatim>\<open>combineConfigMaps\<close> by the type
  assertion to \<^verbatim>\<open>map[string]interface{}\<close>. On what a JSON or YAML decoder returns the two tests agree,
  and \<open>VMap\<close> stands for those maps only; on other Go map types the routines differ.
\<close>

lemma combineConfigMaps_is_CombineVariables:
  "combineConfigMaps base src = CombineVariables base src"
  by (simp add: combine_agree(2))

end
