(* ===== verification/Objects.thy ===== *)
theory Objects
  imports Merge
begin

text \<open>
  Values with identity. A Go map or slice is a reference: \<^verbatim>\<open>variable.DeepCopy\<close> clones the
  outermost maps only and \<^verbatim>\<open>CombineVariables\<close> copies a nested map only where both sides have one,
  so the nested maps and slices of a host's variables are shared between the store, its copies and
  the variables handed to templates. An \<open>obj\<close> is a value whose maps and slices carry an identity;
  the same object in two places is the same tree with the same identity. Writing to an object
  (\<open>subst\<close>) changes it wherever it occurs. \<open>erase\<close> forgets identities and the difference of
  \<^verbatim>\<open>int64\<close> and \<^verbatim>\<open>int\<close>. Identities are numbers; whoever creates objects passes on the next
  free one.
\<close>

datatype obj = ONil | OBool bool | ONum int | OInt64 int | OFloat string | OStr string
  | OList nat "obj list" | OMap nat "(string \<times> obj) list"

fun erase :: "obj \<Rightarrow> val" where
  "erase ONil = VNil"
| "erase (OBool b) = VBool b"
| "erase (ONum i) = VNum i"
| "erase (OInt64 i) = VNum i"
| "erase (OFloat s) = VFloat s"
| "erase (OStr s) = VStr s"
| "erase (OList i xs) = VList (map erase xs)"
| "erase (OMap i m) = VMap (map (\<lambda>p. (fst p, erase (snd p))) m)"

abbreviation eraseM :: "obj gomap \<Rightarrow> val gomap" where
  "eraseM m \<equiv> map (\<lambda>p. (fst p, erase (snd p))) m"

subsection \<open>New objects\<close>

fun alloc :: "nat \<Rightarrow> val \<Rightarrow> obj \<times> nat"
and allocs :: "nat \<Rightarrow> val list \<Rightarrow> obj list \<times> nat"
and allocM :: "nat \<Rightarrow> val gomap \<Rightarrow> obj gomap \<times> nat" where
  "alloc n (VList vs) = (let (xs, n1) = allocs n vs in (OList n1 xs, Suc n1))"
| "alloc n (VMap m) = (let (xs, n1) = allocM n m in (OMap n1 xs, Suc n1))"
| "alloc n VNil = (ONil, n)"
| "alloc n (VBool b) = (OBool b, n)"
| "alloc n (VNum i) = (ONum i, n)"
| "alloc n (VFloat s) = (OFloat s, n)"
| "alloc n (VStr s) = (OStr s, n)"
| "allocs n [] = ([], n)"
| "allocs n (v # vs) = (let (x, n1) = alloc n v; (xs, n2) = allocs n1 vs in (x # xs, n2))"
| "allocM n [] = ([], n)"
| "allocM n ((k, v) # m) = (let (x, n1) = alloc n v; (xs, n2) = allocM n1 m in ((k, x) # xs, n2))"

subsection \<open>CombineVariables on objects\<close>

fun combine_obj :: "nat \<Rightarrow> obj \<Rightarrow> obj \<Rightarrow> obj \<times> nat"
and Combine :: "nat \<Rightarrow> obj gomap \<Rightarrow> obj gomap \<Rightarrow> obj gomap \<times> nat" where
  "combine_obj n val1 val2 =
     (case val1 of
        OMap i m1 \<Rightarrow>
          (case val2 of
             OMap j m2 \<Rightarrow> (let (m, n1) = Combine n m1 m2 in (OMap n1 m, Suc n1))
           | _ \<Rightarrow> (val2, n))
      | _ \<Rightarrow> (val2, n))"
| "Combine n mv [] = (mv, n)"
| "Combine n mv ((k, v) # m2) =
     (let (w, n1) = combine_obj n (case get mv k of None \<Rightarrow> ONil | Some u \<Rightarrow> u) v
      in Combine n1 (put k w mv) m2)"

subsection \<open>Writing to a shared object\<close>

fun oid :: "obj \<Rightarrow> nat" where
  "oid (OList i xs) = i"
| "oid (OMap i m) = i"
| "oid x = 0"

fun subst :: "nat \<Rightarrow> obj \<Rightarrow> obj \<Rightarrow> obj" where
  "subst i new (OList j xs) = (if j = i then new else OList j (map (subst i new) xs))"
| "subst i new (OMap j m) = (if j = i then new else OMap j (map (\<lambda>p. (fst p, subst i new (snd p))) m))"
| "subst i new x = x"

abbreviation substM :: "nat \<Rightarrow> obj \<Rightarrow> obj gomap \<Rightarrow> obj gomap" where
  "substM i new m \<equiv> map (\<lambda>p. (fst p, subst i new (snd p))) m"

text \<open>A write is the new content of the object with its identity; a log is replayed in order.\<close>

definition mutate :: "obj list \<Rightarrow> obj \<Rightarrow> obj" where
  "mutate log x = foldl (\<lambda>x new. subst (oid new) new x) x log"

abbreviation mutateM :: "obj list \<Rightarrow> obj gomap \<Rightarrow> obj gomap" where
  "mutateM log m \<equiv> map (\<lambda>p. (fst p, mutate log (snd p))) m"

subsection \<open>reflect.DeepEqual\<close>

text \<open>
  Equality of trees whatever the identities. \<^verbatim>\<open>reflect.DeepEqual\<close> also tells a nil map or slice from
  an empty one, which the trees here do not: where only that differs,
  \<^verbatim>\<open>syncSource\<close> writes a file, with the variables the host has, that the model leaves alone.
\<close>

fun deepEqual :: "obj \<Rightarrow> obj \<Rightarrow> bool"
and deepEquals :: "obj list \<Rightarrow> obj list \<Rightarrow> bool"
and deepEntries :: "obj gomap \<Rightarrow> obj gomap \<Rightarrow> bool" where
  "deepEqual (OList i xs) y \<longleftrightarrow> (case y of OList j ys \<Rightarrow> deepEquals xs ys | _ \<Rightarrow> False)"
| "deepEqual (OMap i m) y \<longleftrightarrow>
     (case y of OMap j m' \<Rightarrow> length m = length m' \<and> deepEntries m m' | _ \<Rightarrow> False)"
| "deepEqual x y \<longleftrightarrow> y = x"
| "deepEquals [] ys \<longleftrightarrow> ys = []"
| "deepEquals (x # xs) ys \<longleftrightarrow>
     (case ys of [] \<Rightarrow> False | y # ys' \<Rightarrow> deepEqual x y \<and> deepEquals xs ys')"
| "deepEntries [] m' \<longleftrightarrow> True"
| "deepEntries ((k, x) # m) m' \<longleftrightarrow>
     (case get m' k of None \<Rightarrow> False | Some y \<Rightarrow> deepEqual x y \<and> deepEntries m m')"

definition deepEqualM :: "obj gomap \<Rightarrow> obj gomap \<Rightarrow> bool" where
  "deepEqualM m m' \<longleftrightarrow> length m = length m' \<and> deepEntries m m'"

subsection \<open>Values only grow\<close>

text \<open>
  \<open>vext v w\<close>: \<open>w\<close> is \<open>v\<close> with nothing but additions: a nil may have become a value, a map may have
  new keys, a list new elements at its end, and the old entries have themselves only grown.
\<close>

inductive vext :: "val \<Rightarrow> val \<Rightarrow> bool" where
  vext_nil: "vext VNil w"
| vext_refl: "vext v v"
| vext_map: "(\<And>k v. get a k = Some v \<Longrightarrow> \<exists>w. get b k = Some w \<and> vext v w) \<Longrightarrow> vext (VMap a) (VMap b)"
| vext_list: "length a \<le> length b \<Longrightarrow> (\<And>j. j < length a \<Longrightarrow> vext (a ! j) (b ! j)) \<Longrightarrow>
    vext (VList a) (VList b)"

inductive_cases vext_mapE: "vext (VMap a) w"
inductive_cases vext_listE: "vext (VList a) w"

declare vext_nil [intro, simp] vext_refl [intro, simp]

lemma vext_map_iff:
  "vext (VMap a) w \<longleftrightarrow>
     (\<exists>b. w = VMap b \<and> (\<forall>k v. get a k = Some v \<longrightarrow> (\<exists>w. get b k = Some w \<and> vext v w)))"
  by (auto elim!: vext_mapE intro: vext_map)

lemma vext_list_iff:
  "vext (VList a) w \<longleftrightarrow>
     (\<exists>b. w = VList b \<and> length a \<le> length b \<and> (\<forall>j<length a. vext (a ! j) (b ! j)))"
  by (auto elim!: vext_listE intro: vext_list)

lemma vext_trans: "vext u v \<Longrightarrow> vext v w \<Longrightarrow> vext u w"
proof (induction arbitrary: w rule: vext.induct)
  case (vext_map a b)
  from vext_map.prems obtain c where c: "w = VMap c"
      "\<forall>k v. get b k = Some v \<longrightarrow> (\<exists>w. get c k = Some w \<and> vext v w)"
    unfolding vext_map_iff by blast
  show ?case unfolding c(1) by (rule vext.vext_map) (use vext_map.IH c(2) in meson)
next
  case (vext_list a b)
  from vext_list.prems obtain c where "w = VList c" "length b \<le> length c"
      "\<forall>j<length b. vext (b ! j) (c ! j)"
    unfolding vext_list_iff by blast
  with vext_list.hyps vext_list.IH show ?case by (auto intro!: vext.vext_list)
qed auto

lemma get_eraseM [simp]: "get (eraseM m) k = map_option erase (get m k)"
  by (induction m) auto

lemma get_substM [simp]: "get (substM i new m) k = map_option (subst i new) (get m k)"
  by (induction m) auto

lemma vext_put:
  assumes "case get m k of None \<Rightarrow> True | Some x \<Rightarrow> vext (erase x) (erase y)"
  shows "vext (erase (OMap i m)) (erase (OMap j (put k y m)))"
  unfolding erase.simps using assms by (intro vext_map) (auto split: option.splits if_splits)

lemma vext_update:
  assumes "j < length xs" "vext (erase (xs ! j)) (erase y)"
  shows "vext (erase (OList i xs)) (erase (OList i' (xs[j := y])))"
  unfolding erase.simps using assms by (intro vext_list) (auto simp: nth_list_update)

lemma vext_grow: "vext (erase (OList i xs)) (erase (OList j (xs @ ys)))"
  unfolding erase.simps by (intro vext_list) (auto simp: nth_append)

subsection \<open>Objects of a tree\<close>

fun objs :: "obj \<Rightarrow> obj set" where
  "objs (OList i xs) = insert (OList i xs) (\<Union>x\<in>set xs. objs x)"
| "objs (OMap i m) = insert (OMap i m) (\<Union>p\<in>set m. objs (snd p))"
| "objs x = {}"

abbreviation objsM :: "obj gomap \<Rightarrow> obj set" where
  "objsM m \<equiv> \<Union>p\<in>set m. objs (snd p)"

text \<open>Identities are consistent and the next free one is \<open>n\<close>.\<close>

definition alive :: "nat \<Rightarrow> obj set \<Rightarrow> bool" where
  "alive n S \<longleftrightarrow> inj_on oid S \<and> (\<forall>y\<in>S. oid y < n)"

lemma alive_mono: "alive n S \<Longrightarrow> n \<le> n' \<Longrightarrow> S' \<subseteq> S \<Longrightarrow> alive n' S'"
  unfolding alive_def by (meson inj_on_subset order_less_le_trans subsetD)

lemma alive_new: "alive n S \<Longrightarrow> oid x = n \<Longrightarrow> alive (Suc n) (insert x S)"
  unfolding alive_def by (auto simp: less_Suc_eq)

lemma size_elem: "x \<in> set xs \<Longrightarrow> size x < size (OList i xs)"
  by (simp add: less_Suc_eq_le size_list_estimation')

lemma size_entry: "p \<in> set m \<Longrightarrow> size (snd p) < size (OMap i m)"
  by (induction m) (auto simp: less_Suc_eq_le)

lemma objs_size: "y \<in> objs t \<Longrightarrow> size y \<le> size t"
proof (induction t rule: objs.induct)
  case (1 i xs)
  then show ?case using size_elem [of _ xs i] by (fastforce dest: order_trans)
next
  case (2 i m)
  then show ?case using size_entry [of _ m i] by (fastforce dest: order_trans)
qed auto

lemma objs_trans: "y \<in> objs t \<Longrightarrow> z \<in> objs y \<Longrightarrow> z \<in> objs t"
  by (induction t rule: objs.induct) auto

lemma objs_self: "y \<in> objs t \<Longrightarrow> y \<in> objs y"
  by (induction t rule: objs.induct) auto

text \<open>No object is inside itself.\<close>

lemma objs_elem: "x \<in> set xs \<Longrightarrow> OList i xs \<notin> objs x"
  using objs_size size_elem by (meson leD)

lemma objs_entry: "p \<in> set m \<Longrightarrow> OMap i m \<notin> objs (snd p)"
  using objs_size size_entry by (meson leD)

lemma objs_proper: "y \<in> objs t \<Longrightarrow> y \<noteq> t \<Longrightarrow> t \<notin> objs y"
  using objs_elem objs_entry objs_trans by (cases t) (auto, blast+)

subsection \<open>A write\<close>

lemma subst_same: "i \<notin> oid ` objs t \<Longrightarrow> subst i new t = t"
proof (induction i new t rule: subst.induct)
  case (2 i new j m)
  have "subst i new (snd p) = snd p" if "p \<in> set m" for p
  proof (cases p)
    case (Pair a b)
    then have "i \<notin> oid ` objs b" using 2 that by force
    then show ?thesis using 2 that Pair by auto
  qed
  then show ?case using 2 by (auto intro!: map_idI simp: prod_eq_iff)
qed (auto intro: map_idI)

lemma oid_subst: "y \<in> objs t \<Longrightarrow> oid new = i \<Longrightarrow> oid (subst i new y) = oid y"
  by (cases y) (auto dest: objs_self)

lemma objs_subst: "objs (subst i new t) \<subseteq> subst i new ` objs t \<union> objs new"
proof (induction i new t rule: subst.induct)
  case (1 i new j xs)
  then show ?case by (auto, blast)
next
  case (2 i new j m)
  then show ?case by (auto, fastforce)
qed auto

lemma vext_subst:
  assumes "\<forall>y\<in>objs t. oid y = oid new \<longrightarrow> vext (erase y) (erase new)"
  shows "vext (erase t) (erase (subst (oid new) new t))"
  using assms
proof (induction t rule: objs.induct)
  case (1 i xs)
  then show ?case by (auto intro!: vext_list)
next
  case (2 i m)
  show ?case
  proof (cases "i = oid new")
    case False
    have "vext (erase x) (erase (subst (oid new) new x))" if "get m k = Some x" for k x
      using 2 map_of_SomeD [OF that] by fastforce
    then show ?thesis using False by (auto intro!: vext_map simp del: map_map)
  qed (use 2 in auto)
qed auto

text \<open>
  The new content of an object \<open>old\<close> is admissible when it is \<open>old\<close> with additions and consists of
  what \<open>old\<close> contained and of new objects.
\<close>

definition admissible :: "nat \<Rightarrow> obj \<Rightarrow> obj \<Rightarrow> bool" where
  "admissible n old new \<longleftrightarrow>
     oid new = oid old \<and> vext (erase old) (erase new) \<and>
     (\<forall>y\<in>objs new. y = new \<or> y \<in> objs old - {old} \<or> n \<le> oid y)"

lemma admissible_inner:
  assumes "admissible n old new" "old \<in> S" "inj_on oid S" "objs old \<subseteq> S" "\<forall>y\<in>S. oid y < n"
    and "y \<in> objs new" "y \<noteq> new"
  shows "oid old \<notin> oid ` objs y"
proof
  assume "oid old \<in> oid ` objs y"
  then obtain z where z: "z \<in> objs y" "oid z = oid old" by auto
  have "z \<noteq> new" using objs_proper assms(6,7) z(1) by blast
  moreover have "z \<in> objs new" using objs_trans assms(6) z(1) by blast
  ultimately consider "z \<in> objs old" "z \<noteq> old" | "n \<le> oid z"
    using assms(1) unfolding admissible_def by blast
  then show False
  proof cases
    case 1
    then show ?thesis using inj_onD [OF assms(3) z(2)] assms(2,4) by blast
  next
    case 2
    then show ?thesis using assms(2,5) z(2) by fastforce
  qed
qed

lemma alive_image:
  assumes "alive n U" "\<And>y. y \<in> U \<Longrightarrow> oid (f y) = oid y"
  shows "alive n (f ` U)"
  using assms unfolding alive_def inj_on_def by auto

lemma subst_hit: "old \<in> objs old \<Longrightarrow> oid old = i \<Longrightarrow> subst i new old = new"
  by (cases old) auto

lemma write_alive:
  assumes "admissible n old new" "old \<in> objs old" "alive n S" "objs old \<subseteq> S"
    and new: "alive n' (S \<union> (objs new - {new}))"
    and sub: "\<And>t. t \<in> T \<Longrightarrow> objs t \<subseteq> S"
  shows "alive n' (\<Union>t\<in>T. objs (subst (oid new) new t))"
proof -
  let ?F = "subst (oid new) new"
  let ?U = "(\<Union>t\<in>T. objs t) \<union> {old} \<union> (objs new - {new})"
  have id: "oid new = oid old" using assms(1) by (simp add: admissible_def)
  have inj: "inj_on oid S" "\<forall>y\<in>S. oid y < n" "old \<in> S" using assms(2-4) by (auto simp: alive_def)
  have fixed: "?F y = y" if "y \<in> objs new - {new}" for y
    using admissible_inner [OF assms(1) inj(3,1) assms(4) inj(2)] that
    by (intro subst_same) (auto simp: id)
  have oid: "oid (?F y) = oid y" if "y \<in> ?U" for y
    using that
  proof (elim UnE)
    assume "y \<in> (\<Union>t\<in>T. objs t)"
    then obtain t where "y \<in> objs t" by blast
    then show ?thesis by (rule oid_subst) (rule refl)
  qed (use fixed subst_hit [OF assms(2)] id in auto)
  have "alive n' ?U" using sub inj(3) by (intro alive_mono [OF new]) auto
  then have "alive n' (?F ` ?U)" by (rule alive_image) (rule oid)
  then show ?thesis
  proof (rule alive_mono [OF _ order_refl], intro UN_least)
    fix t assume t: "t \<in> T"
    have "new = ?F old" by (simp add: subst_hit [OF assms(2)] id)
    moreover have "y = ?F y" if "y \<in> objs new - {new}" for y by (simp add: fixed [OF that])
    ultimately have "objs new \<subseteq> ?F ` ?U" by blast
    moreover have "?F ` objs t \<subseteq> ?F ` ?U" using t by (intro image_mono) blast
    ultimately show "objs (?F t) \<subseteq> ?F ` ?U"
      using objs_subst [of "oid new" new t] by (meson le_sup_iff order_trans)
  qed
qed

lemma write_vext:
  assumes "admissible n old new" "old \<in> S" "alive n S" "objs t \<subseteq> S"
  shows "vext (erase t) (erase (subst (oid new) new t))"
proof (rule vext_subst, intro ballI impI)
  fix y assume "y \<in> objs t" "oid y = oid new"
  then have "y = old" using assms by (auto simp: alive_def admissible_def inj_on_def)
  then show "vext (erase y) (erase new)" using assms(1) by (simp add: admissible_def)
qed

subsection \<open>New objects are fresh\<close>

lemma alloc_alive:
  "alloc n v = (x, n') \<Longrightarrow> alive n S \<Longrightarrow> n \<le> n' \<and> (\<forall>y\<in>objs x. n \<le> oid y) \<and> alive n' (S \<union> objs x)"
  "allocs n vs = (xs, n') \<Longrightarrow> alive n S \<Longrightarrow>
     n \<le> n' \<and> (\<forall>y\<in>\<Union>x\<in>set xs. objs x. n \<le> oid y) \<and> alive n' (S \<union> (\<Union>x\<in>set xs. objs x))"
  "allocM n m = (es, n') \<Longrightarrow> alive n S \<Longrightarrow> n \<le> n' \<and> (\<forall>y\<in>objsM es. n \<le> oid y) \<and> alive n' (S \<union> objsM es)"
proof (induction n v and n vs and n m arbitrary: S x n' and S xs n' and S es n' rule: alloc_allocs_allocM.induct)
  case (1 n vs)
  obtain xs n1 where a: "allocs n vs = (xs, n1)" by fastforce
  from "1.IH" [OF a "1.prems"(2)] "1.prems"(1) a show ?case
    by (auto dest: alive_new [of n1 _ "OList n1 xs"])
next
  case (2 n m)
  obtain xs n1 where a: "allocM n m = (xs, n1)" by fastforce
  from "2.IH" [OF a "2.prems"(2)] "2.prems"(1) a show ?case
    by (auto dest: alive_new [of n1 _ "OMap n1 xs"])
next
  case (9 n v vs)
  obtain y n1 where a: "alloc n v = (y, n1)" by fastforce
  obtain ys n2 where b: "allocs n1 vs = (ys, n2)" by fastforce
  note i1 = "9.IH"(1) [OF a "9.prems"(2)]
  note i2 = "9.IH"(2) [OF a [symmetric] refl b conjunct2 [OF conjunct2 [OF i1]]]
  from i1 i2 "9.prems"(1) a b show ?case by (fastforce simp: Un_assoc)
next
  case (11 n k v m)
  obtain y n1 where a: "alloc n v = (y, n1)" by fastforce
  obtain ys n2 where b: "allocM n1 m = (ys, n2)" by fastforce
  note i1 = "11.IH"(1) [OF a "11.prems"(2)]
  note i2 = "11.IH"(2) [OF a [symmetric] refl b conjunct2 [OF conjunct2 [OF i1]]]
  from i1 i2 "11.prems"(1) a b show ?case by (fastforce simp: Un_assoc)
qed auto

lemma erase_alloc:
  "erase (fst (alloc n v)) = v" "map erase (fst (allocs n vs)) = vs" "eraseM (fst (allocM n m)) = m"
  by (induction n v and n vs and n m rule: alloc_allocs_allocM.induct) (auto simp: Let_def split: prod.splits)

lemma eraseM_put: "eraseM (put k x m) = put k (erase x) (eraseM m)"
  by (induction m) auto

declare combine_obj.simps [simp del]

lemma erase_combine:
  "erase (fst (combine_obj n a b)) = combine_val (erase a) (erase b)"
  "eraseM (fst (Combine n m m2)) = CombineVariables (eraseM m) (eraseM m2)"
proof (induction n a b and n m m2 rule: combine_obj_Combine.induct)
  case (1 n a b)
  show ?case
  proof (cases "\<exists>i m1 j m2. a = OMap i m1 \<and> b = OMap j m2")
    case True
    with 1 show ?thesis by (auto simp: combine_obj.simps split: prod.split)
  next
    case False
    then show ?thesis by (cases a; cases b) (simp_all add: combine_obj.simps)
  qed
next
  case (3 n mv k v m2)
  obtain w n1 where w: "combine_obj n (case get mv k of None \<Rightarrow> ONil | Some u \<Rightarrow> u) v = (w, n1)"
    by fastforce
  have "erase w = combine_val (case get (eraseM mv) k of None \<Rightarrow> VNil | Some u \<Rightarrow> u) (erase v)"
    using "3.IH"(1) by (simp add: w split: option.split)
  then show ?case using "3.IH"(2) [OF w [symmetric] refl] by (simp add: w eraseM_put)
qed simp

lemma objsM_put: "objsM (put k x m) \<subseteq> objsM m \<union> objs x"
  by (induction m) auto

lemma objsM_get: "get m k = Some x \<Longrightarrow> objs x \<subseteq> objsM m"
  by (auto dest: map_of_SomeD)

lemma combine_alive:
  "combine_obj n a b = (x, n') \<Longrightarrow> alive n S \<Longrightarrow> objs a \<subseteq> S \<Longrightarrow> objs b \<subseteq> S \<Longrightarrow>
     n \<le> n' \<and> alive n' (S \<union> objs x)"
  "Combine n m m2 = (es, n') \<Longrightarrow> alive n S \<Longrightarrow> objsM m \<subseteq> S \<Longrightarrow> objsM m2 \<subseteq> S \<Longrightarrow>
     n \<le> n' \<and> alive n' (S \<union> objsM es)"
proof (induction n a b and n m m2 arbitrary: S x n' and S es n' rule: combine_obj_Combine.induct)
  case (1 n a b)
  show ?case
  proof (cases "\<exists>i m1 j m2. a = OMap i m1 \<and> b = OMap j m2")
    case True
    then obtain i m1 j m2 where ab: "a = OMap i m1" "b = OMap j m2" by blast
    obtain m n1 where m: "Combine n m1 m2 = (m, n1)" by fastforce
    have "n \<le> n1 \<and> alive n1 (S \<union> objsM m)" using "1.prems" ab by (intro "1.IH" [OF ab m]) auto
    then show ?thesis using "1.prems"(1) m ab
      by (auto simp: combine_obj.simps dest: alive_new [of n1 _ "OMap n1 m"])
  next
    case False
    then have "x = b" "n' = n"
      using "1.prems"(1) by (auto simp: combine_obj.simps split: obj.splits)
    then show ?thesis using "1.prems"(2,4) by (simp add: Un_absorb2)
  qed
next
  case (3 n mv k v m2)
  let ?u = "case get mv k of None \<Rightarrow> ONil | Some u \<Rightarrow> u"
  obtain w n1 where w: "combine_obj n ?u v = (w, n1)" by fastforce
  have "objs ?u \<subseteq> S" using "3.prems"(3) order_trans [OF objsM_get [of mv k]] by (simp split: option.split)
  then have i1: "n \<le> n1" "alive n1 (S \<union> objs w)"
    using "3.IH"(1) [OF w "3.prems"(2)] "3.prems"(4) by auto
  have run: "Combine n1 (put k w mv) m2 = (es, n')" using "3.prems"(1) w by simp
  have sub1: "objsM (put k w mv) \<subseteq> S \<union> objs w"
    by (rule order_trans [OF objsM_put Un_mono [OF "3.prems"(3) order_refl]])
  have sub2: "objsM m2 \<subseteq> S \<union> objs w" using "3.prems"(4) by auto
  have "n1 \<le> n' \<and> alive n' ((S \<union> objs w) \<union> objsM es)"
    by (rule "3.IH"(2) [OF w [symmetric] refl run i1(2) sub1 sub2])
  then show ?case using i1(1) alive_mono [of n' "S \<union> objs w \<union> objsM es" n' "S \<union> objsM es"] by auto
qed (simp add: Un_absorb2)

lemma mutate_simps [simp]:
  "mutate [] x = x"
  "mutate (l @ l') x = mutate l' (mutate l x)"
  "mutate [new] x = subst (oid new) new x"
  by (simp_all add: mutate_def)

end
