(* ===== verification/Template.thy ===== *)
theory Template
  imports Merge
begin

text \<open>
  The template front end (\<^verbatim>\<open>pkg/converter/tmpl/template.go\<close> and the syntax helpers of
  \<^verbatim>\<open>api/project/v1/playbook.go\<close>, \<^verbatim>\<open>conditional.go\<close>). Go's \<^verbatim>\<open>text/template\<close> engine is a parameter
  \<open>engine\<close>: it takes the variables and the source text and gives the text or an error. What
  the program adds is the test whether a string is a template at all, and the conjunction of
  conditions.
\<close>

type_synonym template_engine = "val gomap \<Rightarrow> string \<Rightarrow> string + string"

fun Contains :: "string \<Rightarrow> string \<Rightarrow> bool" where
  "Contains [] p \<longleftrightarrow> p = []"
| "Contains (c # s) p \<longleftrightarrow> take (length p) (c # s) = p \<or> Contains s p"

definition IsTmplSyntax :: "string \<Rightarrow> bool" where
  "IsTmplSyntax s \<longleftrightarrow> Contains s ''{{'' \<and> Contains s ''}}''"

definition ParseTmplSyntax :: "string \<Rightarrow> string" where
  "ParseTmplSyntax s = ''{{'' @ s @ ''}}''"

definition is_space :: "char \<Rightarrow> bool" where
  "is_space c \<longleftrightarrow> (of_char c :: nat) \<in> {9, 10, 11, 12, 13, 32}"

definition TrimSpace :: "string \<Rightarrow> string" where
  "TrimSpace s = rev (dropWhile is_space (rev (dropWhile is_space s)))"

definition TrimTmplSyntax :: "string \<Rightarrow> string" where
  "TrimTmplSyntax s =
     TrimSpace (let t = TrimPrefix s ''{{'' in if HasSuffix t ''}}'' then take (length t - 2) t else t)"

text \<open>\<^verbatim>\<open>When.UnmarshalYAML\<close>: a condition is one string or a list of strings; bare conditions
  become templates.\<close>

datatype when_node = WScalar string | WSequence "string list" | WOther

definition WhenUnmarshal :: "when_node \<Rightarrow> string list option" where
  "WhenUnmarshal node =
     (let wrap = (\<lambda>v. if IsTmplSyntax v then v else ParseTmplSyntax v)
      in case node of
           WScalar v \<Rightarrow> Some [wrap v]
         | WSequence vs \<Rightarrow> Some (map wrap vs)
         | WOther \<Rightarrow> None)"

definition ParseFunc :: "template_engine \<Rightarrow> val gomap \<Rightarrow> string \<Rightarrow> string + string" where
  "ParseFunc engine ctx input = (if \<not> IsTmplSyntax input then Inr input else engine ctx input)"

definition lower :: "char \<Rightarrow> char" where
  "lower c = (if 65 \<le> (of_char c :: nat) \<and> (of_char c :: nat) \<le> 90
              then char_of ((of_char c :: nat) + 32) else c)"

definition EqualFold :: "string \<Rightarrow> string \<Rightarrow> bool" where
  "EqualFold a b \<longleftrightarrow> map lower a = map lower b"

fun ParseBool :: "template_engine \<Rightarrow> val gomap \<Rightarrow> string list \<Rightarrow> string + bool" where
  "ParseBool engine ctx [] = Inr True"
| "ParseBool engine ctx (input # inputs) =
     (case ParseFunc engine ctx input of
        Inl e \<Rightarrow> Inl e
      | Inr out \<Rightarrow> (if EqualFold out ''true'' then ParseBool engine ctx inputs else Inr False))"

subsection \<open>Conditions\<close>

definition holds :: "template_engine \<Rightarrow> val gomap \<Rightarrow> string \<Rightarrow> bool" where
  "holds engine ctx c \<longleftrightarrow> (\<exists>out. ParseFunc engine ctx c = Inr out \<and> EqualFold out ''true'')"

lemma ParseBool_true: "ParseBool engine ctx cs = Inr True \<longleftrightarrow> list_all (holds engine ctx) cs"
  by (induction cs) (auto simp: holds_def split: sum.splits)

lemma ParseBool_prefix:
  "list_all (holds engine ctx) cs \<Longrightarrow> ParseBool engine ctx (cs @ ds) = ParseBool engine ctx ds"
  by (induction cs) (auto simp: holds_def)

lemma ParseBool_append:
  "ParseBool engine ctx (cs @ ds) =
     (case ParseBool engine ctx cs of Inr True \<Rightarrow> ParseBool engine ctx ds | r \<Rightarrow> r)"
  by (induction cs) (auto split: sum.splits)

lemma Contains_append: "Contains s p \<Longrightarrow> Contains (u @ s) p"
proof (induction u)
  case (Cons c u)
  then show ?case by simp
qed simp

lemma Contains_prefix: "Contains (p @ s) p"
proof (cases "p @ s")
  case (Cons a list)
  have "take (length p) (p @ s) = p" by simp
  then show ?thesis unfolding Cons by simp
qed simp

lemma Contains_infix: "Contains (u @ p @ s) p"
  by (rule Contains_append [OF Contains_prefix])

lemma ParseTmplSyntax_is_tmpl: "IsTmplSyntax (ParseTmplSyntax s)"
  unfolding IsTmplSyntax_def ParseTmplSyntax_def
  using Contains_prefix [of "''{{''" "s @ ''}}''"] Contains_infix [of "''{{'' @ s" "''}}''" "[]"]
  by simp

lemma WhenUnmarshal_tmpl: "WhenUnmarshal node = Some cs \<Longrightarrow> list_all IsTmplSyntax cs"
  by (cases node) (auto simp: WhenUnmarshal_def list_all_iff ParseTmplSyntax_is_tmpl)

text \<open>
  Conditions are a short-circuit conjunction. Whatever list of conditions a task
  carries, \<^verbatim>\<open>ParseBool\<close> stops at the first condition that is not true: it fails if and only
  if some condition cannot be evaluated and all before it are true, it answers true if and
  only if every condition holds, and conditions behind a false one are never evaluated.
\<close>

theorem ParseBool_spec:
  "(ParseBool engine ctx cs = Inr True \<longleftrightarrow> list_all (holds engine ctx) cs) \<and>
   (ParseBool engine ctx cs = Inr False \<longleftrightarrow>
      (\<exists>pre c post out. cs = pre @ c # post \<and> list_all (holds engine ctx) pre \<and>
         ParseFunc engine ctx c = Inr out \<and> \<not> EqualFold out ''true'')) \<and>
   (\<forall>e. ParseBool engine ctx cs = Inl e \<longleftrightarrow>
      (\<exists>pre c post. cs = pre @ c # post \<and> list_all (holds engine ctx) pre \<and>
         ParseFunc engine ctx c = Inl e))"
proof (intro conjI allI)
  have stop: "\<exists>pre c post. cs = pre @ c # post \<and> list_all (holds engine ctx) pre \<and>
      (ParseFunc engine ctx c = Inl e \<and> r = Inl e \<or>
       (\<exists>out. ParseFunc engine ctx c = Inr out \<and> \<not> EqualFold out ''true'' \<and> r = Inr False))"
    if "ParseBool engine ctx cs = r" "r = Inl e \<or> r = Inr False" for r e
    using that
  proof (induction cs)
    case (Cons c cs)
    show ?case
    proof (cases "holds engine ctx c")
      case True
      then have "ParseBool engine ctx cs = r"
        using Cons.prems(1) ParseBool_prefix [of engine ctx "[c]" cs] by simp
      then obtain pre d post where "cs = pre @ d # post" "list_all (holds engine ctx) pre"
          "ParseFunc engine ctx d = Inl e \<and> r = Inl e \<or>
           (\<exists>out. ParseFunc engine ctx d = Inr out \<and> \<not> EqualFold out ''true'' \<and> r = Inr False)"
        using Cons.IH Cons.prems(2) by blast
      then show ?thesis using True by (intro exI [of _ "c # pre"]) auto
    next
      case False
      then show ?thesis
        using Cons.prems
        by (intro exI [of _ "[]"] exI [of _ c] exI [of _ cs]) (auto simp: holds_def split: sum.splits if_splits)
    qed
  qed auto
  show "ParseBool engine ctx cs = Inr True \<longleftrightarrow> list_all (holds engine ctx) cs"
    by (rule ParseBool_true)
  show "ParseBool engine ctx cs = Inr False \<longleftrightarrow>
      (\<exists>pre c post out. cs = pre @ c # post \<and> list_all (holds engine ctx) pre \<and>
         ParseFunc engine ctx c = Inr out \<and> \<not> EqualFold out ''true'')"
    using stop [of "Inr False"] by (fastforce simp: ParseBool_prefix)
  show "ParseBool engine ctx cs = Inl e \<longleftrightarrow>
      (\<exists>pre c post. cs = pre @ c # post \<and> list_all (holds engine ctx) pre \<and>
         ParseFunc engine ctx c = Inl e)" for e
    using stop [of "Inl e" e] by (fastforce simp: ParseBool_prefix)
qed

end
