(* ===== verification/Yaml.thy ===== *)
theory Yaml
  imports Objects Template
begin

text \<open>
  Variables written in YAML (\<^verbatim>\<open>pkg/variable/yaml.go\<close>). A node of variables is walked twice: the
  scalars are evaluated, templates with the variables seen so far, and each value is entered into
  these variables where nothing is there yet; then the node, its templates replaced by the nodes
  of their values, is decoded. Entering a value changes maps and slices in place, so the result of
  a walk is the new variables together with the log of its writes. The YAML and JSON libraries, the template engine and the reader of floating point
  numbers are parameters. The maps of the model have values of any type.
\<close>

datatype node_kind = DocumentNode | SequenceNode | MappingNode | ScalarNode | AliasNode | ZeroKind

datatype ynode = YNode (NKind: node_kind) (NTag: string) (NValue: string) (NContent: "ynode list")

definition zeroNode :: ynode where
  "zeroNode = YNode ZeroKind [] [] []"

definition IsZero :: "ynode \<Rightarrow> bool" where
  "IsZero n \<longleftrightarrow> n = zeroNode"

record yenv =
  unmarshal :: "string \<Rightarrow> val option"
  engine :: template_engine
  parseFloat :: "string \<Rightarrow> string option"
  decodeMap :: "ynode \<Rightarrow> string + val gomap"
  marshalNode :: "ynode \<Rightarrow> string"
  unmarshalNode :: "string \<Rightarrow> string + ynode"
  order :: range_oracle

datatype yaml_error =
    OddMapping | KeyNotScalar | UnsupportedKind node_kind | BadBool string | BadInt string
  | BadFloat string | TemplateError string | ExpectedMap "string list" | ExpectedSlice
  | DecodeError string

definition nullTag :: string where "nullTag = ''!!null''"
definition boolTag :: string where "boolTag = ''!!bool''"
definition strTag :: string where "strTag = ''!!str''"
definition intTag :: string where "intTag = ''!!int''"
definition floatTag :: string where "floatTag = ''!!float''"
definition seqTag :: string where "seqTag = ''!!seq''"
definition mapTag :: string where "mapTag = ''!!map''"

text \<open>A copy by way of text; an error leaves the zero node.\<close>

definition copyNode :: "'x yenv_scheme \<Rightarrow> ynode \<Rightarrow> ynode" where
  "copyNode E n = (case unmarshalNode E (marshalNode E n) of Inl e \<Rightarrow> zeroNode | Inr out \<Rightarrow> out)"

subsection \<open>Nodes of values\<close>

fun CreateValueNode :: "range_oracle \<Rightarrow> val \<Rightarrow> ynode" where
  "CreateValueNode ord (VStr s) = YNode ScalarNode strTag s []"
| "CreateValueNode ord (VNum i) = YNode ScalarNode intTag (Itoa i) []"
| "CreateValueNode ord (VFloat s) = YNode ScalarNode floatTag s []"
| "CreateValueNode ord (VBool b) = YNode ScalarNode boolTag (if b then ''true'' else ''false'') []"
| "CreateValueNode ord VNil = YNode ScalarNode nullTag ''null'' []"
| "CreateValueNode ord (VList xs) = YNode SequenceNode seqTag [] (map (CreateValueNode ord) xs)"
| "CreateValueNode ord (VMap m) =
     YNode MappingNode mapTag []
       (let es = map (\<lambda>p. (fst p, CreateValueNode ord (snd p))) m
        in concat (map (\<lambda>k. case get es k of None \<Rightarrow> [] | Some n \<Rightarrow> [YNode ScalarNode strTag k [], n])
             (range_keys ord es)))"

subsection \<open>Scalars\<close>

text \<open>\<^verbatim>\<open>strconv.ParseBool\<close>\<close>

definition strconvBool :: "string \<Rightarrow> bool option" where
  "strconvBool s =
     (if s \<in> {''1'', ''t'', ''T'', ''TRUE'', ''true'', ''True''} then Some True
      else if s \<in> {''0'', ''f'', ''F'', ''FALSE'', ''false'', ''False''} then Some False
      else None)"

text \<open>The value of a scalar, the node after evaluation and the next free identity.\<close>

definition parseScalarValue ::
  "'x yenv_scheme \<Rightarrow> val gomap \<Rightarrow> nat \<Rightarrow> ynode \<Rightarrow> yaml_error + obj \<times> ynode \<times> nat" where
  "parseScalarValue E ctx n node =
     (if NTag node = nullTag then Inr (ONil, node, n)
      else if NTag node = boolTag then
        (case strconvBool (NValue node) of
           None \<Rightarrow> Inl (BadBool (NValue node))
         | Some v \<Rightarrow> Inr (OBool v, node, n))
      else if NTag node = strTag \<or> NTag node = [] then
        (if IsTmplSyntax (NValue node) then
           (case ParseFunc (engine E) ctx (NValue node) of
              Inl e \<Rightarrow> Inl (TemplateError e)
            | Inr b \<Rightarrow>
                (let pv = (case unmarshal E b of None \<Rightarrow> VStr b | Some a \<Rightarrow> a);
                     newNode = CreateValueNode (order E) pv;
                     node1 = (if NTag node \<noteq> NTag newNode
                              then YNode (NKind newNode) (NTag newNode) (NValue newNode) (NContent newNode)
                              else YNode (NKind node) (NTag node) (NValue newNode) (NContent node));
                     (x, n1) = alloc n pv
                 in Inr (x, node1, n1)))
         else Inr (OStr (NValue node), node, n))
      else if NTag node = intTag then
        (case Atoi (NValue node) of
           None \<Rightarrow> Inl (BadInt (NValue node))
         | Some v \<Rightarrow> Inr (OInt64 v, node, n))
      else if NTag node = floatTag then
        (case parseFloat E (NValue node) of
           None \<Rightarrow> Inl (BadFloat (NValue node))
         | Some v \<Rightarrow> Inr (OFloat v, node, n))
      else Inr (OStr (NValue node), node, n))"

subsection \<open>Entering a value\<close>

text \<open>
  One element of a path: a key of a map or an index of a slice. \<open>newContainer\<close> is what the rest
  of a path creates below an entry that is missing or nil: \<^verbatim>\<open>handleMap\<close> makes an empty map or
  slice, a slice grows to the index, and so on down to the value.
\<close>

datatype seg = MapSeg string | SeqSeg nat

fun newContainer :: "nat \<Rightarrow> obj \<Rightarrow> seg list \<Rightarrow> obj \<times> nat" where
  "newContainer n pv [] = (pv, n)"
| "newContainer n pv (MapSeg k # path) =
     (let (x, n1) = newContainer n pv path in (OMap n1 [(k, x)], Suc n1))"
| "newContainer n pv (SeqSeg i # path) =
     (let (x, n1) = newContainer n pv path in (OList n1 (replicate i ONil @ [x]), Suc n1))"

text \<open>
  What one step along the path asks for: nothing (the entry is there), to go on below an entry,
  to write to the container (\<open>Write\<close>: its new content, same object), or to put a longer slice in
  its place (\<open>Grown\<close>: a new object that \<^verbatim>\<open>updateParents\<close> enters into the parent).
\<close>

datatype action = Skip | Below obj | Write obj | Grown obj

definition handleMap :: "nat \<Rightarrow> obj \<Rightarrow> obj \<Rightarrow> string \<Rightarrow> seg list \<Rightarrow> yaml_error + action \<times> nat" where
  "handleMap n pv current key path =
     (case current of
        OMap i m \<Rightarrow>
          (case get m key of
             Some existing \<Rightarrow>
               (if existing \<noteq> ONil then Inr (if path = [] then Skip else Below existing, n)
                else (let (x, n1) = newContainer n pv path in Inr (Write (OMap i (put key x m)), n1)))
           | None \<Rightarrow> (let (x, n1) = newContainer n pv path in Inr (Write (OMap i (put key x m)), n1)))
      | _ \<Rightarrow> Inl (ExpectedMap [key]))"

definition handleSlice :: "nat \<Rightarrow> obj \<Rightarrow> obj \<Rightarrow> nat \<Rightarrow> seg list \<Rightarrow> yaml_error + action \<times> nat" where
  "handleSlice n pv current index path =
     (case current of
        OList i xs \<Rightarrow>
          (if index < length xs then
             (if xs ! index \<noteq> ONil then Inr (if path = [] then Skip else Below (xs ! index), n)
              else (let (x, n1) = newContainer n pv path in Inr (Write (OList i (xs[index := x])), n1)))
           else (let (x, n1) = newContainer n pv path;
                     ys = (xs @ replicate (index + 1 - length xs) ONil)[index := x]
                 in Inr (Grown (OList n1 ys), Suc n1)))
      | _ \<Rightarrow> Inl ExpectedSlice)"

text \<open>A grown slice takes its place in the container above, which is written in place.\<close>

definition updateParents :: "obj \<Rightarrow> seg \<Rightarrow> action \<Rightarrow> action" where
  "updateParents parent key a =
     (case a of
        Grown x \<Rightarrow>
          (case (parent, key) of
             (OMap i m, MapSeg k) \<Rightarrow> Write (OMap i (put k x m))
           | (OList i xs, SeqSeg j) \<Rightarrow> Write (OList i (xs[j := x]))
           | _ \<Rightarrow> a)
      | _ \<Rightarrow> a)"

fun setContextValue :: "nat \<Rightarrow> obj \<Rightarrow> obj \<Rightarrow> seg list \<Rightarrow> yaml_error + action \<times> nat" where
  "setContextValue n pv current [] = Inr (Skip, n)"
| "setContextValue n pv current (s # path) =
     bind_res (case s of MapSeg key \<Rightarrow> handleMap n pv current key path
                       | SeqSeg index \<Rightarrow> handleSlice n pv current index path)
       (\<lambda>(a, n1).
          case a of
            Below x \<Rightarrow> bind_res (setContextValue n1 pv x path)
                         (\<lambda>(b, n2). Inr (updateParents current s b, n2))
          | _ \<Rightarrow> Inr (a, n1))"

subsection \<open>Walking a node\<close>

text \<open>The state of a walk: the variables, the log of writes and the next free identity.\<close>

record walk =
  yctx :: obj
  ylog :: "obj list"
  ynext :: nat

definition ctxVars :: "obj \<Rightarrow> val gomap" where
  "ctxVars x = (case x of OMap i m \<Rightarrow> eraseM m | _ \<Rightarrow> [])"

definition apply_action :: "action \<Rightarrow> nat \<Rightarrow> walk \<Rightarrow> walk" where
  "apply_action a n w =
     (case a of
        Write x \<Rightarrow> w\<lparr>yctx := subst (oid x) x (yctx w), ylog := ylog w @ [x], ynext := n\<rparr>
      | _ \<Rightarrow> w\<lparr>ynext := n\<rparr>)"

definition processScalar ::
  "'x yenv_scheme \<Rightarrow> seg list \<Rightarrow> ynode \<Rightarrow> walk \<Rightarrow> yaml_error option \<times> ynode \<times> walk" where
  "processScalar E path node w =
     (case parseScalarValue E (ctxVars (yctx w)) (ynext w) node of
        Inl e \<Rightarrow> (Some e, node, w)
      | Inr (pv, node1, n1) \<Rightarrow>
          (case setContextValue n1 pv (yctx w) path of
             Inl e \<Rightarrow> (Some e, node1, w)
           | Inr (a, n2) \<Rightarrow> (None, node1, apply_action a n2 w)))"

fun processNode ::
  "'x yenv_scheme \<Rightarrow> seg list \<Rightarrow> ynode \<Rightarrow> walk \<Rightarrow> yaml_error option \<times> ynode \<times> walk"
and processPairs ::
  "'x yenv_scheme \<Rightarrow> seg list \<Rightarrow> ynode list \<Rightarrow> walk \<Rightarrow> yaml_error option \<times> ynode list \<times> walk"
and processItems ::
  "'x yenv_scheme \<Rightarrow> seg list \<Rightarrow> nat \<Rightarrow> ynode list \<Rightarrow> walk \<Rightarrow> yaml_error option \<times> ynode list \<times> walk"
where
  "processNode E path (YNode kind tag v content) w =
     (case kind of
        MappingNode \<Rightarrow>
          (if length content mod 2 \<noteq> 0 then (Some OddMapping, YNode kind tag v content, w)
           else (let (e, content1, w1) = processPairs E path content w
                 in (e, YNode kind tag v content1, w1)))
      | SequenceNode \<Rightarrow>
          (let (e, content1, w1) = processItems E path 0 content w in (e, YNode kind tag v content1, w1))
      | ScalarNode \<Rightarrow> processScalar E path (YNode kind tag v content) w
      | _ \<Rightarrow> (Some (UnsupportedKind kind), YNode kind tag v content, w))"
| "processPairs E path (keyNode # valueNode # rest) w =
     (if NKind keyNode \<noteq> ScalarNode then (Some KeyNotScalar, keyNode # valueNode # rest, w)
      else case processNode E (path @ [MapSeg (NValue keyNode)]) valueNode w of
             (Some e, valueNode1, w1) \<Rightarrow> (Some e, keyNode # valueNode1 # rest, w1)
           | (None, valueNode1, w1) \<Rightarrow>
               (let (e, rest1, w2) = processPairs E path rest w1
                in (e, keyNode # valueNode1 # rest1, w2)))"
| "processPairs E path content w = (None, content, w)"
| "processItems E path i [] w = (None, [], w)"
| "processItems E path i (item # items) w =
     (case processNode E (path @ [SeqSeg i]) item w of
        (Some e, item1, w1) \<Rightarrow> (Some e, item1 # items, w1)
      | (None, item1, w1) \<Rightarrow>
          (let (e, items1, w2) = processItems E path (Suc i) items w1 in (e, item1 # items1, w2)))"

fun processDocuments ::
  "'x yenv_scheme \<Rightarrow> ynode list \<Rightarrow> walk \<Rightarrow> yaml_error option \<times> ynode list \<times> walk" where
  "processDocuments E [] w = (None, [], w)"
| "processDocuments E (dn # dns) w =
     (case processNode E [] dn w of
        (Some e, dn1, w1) \<Rightarrow> (Some e, dn1 # dns, w1)
      | (None, dn1, w1) \<Rightarrow> (let (e, dns1, w2) = processDocuments E dns w1 in (e, dn1 # dns1, w2)))"

text \<open>The decoded node, or an error, with the state the walk has left.\<close>

definition parseYamlNode :: "'x yenv_scheme \<Rightarrow> ynode \<Rightarrow> walk \<Rightarrow> (yaml_error + val gomap) \<times> walk" where
  "parseYamlNode E node w =
     (let (err, node1, w1) =
        (if NKind node = DocumentNode then
           (let (e, content, w1) = processDocuments E (NContent node) w
            in (e, YNode (NKind node) (NTag node) (NValue node) content, w1))
         else processNode E [] node w)
      in case err of
           Some e \<Rightarrow> (Inl e, w1)
         | None \<Rightarrow>
             (case decodeMap E node1 of
                Inl e \<Rightarrow> (Inl (DecodeError e), w1)
              | Inr result \<Rightarrow> (Inr result, w1)))"

subsection \<open>A write adds\<close>

lemma newContainer_alive:
  assumes "newContainer n pv path = (x, n')" "alive n (S \<union> objs pv)"
    and "\<forall>y\<in>objs pv. n0 \<le> oid y" "n0 \<le> n"
  shows "n \<le> n' \<and> alive n' (S \<union> objs x) \<and> (\<forall>y\<in>objs x. n0 \<le> oid y)"
  using assms
proof (induction n pv path arbitrary: x n' rule: newContainer.induct)
  case (2 n pv k path)
  obtain y n1 where y: "newContainer n pv path = (y, n1)" by fastforce
  from "2.IH" [OF y "2.prems"(2-4)] "2.prems"(1,4) y show ?case
    by (auto dest: alive_new [of n1 _ "OMap n1 [(k, y)]"])
next
  case (3 n pv i path)
  obtain y n1 where y: "newContainer n pv path = (y, n1)" by fastforce
  from "3.IH" [OF y "3.prems"(2-4)] "3.prems"(1,4) y show ?case
    by (auto dest: alive_new [of n1 _ "OList n1 (replicate i ONil @ [y])"])
qed auto

text \<open>What an action is good for: \<open>S\<close> are the objects of the store, \<open>n0\<close> was free before.\<close>

fun good :: "nat \<Rightarrow> nat \<Rightarrow> obj set \<Rightarrow> obj \<Rightarrow> action \<Rightarrow> bool" where
  "good n0 n S cur Skip \<longleftrightarrow> True"
| "good n0 n S cur (Write new) \<longleftrightarrow>
     (\<exists>old\<in>objs cur. admissible n0 old new \<and> alive n (S \<union> (objs new - {new})))"
| "good n0 n S cur (Grown new) \<longleftrightarrow>
     vext (erase cur) (erase new) \<and> (\<forall>y\<in>objs new. y \<in> objs cur - {cur} \<or> n0 \<le> oid y) \<and>
     alive n (S \<union> objs new)"
| "good n0 n S cur (Below x) \<longleftrightarrow> False"

lemma objs_children:
  "objs (OMap i m) - {OMap i m} = objsM m"
  "objs (OList i xs) - {OList i xs} = (\<Union>x\<in>set xs. objs x)"
  using objs_entry objs_elem by auto

lemma objs_own: "OMap i m \<in> objs (OMap i m)" "OList i xs \<in> objs (OList i xs)"
  by simp_all

text \<open>An entry that is nil or missing, or replaced by more than it was, is an admissible write.\<close>

lemma good_write:
  assumes "oid new = oid old" "vext (erase old) (erase new)" "old \<in> objs old"
    and sub: "objs new - {new} \<subseteq> (objs old - {old}) \<union> objs x"
    and x: "\<forall>y\<in>objs x. y \<in> objs old - {old} \<or> n0 \<le> oid y"
    and al: "alive n (S \<union> objs x)" "objs old \<subseteq> S"
  shows "good n0 n S old (Write new)"
proof -
  have "\<forall>y\<in>objs new. y = new \<or> y \<in> objs old - {old} \<or> n0 \<le> oid y" using sub x by blast
  then have "admissible n0 old new" using assms(1,2) by (simp add: admissible_def)
  moreover have "alive n (S \<union> (objs new - {new}))"
    using sub al(2) by (intro alive_mono [OF al(1) order_refl]) blast
  ultimately show ?thesis using assms(3) by auto
qed

lemma good_put:
  assumes "case get m k of None \<Rightarrow> True | Some u \<Rightarrow> vext (erase u) (erase x)"
    and "\<forall>y\<in>objs x. y \<in> objsM m \<or> n0 \<le> oid y" "alive n (S \<union> objs x)" "objs (OMap i m) \<subseteq> S"
  shows "good n0 n S (OMap i m) (Write (OMap i (put k x m)))"
  using objsM_put [of k x m] assms(2-4) vext_put [OF assms(1)]
  by (intro good_write [where x = x]) (simp_all only: objs_children objs_own oid.simps)

lemma good_update:
  assumes "j < length xs" "vext (erase (xs ! j)) (erase x)"
    and "\<forall>y\<in>objs x. y \<in> (\<Union>x\<in>set xs. objs x) \<or> n0 \<le> oid y" "alive n (S \<union> objs x)"
    and "objs (OList i xs) \<subseteq> S"
  shows "good n0 n S (OList i xs) (Write (OList i (xs[j := x])))"
proof -
  have "(\<Union>x\<in>set (xs[j := x]). objs x) \<subseteq> (\<Union>x\<in>set xs. objs x) \<union> objs x"
    using set_update_subset_insert [of xs j x] by blast
  then show ?thesis using assms(3-5) vext_update [OF assms(1,2)]
    by (intro good_write [where x = x]) (simp_all only: objs_children objs_own oid.simps)
qed

text \<open>The step along the path.\<close>

definition slot :: "obj \<Rightarrow> seg \<Rightarrow> obj option" where
  "slot cur s =
     (case (cur, s) of
        (OMap i m, MapSeg k) \<Rightarrow> get m k
      | (OList i xs, SeqSeg j) \<Rightarrow> (if j < length xs then Some (xs ! j) else None)
      | _ \<Rightarrow> None)"

definition handle :: "nat \<Rightarrow> obj \<Rightarrow> obj \<Rightarrow> seg \<Rightarrow> seg list \<Rightarrow> yaml_error + action \<times> nat" where
  "handle n pv current s path =
     (case s of MapSeg key \<Rightarrow> handleMap n pv current key path
              | SeqSeg index \<Rightarrow> handleSlice n pv current index path)"

lemma slot_objs:
  assumes "slot cur s = Some x"
  shows "objs x \<subseteq> objs cur - {cur}"
proof (cases cur)
  case (OMap i m)
  then show ?thesis
    using assms objsM_get unfolding OMap objs_children by (auto simp: slot_def split: seg.splits)
next
  case (OList i xs)
  then obtain j where "j < length xs" "x = xs ! j"
    using assms by (auto simp: slot_def split: seg.splits if_splits)
  then show ?thesis unfolding OList objs_children using nth_mem by blast
qed (use assms in \<open>auto simp: slot_def\<close>)

lemma handle_good:
  assumes "handle n pv cur s path = Inr (a, n')" "alive n (S \<union> objs pv)" "objs cur \<subseteq> S"
    and "\<forall>y\<in>objs pv. n0 \<le> oid y" "n0 \<le> n"
  shows "n \<le> n' \<and> alive n' S \<and>
    ((\<exists>x. a = Below x \<and> slot cur s = Some x \<and> n' = n) \<or> good n0 n' S cur a)"
proof -
  obtain x n1 where x: "newContainer n pv path = (x, n1)" by fastforce
  note nc = newContainer_alive [OF x assms(2,4,5)]
  then have al: "alive n S" "alive n1 S"
    by (auto intro: alive_mono [OF assms(2)] alive_mono [of n1 "S \<union> objs x"])
  show ?thesis
  proof (cases s)
    case (MapSeg key)
    then obtain i m where cur: "cur = OMap i m"
      using assms(1) by (auto simp: handle_def handleMap_def split: obj.splits)
    show ?thesis
    proof (cases "case get m key of None \<Rightarrow> True | Some u \<Rightarrow> u = ONil")
      case True
      then have a: "a = Write (OMap i (put key x m))" "n' = n1"
        using assms(1) MapSeg x by (auto simp: handle_def handleMap_def cur split: option.splits if_splits)
      have "good n0 n1 S cur a" unfolding a(1) cur
        using True nc assms(3) by (intro good_put) (auto simp: cur split: option.splits)
      then show ?thesis using nc al a(2) by simp
    next
      case False
      then show ?thesis using assms(1) MapSeg al x
        by (auto simp: handle_def handleMap_def cur slot_def split: option.splits if_splits)
    qed
  next
    case (SeqSeg j)
    then obtain i xs where cur: "cur = OList i xs"
      using assms(1) by (auto simp: handle_def handleSlice_def split: obj.splits)
    show ?thesis
    proof (cases "j < length xs")
      case True
      show ?thesis
      proof (cases "xs ! j = ONil")
        case nil: True
        then have a: "a = Write (OList i (xs[j := x]))" "n' = n1"
          using assms(1) SeqSeg x True by (auto simp: handle_def handleSlice_def cur)
        have "good n0 n1 S cur a" unfolding a(1) cur
          using True nil nc assms(3) by (intro good_update) (auto simp: cur)
        then show ?thesis using nc al a(2) by simp
      next
        case False
        then show ?thesis using assms(1) SeqSeg al x True
          by (auto simp: handle_def handleSlice_def cur slot_def split: if_splits)
      qed
    next
      case False
      define ys where "ys = (xs @ replicate (j + 1 - length xs) ONil)[j := x]"
      have a: "a = Grown (OList n1 ys)" "n' = Suc n1"
        using assms(1) SeqSeg x False by (auto simp: handle_def handleSlice_def cur ys_def)
      have ys: "ys = xs @ replicate (j - length xs) ONil @ [x]"
        using False by (simp add: ys_def list_update_append replicate_append_same [symmetric] Suc_diff_le)
      have al2: "alive (Suc n1) (insert (OList n1 ys) (S \<union> objs x))"
        using nc by (intro alive_new) simp_all
      have sub: "objs (OList n1 ys) \<subseteq> insert (OList n1 ys) ((objs cur - {cur}) \<union> objs x)"
        unfolding cur objs_children by (auto simp: ys)
      have "good n0 n' S cur a"
      proof -
        have "vext (erase cur) (erase (OList n1 ys))" unfolding cur ys by (rule vext_grow)
        moreover have "\<forall>y\<in>objs (OList n1 ys). y \<in> objs cur - {cur} \<or> n0 \<le> oid y"
          using sub nc assms(5) by fastforce
        moreover have "alive n' (S \<union> objs (OList n1 ys))"
          unfolding a(2) using sub assms(3) by (intro alive_mono [OF al2]) auto
        ultimately show ?thesis by (simp add: a(1))
      qed
      then show ?thesis using nc al(2) a(2) alive_mono [OF al2, of "Suc n1" S] by auto
    qed
  qed
qed

lemma setContextValue_Cons:
  "setContextValue n pv cur (s # path) =
     bind_res (handle n pv cur s path)
       (\<lambda>(a, n1). case a of
            Below x \<Rightarrow> bind_res (setContextValue n1 pv x path)
                         (\<lambda>(b, n2). Inr (updateParents cur s b, n2))
          | _ \<Rightarrow> Inr (a, n1))"
  by (simp add: handle_def split: seg.split)

lemma newContainer_mono: "n \<le> snd (newContainer n pv path)"
proof (induction path)
  case (Cons s path)
  then show ?case by (cases s) (auto split: prod.split)
qed simp

lemma handle_mono: "handle n pv cur s path = Inr (a, n') \<Longrightarrow> n \<le> n'"
  using newContainer_mono [of n pv path]
  by (auto simp: handle_def handleMap_def handleSlice_def Let_def
      split: seg.splits obj.splits option.splits if_splits prod.splits)

lemma setContextValue_mono: "setContextValue n pv cur path = Inr (a, n') \<Longrightarrow> n \<le> n'"
proof (induction path arbitrary: n cur a n')
  case (Cons s path)
  obtain b n1 where h: "handle n pv cur s path = Inr (b, n1)"
    using Cons.prems unfolding setContextValue_Cons by (auto simp: bind_res_Inr_conv)
  with handle_mono [OF h] Cons show ?case
    unfolding setContextValue_Cons by (fastforce simp: bind_res_Inr_conv split: action.splits)
qed simp

lemma good_parent:
  assumes "slot cur s = Some x" "good n0 n S x b" "objs cur \<subseteq> S"
  shows "good n0 n S cur (updateParents cur s b)"
proof (cases b)
  case (Write new)
  then show ?thesis using assms(2) slot_objs [OF assms(1)] by (auto simp: updateParents_def)
next
  case (Grown new)
  note g = assms(2) [unfolded Grown good.simps]
  have in_cur: "\<forall>y\<in>objs new. y \<in> objs cur - {cur} \<or> n0 \<le> oid y"
    using g slot_objs [OF assms(1)] by blast
  show ?thesis
  proof (cases cur)
    case (OMap i m)
    then obtain k where s: "s = MapSeg k" "get m k = Some x"
      using assms(1) by (auto simp: slot_def split: seg.splits)
    then show ?thesis
      using g in_cur assms(3) by (simp add: updateParents_def Grown OMap del: good.simps) 
         (intro good_put, auto simp: objs_children)
  next
    case (OList i xs)
    then obtain j where s: "s = SeqSeg j" "j < length xs" "x = xs ! j"
      using assms(1) by (auto simp: slot_def split: seg.splits if_splits)
    then show ?thesis
      using g in_cur assms(3) by (simp add: updateParents_def Grown OList del: good.simps)
         (intro good_update, auto simp: objs_children)
  qed (use assms(1) in \<open>auto simp: slot_def\<close>)
qed (use assms(2) in \<open>auto simp: updateParents_def\<close>)

lemma setContextValue_good:
  assumes "setContextValue n pv cur path = Inr (a, n')" "alive n (S \<union> objs pv)" "objs cur \<subseteq> S"
    and "\<forall>y\<in>objs pv. n0 \<le> oid y" "n0 \<le> n"
  shows "n \<le> n' \<and> alive n' S \<and> good n0 n' S cur a"
  using assms
proof (induction path arbitrary: n cur a n')
  case Nil
  then show ?case using alive_mono [OF Nil.prems(2), of n S] by auto
next
  case (Cons s path)
  obtain b n1 where h: "handle n pv cur s path = Inr (b, n1)"
    using Cons.prems(1) unfolding setContextValue_Cons by (auto simp: bind_res_Inr_conv)
  note hg = handle_good [OF h Cons.prems(2-5)]
  show ?case
  proof (cases "\<exists>x. b = Below x")
    case True
    then obtain x where x: "b = Below x" "slot cur s = Some x" "n1 = n" using hg by auto
    then obtain c where c: "setContextValue n pv x path = Inr (c, n')" "a = updateParents cur s c"
      using Cons.prems(1) h unfolding setContextValue_Cons by (auto simp: bind_res_Inr_conv)
    have "objs x \<subseteq> S" using slot_objs [OF x(2)] Cons.prems(3) by blast
    from Cons.IH [OF c(1) Cons.prems(2) this Cons.prems(4,5)] good_parent [OF x(2) _ Cons.prems(3)]
    show ?thesis by (auto simp: c(2))
  next
    case False
    then have "a = b" "n' = n1"
      using Cons.prems(1) h unfolding setContextValue_Cons by (auto split: action.splits)
    then show ?thesis using hg False by auto
  qed
qed

subsection \<open>A walk adds\<close>

abbreviation allObjs :: "obj set \<Rightarrow> obj set" where
  "allObjs T \<equiv> \<Union>t\<in>T. objs t"

text \<open>
  \<open>log_ok n ctx l n'\<close>: for every collection of values that the variables \<open>ctx\<close> belong to and in
  which identities are consistent and below \<open>n\<close>, replaying the log \<open>l\<close> keeps them consistent, and
  every value has only grown.
\<close>

definition log_ok :: "nat \<Rightarrow> obj \<Rightarrow> obj list \<Rightarrow> nat \<Rightarrow> bool" where
  "log_ok n ctx l n' \<longleftrightarrow>
     n \<le> n' \<and>
     (\<forall>T. ctx \<in> T \<longrightarrow> alive n (allObjs T) \<longrightarrow>
        alive n' (allObjs (mutate l ` T)) \<and> (\<forall>t\<in>T. vext (erase t) (erase (mutate l t))))"

definition walked :: "walk \<Rightarrow> walk \<Rightarrow> bool" where
  "walked w w' \<longleftrightarrow>
     (\<exists>l. ylog w' = ylog w @ l \<and> yctx w' = mutate l (yctx w) \<and> log_ok (ynext w) (yctx w) l (ynext w'))"

lemma walked_refl [simp]: "walked w w"
  unfolding walked_def log_ok_def by (intro exI [of _ "[]"]) simp

lemma walked_trans:
  assumes "walked w w1" "walked w1 w2"
  shows "walked w w2"
proof -
  obtain l1 where l1: "ylog w1 = ylog w @ l1" "yctx w1 = mutate l1 (yctx w)"
      "log_ok (ynext w) (yctx w) l1 (ynext w1)"
    using assms(1) unfolding walked_def by blast
  obtain l2 where l2: "ylog w2 = ylog w1 @ l2" "yctx w2 = mutate l2 (yctx w1)"
      "log_ok (ynext w1) (yctx w1) l2 (ynext w2)"
    using assms(2) unfolding walked_def by blast
  have "log_ok (ynext w) (yctx w) (l1 @ l2) (ynext w2)"
    unfolding log_ok_def
  proof (intro conjI allI impI ballI)
    show "ynext w \<le> ynext w2" using l1(3) l2(3) by (simp add: log_ok_def)
    fix T assume T: "yctx w \<in> T" "alive (ynext w) (allObjs T)"
    have a1: "alive (ynext w1) (allObjs (mutate l1 ` T))"
        "\<forall>t\<in>T. vext (erase t) (erase (mutate l1 t))"
      using l1(3) T unfolding log_ok_def by blast+
    have "yctx w1 \<in> mutate l1 ` T" using T(1) l1(2) by simp
    then have a2: "alive (ynext w2) (allObjs (mutate l2 ` mutate l1 ` T))"
        "\<forall>t\<in>mutate l1 ` T. vext (erase t) (erase (mutate l2 t))"
      using l2(3) a1(1) unfolding log_ok_def by blast+
    show "alive (ynext w2) (allObjs (mutate (l1 @ l2) ` T))"
      using a2(1) by (simp add: image_image)
    show "vext (erase t) (erase (mutate (l1 @ l2) t))" if "t \<in> T" for t
      using a1(2) a2(2) that vext_trans by auto
  qed
  then show ?thesis unfolding walked_def using l1 l2 by (intro exI [of _ "l1 @ l2"]) simp
qed

lemma parseScalarValue_alive:
  assumes "parseScalarValue E vars n node = Inr (x, node1, n1)" "alive n S"
  shows "n \<le> n1 \<and> alive n1 (S \<union> objs x) \<and> (\<forall>y\<in>objs x. n \<le> oid y)"
proof -
  consider (alloc) v where "alloc n v = (x, n1)" | (plain) "objs x = {}" "n1 = n"
    using assms(1) by (auto simp: parseScalarValue_def Let_def split: if_splits option.splits sum.splits prod.splits)
  then show ?thesis
  proof cases
    case alloc
    with alloc_alive(1) [OF alloc assms(2)] show ?thesis by simp
  qed (use assms(2) in simp)
qed

lemma walked_processScalar: "walked w (snd (snd (processScalar E path node w)))"
proof (cases "parseScalarValue E (ctxVars (yctx w)) (ynext w) node")
  case (Inr r)
  obtain x node1 n1 where r: "r = (x, node1, n1)" by (cases r) auto
  show ?thesis
  proof (cases "setContextValue n1 x (yctx w) path")
    case (Inr q)
    obtain a n2 where q: "q = (a, n2)" by (cases q)
    have w': "snd (snd (processScalar E path node w)) = apply_action a n2 w"
      using Inr r q \<open>parseScalarValue _ _ _ _ = Inr r\<close> by (simp add: processScalar_def)
    have key: "ynext w \<le> n2 \<and> alive n2 (allObjs T) \<and> good (ynext w) n2 (allObjs T) (yctx w) a"
      if T: "yctx w \<in> T" "alive (ynext w) (allObjs T)" for T
    proof -
      note p = parseScalarValue_alive [OF \<open>parseScalarValue _ _ _ _ = Inr r\<close> [unfolded r] T(2)]
      have "objs (yctx w) \<subseteq> allObjs T" using T(1) by blast
      with setContextValue_good [OF Inr [unfolded q], of "allObjs T" "ynext w"] p
      show ?thesis by auto
    qed
    have mono: "ynext w \<le> n2"
    proof -
      have "ynext w \<le> n1"
        using parseScalarValue_alive [OF \<open>parseScalarValue _ _ _ _ = Inr r\<close> [unfolded r], of "{}"]
        by (simp add: alive_def)
      moreover have "n1 \<le> n2" using setContextValue_mono Inr q by blast
      ultimately show ?thesis by simp
    qed
    show ?thesis
    proof (cases a)
      case (Write new)
      have "log_ok (ynext w) (yctx w) [new] n2"
        unfolding log_ok_def
      proof (intro conjI allI impI ballI)
        fix T assume T: "yctx w \<in> T" "alive (ynext w) (allObjs T)"
        obtain old where old: "old \<in> objs (yctx w)" "admissible (ynext w) old new"
            "alive n2 (allObjs T \<union> (objs new - {new}))"
          using key [OF T] Write by auto
        have sub: "old \<in> objs old" "old \<in> allObjs T" "objs old \<subseteq> allObjs T"
          using objs_self [OF old(1)] old(1) T(1) objs_trans [OF old(1)] by blast+
        show "alive n2 (allObjs (mutate [new] ` T))"
          using write_alive [OF old(2) sub(1) T(2) sub(3) old(3), of T] by auto
        show "vext (erase t) (erase (mutate [new] t))" if "t \<in> T" for t
          using write_vext [OF old(2) sub(2) T(2), of t] that by auto
      qed (rule mono)
      then show ?thesis unfolding w' walked_def Write
        by (intro exI [of _ "[new]"]) (simp add: apply_action_def)
    next
      case Skip
      have "log_ok (ynext w) (yctx w) [] n2"
        unfolding log_ok_def using mono key by simp
      then show ?thesis unfolding w' walked_def Skip by (intro exI [of _ "[]"]) (simp add: apply_action_def)
    next
      case (Grown new)
      have "log_ok (ynext w) (yctx w) [] n2"
        unfolding log_ok_def using mono key by simp
      then show ?thesis unfolding w' walked_def Grown by (intro exI [of _ "[]"]) (simp add: apply_action_def)
    next
      case (Below new)
      have "log_ok (ynext w) (yctx w) [] n2"
        unfolding log_ok_def using mono key by simp
      then show ?thesis unfolding w' walked_def Below by (intro exI [of _ "[]"]) (simp add: apply_action_def)
    qed
  next
    case (Inl e)
    then show ?thesis using r \<open>parseScalarValue _ _ _ _ = Inr r\<close> by (simp add: processScalar_def)
  qed
qed (simp add: processScalar_def)

lemma walked_processNode:
  "walked w (snd (snd (processNode E path node w)))"
  "walked w (snd (snd (processPairs E path content w)))"
  "walked w (snd (snd (processItems E path i content w)))"
proof (induction E path node w and E path content w and E path i content w
    rule: processNode_processPairs_processItems.induct)
  case (1 E path kind tag v content w)
  then show ?case by (cases kind) (auto simp: walked_processScalar split: prod.split)
next
  case (2 E path keyNode valueNode rest w)
  then show ?case by (auto split: prod.split option.split intro: walked_trans)
next
  case (5 E path i item items w)
  then show ?case by (auto split: prod.split option.split intro: walked_trans)
qed auto

lemma walked_processDocuments: "walked w (snd (snd (processDocuments E dns w)))"
proof (induction dns arbitrary: w)
  case (Cons dn dns)
  have "walked w w1" if "processNode E [] dn w = (e, dn1, w1)" for e dn1 w1
    using walked_processNode(1) [of w E "[]" dn] by (simp add: that)
  moreover have "walked w1 w2" if "processDocuments E dns w1 = (e, dns1, w2)" for e dns1 w1 w2
    using Cons.IH [of w1] by (simp add: that)
  ultimately show ?case by (auto split: prod.split option.split intro: walked_trans)
qed simp

lemma walked_parse: "walked w (snd (parseYamlNode E node w))"
proof -
  have "walked w w1" if "processDocuments E c w = (e, c1, w1)" for c e c1 w1
    using walked_processDocuments [of w E c] by (simp add: that)
  moreover have "walked w w1" if "processNode E [] node w = (e, node1, w1)" for e node1 w1
    using walked_processNode(1) [of w E "[]" node] by (simp add: that)
  ultimately show ?thesis
    by (auto simp: parseYamlNode_def Let_def split: prod.splits option.splits sum.splits)
qed

subsection \<open>What a node without templates means\<close>

fun node_val :: "ynode \<Rightarrow> val"
and node_entries :: "ynode list \<Rightarrow> val gomap" where
  "node_val (YNode kind tag v content) =
     (case kind of
        MappingNode \<Rightarrow> VMap (node_entries content)
      | SequenceNode \<Rightarrow> VList (map node_val content)
      | _ \<Rightarrow>
          (if tag = nullTag then VNil
           else if tag = boolTag then VBool (strconvBool v = Some True)
           else if tag = intTag then VNum (case Atoi v of None \<Rightarrow> 0 | Some i \<Rightarrow> i)
           else if tag = floatTag then VFloat v
           else VStr v))"
| "node_entries (keyNode # valueNode # rest) = (NValue keyNode, node_val valueNode) # node_entries rest"
| "node_entries content = []"

definition node_map :: "ynode \<Rightarrow> string + val gomap" where
  "node_map node =
     (case node_val (if NKind node = DocumentNode \<and> NContent node \<noteq> [] then hd (NContent node) else node) of
        VMap m \<Rightarrow> Inr m
      | _ \<Rightarrow> Inl ''not a map'')"

definition yStr :: "string \<Rightarrow> ynode" where "yStr s = YNode ScalarNode strTag s []"
definition yInt :: "int \<Rightarrow> ynode" where "yInt i = YNode ScalarNode intTag (Itoa i) []"
definition yMap :: "(string \<times> ynode) list \<Rightarrow> ynode" where
  "yMap es = YNode MappingNode mapTag [] (concat (map (\<lambda>(k, n). [yStr k, n]) es))"
definition ySeq :: "ynode list \<Rightarrow> ynode" where "ySeq ns = YNode SequenceNode seqTag [] ns"

subsection \<open>Evaluation only adds\<close>

lemma walk_adds:
  assumes "parseYamlNode E node w = (r, w')" "alive (ynext w) (objs (yctx w))"
  shows "vext (erase (yctx w)) (erase (yctx w')) \<and> alive (ynext w') (objs (yctx w'))"
proof -
  obtain l where "yctx w' = mutate l (yctx w)" "log_ok (ynext w) (yctx w) l (ynext w')"
    using walked_parse [of w E node] assms(1) by (auto simp: walked_def)
  moreover have "alive (ynext w) (allObjs {yctx w})" using assms(2) by simp
  ultimately show ?thesis unfolding log_ok_def by fastforce
qed

text \<open>The value at a path of map keys and list indices.\<close>

fun value_at :: "val \<Rightarrow> seg list \<Rightarrow> val option" where
  "value_at v [] = Some v"
| "value_at (VMap m) (MapSeg k # path) = (case get m k of None \<Rightarrow> None | Some v \<Rightarrow> value_at v path)"
| "value_at (VList xs) (SeqSeg i # path) = (if i < length xs then value_at (xs ! i) path else None)"
| "value_at v (s # path) = None"

lemma vext_at: "vext v w \<Longrightarrow> value_at v path = Some x \<Longrightarrow> \<exists>y. value_at w path = Some y \<and> vext x y"
proof (induction v path arbitrary: w rule: value_at.induct)
  case (2 m k path)
  then obtain b u where b: "w = VMap b" "get m k = Some u" "value_at u path = Some x"
    by (auto simp: vext_map_iff split: option.splits)
  then obtain u' where "get b k = Some u'" "vext u u'" using 2(2) unfolding vext_map_iff by blast
  then show ?case using 2(1) [OF b(2) _ b(3)] b(1) by simp
next
  case (3 xs i path)
  then obtain b where b: "w = VList b" "i < length xs" "value_at (xs ! i) path = Some x" "i < length b"
    "vext (xs ! i) (b ! i)"
    by (auto simp: vext_list_iff split: if_splits)
  then show ?case using 3(1) [OF b(2) b(5) b(3)] by simp
qed auto

text \<open>A value that is still there: a nil counts as nothing, maps keep their keys, lists their length.\<close>

definition still :: "val \<Rightarrow> val \<Rightarrow> bool" where
  "still v v' \<longleftrightarrow>
     (case v of
        VNil \<Rightarrow> True
      | VMap a \<Rightarrow> (case v' of VMap b \<Rightarrow> set (keys a) \<subseteq> set (keys b) | _ \<Rightarrow> False)
      | VList xs \<Rightarrow> (case v' of VList ys \<Rightarrow> length xs \<le> length ys | _ \<Rightarrow> False)
      | _ \<Rightarrow> v' = v)"

lemma vext_still: "vext v w \<Longrightarrow> still v w"
proof (cases v)
  case (VMap a)
  assume "vext v w"
  then obtain b where b: "w = VMap b" "\<forall>k u. get a k = Some u \<longrightarrow> (\<exists>x. get b k = Some x \<and> vext u x)"
    unfolding VMap vext_map_iff by blast
  have "set (keys a) \<subseteq> set (keys b)"
  proof
    fix k assume "k \<in> set (keys a)"
    then obtain u where "get a k = Some u" by (cases "get a k") (auto simp: get_None_iff)
    then obtain x where "get b k = Some x" using b(2) by blast
    then show "k \<in> set (keys b)" using get_None_iff [of b k] by auto
  qed
  then show ?thesis by (simp add: still_def VMap b(1))
next
  case (VList xs)
  assume "vext v w"
  then show ?thesis by (auto simp: still_def VList vext_list_iff)
qed (auto simp: still_def elim: vext.cases)


subsection \<open>Nodes without templates\<close>

fun literal :: "ynode \<Rightarrow> bool"
and literals :: "ynode list \<Rightarrow> bool" where
  "literal (YNode kind tag v content) \<longleftrightarrow>
     (case kind of
        ScalarNode \<Rightarrow> \<not> (tag \<in> {strTag, []} \<and> IsTmplSyntax v)
      | MappingNode \<Rightarrow> literals content
      | _ \<Rightarrow> list_all literal content)"
| "literals (keyNode # valueNode # rest) \<longleftrightarrow> literal valueNode \<and> literals rest"
| "literals content \<longleftrightarrow> True"

lemma parseScalarValue_literal:
  assumes "\<not> (tag \<in> {strTag, []} \<and> IsTmplSyntax v)"
    and "parseScalarValue E vars n (YNode ScalarNode tag v c) = Inr (x, node1, n1)"
  shows "node1 = YNode ScalarNode tag v c"
  using assms by (auto simp: parseScalarValue_def Let_def split: if_splits option.splits sum.splits prod.splits)

lemma processScalar_literal:
  assumes "\<not> (tag \<in> {strTag, []} \<and> IsTmplSyntax v)"
  shows "fst (snd (processScalar E path (YNode ScalarNode tag v c) w)) = YNode ScalarNode tag v c"
  using parseScalarValue_literal [OF assms]
  by (auto simp: processScalar_def split: sum.split prod.split)

lemma processNode_literal:
  "literal node \<Longrightarrow> fst (snd (processNode E path node w)) = node"
  "literals content \<Longrightarrow> fst (snd (processPairs E path content w)) = content"
  "list_all literal content \<Longrightarrow> fst (snd (processItems E path i content w)) = content"
proof (induction E path node w and E path content w and E path i content w
    rule: processNode_processPairs_processItems.induct)
  case (1 E path kind tag v content w)
  then show ?case
    by (cases kind) (auto simp: processScalar_literal split: prod.splits)
next
  case (2 E path keyNode valueNode rest w)
  then show ?case by (auto split: prod.splits option.splits)
next
  case (5 E path i item items w)
  then show ?case by (auto split: prod.splits option.splits)
qed auto

lemma processDocuments_literal:
  "list_all literal dns \<Longrightarrow> fst (snd (processDocuments E dns w)) = dns"
proof (induction dns arbitrary: w)
  case (Cons dn dns)
  have "dn1 = dn" if "processNode E [] dn w = (e, dn1, w1)" for e dn1 w1
    using processNode_literal(1) [of dn E "[]" w] Cons.prems that by simp
  moreover have "dns1 = dns" if "processDocuments E dns w1 = (e, dns1, w2)" for e dns1 w1 w2
    using Cons.IH [of w1] Cons.prems that by simp
  ultimately show ?case by (auto split: prod.split option.split)
qed simp

text \<open>
  Variables without templates mean what is written. When a node without template syntax is
  accepted, the variables it sets are those its decoder reads from the node itself: neither the
  other variables nor the evaluation have changed it.
\<close>

theorem parse_literal:
  assumes "literal node" "parseYamlNode E node w = (Inr data, w')"
  shows "decodeMap E node = Inr data"
proof -
  obtain kind tag v content where n: "node = YNode kind tag v content" by (cases node)
  have "c1 = content" if "processDocuments E content w = (e, c1, w1)" "kind = DocumentNode" for e c1 w1
    using processDocuments_literal [of content E w] assms(1) that by (simp add: n)
  moreover have "node1 = node" if "processNode E [] node w = (e, node1, w1)" for e node1 w1
    using processNode_literal(1) [OF assms(1), of E "[]" w] that by simp
  ultimately show ?thesis
    using assms(2) by (auto simp: parseYamlNode_def Let_def n split: prod.splits option.splits sum.splits if_splits)
qed

subsection \<open>The test cases of the source\<close>

definition test_env :: yenv where
  "test_env =
     \<lparr>unmarshal = (\<lambda>s. if s = ''80'' then Some (VFloat ''80'') else None),
      engine = (\<lambda>ctx s. case get ctx ''zone'' of Some (VStr z) \<Rightarrow> Inr z | _ \<Rightarrow> Inl ''no zone''),
      parseFloat = Some, decodeMap = node_map, marshalNode = (\<lambda>n. []), unmarshalNode = (\<lambda>b. Inr zeroNode), order = (\<lambda>ks. ks)\<rparr>"

definition walk_of :: "val gomap \<Rightarrow> walk" where
  "walk_of m = (let (es, n) = allocM 0 m in \<lparr>yctx = OMap n es, ylog = [], ynext = Suc n\<rparr>)"

definition after :: "val gomap \<Rightarrow> ynode \<Rightarrow> yaml_error option \<times> val gomap" where
  "after m node = (case processNode test_env [] node (walk_of m) of (e, node1, w) \<Rightarrow> (e, ctxVars (yctx w)))"

lemma test_scalar_map:
  "after [] (yMap [(''name'', yStr ''alice''), (''age'', yInt 30)]) =
     (None, [(''name'', VStr ''alice''), (''age'', VNum 30)])"
  by code_simp

lemma test_map_map:
  "after [] (yMap [(''user'', yMap [(''name'', yStr ''alice''), (''age'', yInt 30)])]) =
     (None, [(''user'', VMap [(''name'', VStr ''alice''), (''age'', VNum 30)])])"
  by code_simp

lemma test_sequence:
  "after [] (yMap [(''user'', ySeq [yStr ''alice'', yStr ''carol''])]) =
     (None, [(''user'', VList [VStr ''alice'', VStr ''carol''])])"
  by code_simp

lemma test_map_in_sequence:
  "after [] (yMap [(''user'', ySeq [yMap [(''name'', yStr ''carol'')]])]) =
     (None, [(''user'', VList [VMap [(''name'', VStr ''carol'')]])])"
  by code_simp

lemma test_matrix:
  "after [] (yMap [(''matrix'', ySeq [ySeq [yInt 1, yInt 2, yInt 3], ySeq [yInt 4, yInt 5, yInt 6]])]) =
     (None, [(''matrix'', VList [VList [VNum 1, VNum 2, VNum 3], VList [VNum 4, VNum 5, VNum 6]])])"
  by code_simp

lemma test_deep:
  "after [] (yMap [(''app'', yMap [(''name'', yStr ''myapp''),
       (''env'', ySeq [yStr ''dev'', yStr ''staging'', yStr ''prod'']),
       (''config'', yMap [(''ports'', ySeq [yInt 80, yInt 443])])])]) =
     (None, [(''app'', VMap [(''name'', VStr ''myapp''),
       (''env'', VList [VStr ''dev'', VStr ''staging'', VStr ''prod'']),
       (''config'', VMap [(''ports'', VList [VNum 80, VNum 443])])])])"
  by code_simp

text \<open>Integers of YAML that \<^verbatim>\<open>Atoi\<close> does not read, and a shape that contradicts the variables.\<close>

lemma hex_integer_rejected: "fst (after [] (yMap [(''mask'', YNode ScalarNode intTag ''0x1F'' [])])) = Some (BadInt ''0x1F'')"
  by code_simp

lemma clash_rejected:
  "after [(''app'', VStr ''x'')] (yMap [(''app'', yMap [(''port'', yInt 80)])]) =
     (Some (ExpectedMap [''port'']), [(''app'', VStr ''x'')])"
  by code_simp


theorem parse_literal_witness:
  "decodeMap test_env (yMap [(''zone'', yStr ''us'')]) = Inr [(''zone'', VStr ''us'')]"
proof -
  have "fst (parseYamlNode test_env (yMap [(''zone'', yStr ''us'')]) (walk_of [])) = Inr [(''zone'', VStr ''us'')]"
    by code_simp
  then obtain w' where "parseYamlNode test_env (yMap [(''zone'', yStr ''us'')]) (walk_of []) =
      (Inr [(''zone'', VStr ''us'')], w')"
    by (metis prod.collapse)
  moreover have "literal (yMap [(''zone'', yStr ''us'')])" by code_simp
  ultimately show ?thesis using parse_literal by blast
qed

end
