(* ===== verification/Variables.thy ===== *)
theory Variables
  imports Inventory Yaml
begin

text \<open>
  The variable store of a playbook run (\<^verbatim>\<open>pkg/variable/variable.go\<close>, \<^verbatim>\<open>variable_get.go\<close>,
  \<^verbatim>\<open>variable_merge.go\<close>, \<^verbatim>\<open>helper.go\<close>, \<^verbatim>\<open>source/file.go\<close>): what a host sees, how a task writes
  variables back, and the files that keep a copy. The variables of a host are objects (theory
  \<open>Objects\<close>), since the store, its copies and the variables handed to templates share nested maps
  and slices: a merge function works on a copy whose nested objects are those of the store, so the
  log of its writes is replayed on the store whether it succeeds or not. What lies outside the
  sources is a field of the record \<open>env\<close>: decoders and encoders, the template engine, the
  addresses of the local machine, Go's map order and what becomes of a file that is written. The locks
  are not modelled: \<^verbatim>\<open>Get\<close> and \<^verbatim>\<open>Merge\<close> hold the lock for their whole body, so each is one
  step. The group table, a \<^verbatim>\<open>map[string][]string\<close> in the source, is a map of any values here.
\<close>

text \<open>What the YAML decoder does when it is given a \<^verbatim>\<open>nil\<close> map to fill, by value.\<close>

datatype nil_decode = Ignored | Refused | Panics

text \<open>
  What becomes of the file of a host that is written: it is written, it cannot be created and
  stays as it was, or it is created, which empties it, and the writing of its contents fails.
\<close>

datatype write_answer = Written | NotCreated | Emptied

record env = yenv +
  localIP :: "string \<Rightarrow> string"
  writeFile :: "string \<Rightarrow> write_answer"
  intoNilMap :: "string \<Rightarrow> nil_decode"

record host =
  RemoteVars :: "obj gomap"
  RuntimeVars :: "obj gomap"

record vvalue =
  Config :: string
  VInventory :: Inventory
  VHosts :: "host gomap"
  Result :: "val gomap"

text \<open>\<open>vsource\<close> is what this process has written to the files and the files still hold, per host.\<close>

record hostFile =
  FRemote :: "val gomap"
  FRuntime :: "val gomap"

record variable =
  vsource :: "hostFile gomap"
  vval :: vvalue

datatype var_error =
    HostNotExist string | ParseError yaml_error | WriteError string | ReadError string | TypeAssertion
  | ReadPanic string

definition zero_host :: host where
  "zero_host = \<lparr>RemoteVars = [], RuntimeVars = []\<rparr>"

definition host_of :: "host gomap \<Rightarrow> string \<Rightarrow> host" where
  "host_of hs hn = (case get hs hn of None \<Rightarrow> zero_host | Some h \<Rightarrow> h)"

definition VariableIPv4 :: string where "VariableIPv4 = ''internal_ipv4''"
definition VariableIPv6 :: string where "VariableIPv6 = ''internal_ipv6''"
definition VariableOS :: string where "VariableOS = ''os''"
definition VariableOSHostName :: string where "VariableOSHostName = ''hostname''"
definition VariableHostName :: string where "VariableHostName = ''hostname''"
definition VariableInventoryName :: string where "VariableInventoryName = ''inventory_hostname''"
definition VariableGlobalHosts :: string where "VariableGlobalHosts = ''hostvars''"
definition VariableGroups :: string where "VariableGroups = ''groups''"
definition resultKey :: string where "resultKey = ''result''"

subsection \<open>Raw extensions\<close>

definition Extension2Variables :: "env \<Rightarrow> string \<Rightarrow> val gomap" where
  "Extension2Variables E raw =
     (if length raw = 0 then []
      else case unmarshal E raw of
             Some (VMap data) \<Rightarrow> data
           | Some VNil \<Rightarrow> []
           | Some (VList arr) \<Rightarrow> [(''raw'', VList arr)]
           | Some (VStr str) \<Rightarrow> [(''raw'', VStr str)]
           | _ \<Rightarrow> [(''raw'', VStr raw)])"

subsection \<open>Reading: GetAllVariable\<close>

definition put_absent :: "string \<Rightarrow> obj \<Rightarrow> obj gomap \<Rightarrow> obj gomap" where
  "put_absent k v m = (if get m k = None then put k v m else m)"

definition defaultHostVariable :: "env \<Rightarrow> string \<Rightarrow> obj gomap \<Rightarrow> obj gomap" where
  "defaultHostVariable E hostname hostVars =
     (let h1 = (if hostname = VariableLocalHost
                then put_absent VariableIPv6 (OStr (localIP E VariableIPv6))
                      (put_absent VariableIPv4 (OStr (localIP E VariableIPv4)) hostVars)
                else hostVars);
          h2 = (case get h1 VariableOS of
                  Some (OMap i osd) \<Rightarrow>
                    put VariableHostName
                      (case get osd VariableOSHostName of None \<Rightarrow> ONil | Some n \<Rightarrow> n) h1
                | _ \<Rightarrow> h1)
      in put_absent VariableHostName (OStr hostname)
           (put_absent VariableInventoryName (OStr hostname) h2))"

text \<open>One layer: a raw extension is decoded afresh whenever it is read.\<close>

definition addRaw :: "env \<Rightarrow> string \<Rightarrow> obj gomap \<Rightarrow> nat \<Rightarrow> obj gomap \<times> nat" where
  "addRaw E raw hostVars n =
     (let (vars, n1) = allocM n (Extension2Variables E raw) in Combine n1 hostVars vars)"

fun mergeGroupVars ::
  "env \<Rightarrow> Inventory \<Rightarrow> string \<Rightarrow> string list \<Rightarrow> obj gomap \<Rightarrow> nat \<Rightarrow> obj gomap \<times> nat" where
  "mergeGroupVars E iv hostname [] hostVars n = (hostVars, n)"
| "mergeGroupVars E iv hostname (gn # gns) hostVars n =
     (let (h1, n1) =
        (case get (InvGroups iv) gn of
           None \<Rightarrow> (hostVars, n)
         | Some gv \<Rightarrow> (if hostname \<in> set (Hosts gv) then addRaw E (Vars gv) hostVars n else (hostVars, n)))
      in mergeGroupVars E iv hostname gns h1 n1)"

definition mergedHostVars :: "env \<Rightarrow> vvalue \<Rightarrow> string \<Rightarrow> nat \<Rightarrow> obj gomap \<times> nat" where
  "mergedHostVars E v hostname n =
     (let iv = VInventory v;
          (h1, n1) = Combine n [] (RemoteVars (host_of (VHosts v) hostname));
          (h2, n2) = Combine n1 h1 (RuntimeVars (host_of (VHosts v) hostname));
          (h3, n3) = addRaw E (InvVars iv) h2 n2;
          (h4, n4) = mergeGroupVars E iv hostname (range_keys (order E) (InvGroups iv)) h3 n3;
          (h5, n5) = addRaw E (case get (InvHosts iv) hostname of None \<Rightarrow> [] | Some r \<Rightarrow> r) h4 n4
      in addRaw E (Config v) h5 n5)"

fun getHostsVariable :: "env \<Rightarrow> vvalue \<Rightarrow> string list \<Rightarrow> nat \<Rightarrow> obj gomap \<times> nat" where
  "getHostsVariable E v [] n = ([], n)"
| "getHostsVariable E v (hostname # hostnames) n =
     (let (hostVars, n1) = mergedHostVars E v hostname n;
          (globalHosts, n2) = getHostsVariable E v hostnames (Suc n1)
      in ((hostname, OMap n1 (defaultHostVariable E hostname hostVars)) # globalHosts, n2))"

definition groupTable :: "env \<Rightarrow> Inventory \<Rightarrow> val gomap" where
  "groupTable E iv =
     (case ConvertGroup (order E) iv of
        None \<Rightarrow> []
      | Some groups \<Rightarrow> map (\<lambda>(gn, hs). (gn, VList (map VStr hs))) groups)"

definition GetAllVariable :: "env \<Rightarrow> string \<Rightarrow> vvalue \<Rightarrow> nat \<Rightarrow> obj gomap \<times> nat" where
  "GetAllVariable E hostname v n =
     (let (hosts, n1) = getHostsVariable E v (keys (VHosts v)) n
      in case get hosts hostname of
           Some (OMap i hostVars) \<Rightarrow>
             (let (h1, n2) = Combine (Suc n1) hostVars [(VariableGlobalHosts, OMap n1 hosts)];
                  (groups, n3) = alloc n2 (VMap (groupTable E (VInventory v)))
              in Combine n3 h1 [(VariableGroups, groups)])
         | _ \<Rightarrow> ([], n1))"

text \<open>The next free identity of a store, and the variables of a host as templates see them.\<close>

fun bound :: "obj \<Rightarrow> nat" where
  "bound (OList i xs) = Suc (max i (foldr (\<lambda>x b. max (bound x) b) xs 0))"
| "bound (OMap i m) = Suc (max i (foldr (\<lambda>p b. max (bound (snd p)) b) m 0))"
| "bound x = 0"

definition freshId :: "vvalue \<Rightarrow> nat" where
  "freshId v =
     foldr (\<lambda>p b. max (bound (OList 0 (map snd (RemoteVars (snd p)) @ map snd (RuntimeVars (snd p))))) b)
       (VHosts v) 0"

definition AllVariables :: "env \<Rightarrow> string \<Rightarrow> vvalue \<Rightarrow> val gomap" where
  "AllVariables E hostname v = eraseM (fst (GetAllVariable E hostname v (freshId v)))"

definition GetHostMaxLength :: "vvalue \<Rightarrow> nat" where
  "GetHostMaxLength v = foldl (\<lambda>n hn. max (length hn) n) 0 (keys (VHosts v))"

definition GetResultVariable :: "vvalue \<Rightarrow> val" where
  "GetResultVariable v = (case get (Result v) resultKey of None \<Rightarrow> VNil | Some r \<Rightarrow> r)"

subsection \<open>Writing: merge functions\<close>

text \<open>
  A merge function works on the copy that \<^verbatim>\<open>DeepCopy\<close> makes: new outermost maps, the nested
  objects of the store. It gives its error, the copy and the log of its writes to nested objects.
\<close>

definition mutateHost :: "obj list \<Rightarrow> host \<Rightarrow> host" where
  "mutateHost log h = \<lparr>RemoteVars = mutateM log (RemoteVars h), RuntimeVars = mutateM log (RuntimeVars h)\<rparr>"

definition mutateValue :: "obj list \<Rightarrow> vvalue \<Rightarrow> vvalue" where
  "mutateValue log v = v\<lparr>VHosts := map (\<lambda>p. (fst p, mutateHost log (snd p))) (VHosts v)\<rparr>"

type_synonym merge_fun = "vvalue \<Rightarrow> var_error option \<times> vvalue \<times> obj list"

fun setRemote :: "obj gomap \<Rightarrow> string list \<Rightarrow> vvalue \<Rightarrow> var_error option \<times> vvalue" where
  "setRemote data [] v = (None, v)"
| "setRemote data (hn # hns) v =
     (if get (VHosts v) hn = None then (Some (HostNotExist hn), v)
      else setRemote data hns
             (v\<lparr>VHosts := put hn ((host_of (VHosts v) hn)\<lparr>RemoteVars := data\<rparr>) (VHosts v)\<rparr>))"

definition MergeRemoteVariable :: "val gomap \<Rightarrow> string list \<Rightarrow> merge_fun" where
  "MergeRemoteVariable data hostnames v =
     (case setRemote (fst (allocM (freshId v) data)) hostnames v of (e, v1) \<Rightarrow> (e, v1, []))"

fun mergeNodes ::
  "env \<Rightarrow> string \<Rightarrow> ynode list \<Rightarrow> obj \<Rightarrow> nat \<Rightarrow> vvalue \<Rightarrow> var_error option \<times> vvalue \<times> obj list \<times> nat"
where
  "mergeNodes E hn [] ctx n v = (None, v, [], n)"
| "mergeNodes E hn (node # nodes) ctx n v =
     (if IsZero node then mergeNodes E hn nodes ctx n v
      else
        (let (r, w) = parseYamlNode E (copyNode E node) \<lparr>yctx = ctx, ylog = [], ynext = n\<rparr>;
             v1 = mutateValue (ylog w) v
         in case r of
              Inl e \<Rightarrow> (Some (ParseError e), v1, ylog w, ynext w)
            | Inr data \<Rightarrow>
                (let hv = host_of (VHosts v1) hn;
                     (d, n1) = allocM (ynext w) data;
                     (vars, n2) = Combine n1 (RuntimeVars hv) d;
                     (e, v2, log, n3) =
                       mergeNodes E hn nodes (yctx w) n2
                         (v1\<lparr>VHosts := put hn (hv\<lparr>RuntimeVars := vars\<rparr>) (VHosts v1)\<rparr>)
                 in (e, v2, ylog w @ log, n3))))"

fun mergeRuntimeHosts ::
  "env \<Rightarrow> ynode list \<Rightarrow> string list \<Rightarrow> nat \<Rightarrow> merge_fun" where
  "mergeRuntimeHosts E nodes [] n v = (None, v, [])"
| "mergeRuntimeHosts E nodes (hn # hns) n v =
     (let (vars, n1) = GetAllVariable E hn v n;
          (e, v1, log, n2) = mergeNodes E hn nodes (OMap n1 vars) (Suc n1) v
      in case e of
           Some err \<Rightarrow> (Some err, v1, log)
         | None \<Rightarrow> (let (e2, v2, log2) = mergeRuntimeHosts E nodes hns n2 v1 in (e2, v2, log @ log2)))"

definition MergeRuntimeVariable :: "env \<Rightarrow> ynode list \<Rightarrow> string list \<Rightarrow> merge_fun" where
  "MergeRuntimeVariable E nodes hosts v =
     (if nodes = [] then (None, v, []) else mergeRuntimeHosts E nodes hosts (freshId v) v)"

fun mergeDataHosts :: "obj gomap \<Rightarrow> string list \<Rightarrow> nat \<Rightarrow> vvalue \<Rightarrow> vvalue" where
  "mergeDataHosts data [] n v = v"
| "mergeDataHosts data (hn # hns) n v =
     (let hv = host_of (VHosts v) hn;
          (vars, n1) = Combine n (RuntimeVars hv) data
      in mergeDataHosts data hns n1 (v\<lparr>VHosts := put hn (hv\<lparr>RuntimeVars := vars\<rparr>) (VHosts v)\<rparr>))"

definition MergeHostsRuntimeVariable ::
  "env \<Rightarrow> ynode \<Rightarrow> string \<Rightarrow> string list \<Rightarrow> merge_fun" where
  "MergeHostsRuntimeVariable E node hostname hosts v =
     (if IsZero node then (None, v, [])
      else
        (let (ctx, n) = GetAllVariable E hostname v (freshId v);
             (r, w) = parseYamlNode E node \<lparr>yctx = OMap n ctx, ylog = [], ynext = Suc n\<rparr>;
             v1 = mutateValue (ylog w) v
         in case r of
              Inl e \<Rightarrow> (Some (ParseError e), v1, ylog w)
            | Inr data \<Rightarrow>
                (let (d, n1) = allocM (ynext w) data in (None, mergeDataHosts d hosts n1 v1, ylog w))))"

definition MergeResultVariable :: "val \<Rightarrow> merge_fun" where
  "MergeResultVariable r v = (None, v\<lparr>Result := CombineVariables (Result v) [(resultKey, r)]\<rparr>, [])"

subsection \<open>Writing: Merge and the files\<close>

definition hostFileOf :: "host \<Rightarrow> hostFile" where
  "hostFileOf h = \<lparr>FRemote = eraseM (RemoteVars h), FRuntime = eraseM (RuntimeVars h)\<rparr>"

fun syncHosts :: "env \<Rightarrow> vvalue \<Rightarrow> string list \<Rightarrow> variable \<Rightarrow> var_error option \<times> variable" where
  "syncHosts E newVal [] v = (None, v)"
| "syncHosts E newVal (hn # hns) v =
     (let nh = host_of (VHosts newVal) hn;
          hv = host_of (VHosts (vval v)) hn
      in if deepEqualM (RemoteVars nh) (RemoteVars hv) \<and> deepEqualM (RuntimeVars nh) (RuntimeVars hv)
         then syncHosts E newVal hns v
         else (case writeFile E hn of
                 NotCreated \<Rightarrow> (Some (WriteError hn), v)
               | Emptied \<Rightarrow> (Some (WriteError hn), v\<lparr>vsource := filter (\<lambda>p. fst p \<noteq> hn) (vsource v)\<rparr>)
               | Written \<Rightarrow>
                   syncHosts E newVal hns
                     \<lparr>vsource = put hn (hostFileOf nh) (vsource v),
                      vval = (vval v)\<lparr>VHosts := put hn nh (VHosts (vval v))\<rparr>\<rparr>))"

definition syncSource :: "env \<Rightarrow> vvalue \<Rightarrow> variable \<Rightarrow> var_error option \<times> variable" where
  "syncSource E newVal v =
     syncHosts E newVal (range_keys (order E) (VHosts (vval v)))
       (v\<lparr>vval := (vval v)\<lparr>Result := Result newVal\<rparr>\<rparr>)"

definition MergeVar :: "env \<Rightarrow> merge_fun \<Rightarrow> variable \<Rightarrow> var_error option \<times> variable" where
  "MergeVar E f v =
     (let (err, nv, log) = f (vval v);
          v1 = v\<lparr>vval := mutateValue log (vval v)\<rparr>
      in case err of Some e \<Rightarrow> (Some e, v1) | None \<Rightarrow> syncSource E nv v1)"

subsection \<open>Opening the store\<close>

definition prefixYAML :: string where
  "prefixYAML = ''# Generate by variable'' @ [char_of (10::nat)]"

definition TrimSuffix :: "string \<Rightarrow> string \<Rightarrow> string" where
  "TrimSuffix s p = (if HasSuffix s p then take (length s - length p) s else s)"

text \<open>
  \<^verbatim>\<open>fileSource.Read\<close>: the directory is a list of names, whether each is a directory, and contents
  (\<open>None\<close>: cannot be read). A file is decoded into a map that is \<^verbatim>\<open>nil\<close> and passed by value
  (\<^verbatim>\<open>yaml.Unmarshal(fdata, data)\<close>): the callee cannot give the caller's variable another map, so
  when \<^verbatim>\<open>Unmarshal\<close> returns without an error the map is still \<^verbatim>\<open>nil\<close>, and reads as empty for
  the host. What the decoder does is \<open>intoNilMap\<close>: \<^verbatim>\<open>yaml.v3\<close> ignores a file that holds nothing
  but comments, refuses one that is not YAML, and panics at a mapping, which is what the process
  has written if any host had variables.
\<close>

fun fileRead :: "env \<Rightarrow> (string \<times> bool \<times> string option) list \<Rightarrow> var_error + val gomap gomap" where
  "fileRead E [] = Inr []"
| "fileRead E ((name, isDir, fdata) # entries) =
     (if isDir \<or> \<not> HasSuffix name ''.yaml'' then fileRead E entries
      else case fdata of
             None \<Rightarrow> Inl (ReadError name)
           | Some text \<Rightarrow>
               (if take (length prefixYAML) text \<noteq> prefixYAML then fileRead E entries
                else case intoNilMap E text of
                       Refused \<Rightarrow> Inl (ReadError name)
                     | Panics \<Rightarrow> Inl (ReadPanic name)
                     | Ignored \<Rightarrow>
                         bind_res (fileRead E entries)
                           (\<lambda>result. Inr ((TrimSuffix name ''.yaml'', []) # result))))"

definition readSection :: "val gomap \<Rightarrow> string \<Rightarrow> var_error + val gomap" where
  "readSection d k =
     (case get d k of None \<Rightarrow> Inr [] | Some (VMap m) \<Rightarrow> Inr m | Some _ \<Rightarrow> Inl TypeAssertion)"

fun readHosts :: "val gomap gomap \<Rightarrow> nat \<Rightarrow> host gomap \<Rightarrow> var_error + host gomap" where
  "readHosts [] n hs = Inr hs"
| "readHosts ((k, d) # data) n hs =
     bind_res (readSection d ''remote'') (\<lambda>remote.
     bind_res (readSection d ''runtime'') (\<lambda>runtime.
       let (r, n1) = allocM n remote; (t, n2) = allocM n1 runtime
       in readHosts data n2 (put k \<lparr>RemoteVars = r, RuntimeVars = t\<rparr> hs)))"

definition NewVariable ::
  "env \<Rightarrow> string \<Rightarrow> Inventory \<Rightarrow> (string \<times> bool \<times> string option) list \<Rightarrow> var_error + variable" where
  "NewVariable E config iv files =
     (let gd = (case ConvertGroup (order E) iv of
                  None \<Rightarrow> [] | Some groups \<Rightarrow> (case get groups VariableGroupsAll of None \<Rightarrow> [] | Some hs \<Rightarrow> hs));
          hosts = foldl (\<lambda>hs hn. put hn zero_host hs) [] gd
      in bind_res (fileRead E files) (\<lambda>data.
         bind_res (readHosts data 0 hosts) (\<lambda>hs.
           Inr \<lparr>vsource = [],
                vval = \<lparr>Config = config, VInventory = iv, VHosts = hs, Result = []\<rparr>\<rparr>)))"

subsection \<open>The objects of a store\<close>

definition hostVals :: "host \<Rightarrow> obj set" where
  "hostVals h = snd ` set (RemoteVars h) \<union> snd ` set (RuntimeVars h)"

definition vals :: "vvalue \<Rightarrow> obj set" where
  "vals v = (\<Union>p\<in>set (VHosts v). hostVals (snd p))"

abbreviation storeObjs :: "vvalue \<Rightarrow> obj set" where
  "storeObjs v \<equiv> allObjs (vals v)"

lemma foldr_max_le: "x \<in> set xs \<Longrightarrow> f x \<le> foldr (\<lambda>x b. max (f x) b) xs (0::nat)"
  by (induction xs) auto

lemma objs_bound: "y \<in> objs t \<Longrightarrow> oid y < bound t"
proof (induction t rule: objs.induct)
  case (1 i xs)
  then show ?case using foldr_max_le [of _ xs bound] by (fastforce simp: less_Suc_eq_le le_max_iff_disj)
next
  case (2 i m)
  then show ?case
    using foldr_max_le [of _ m "\<lambda>p. bound (snd p)"] by (fastforce simp: less_Suc_eq_le le_max_iff_disj)
qed auto

lemma storeObjs_fresh:
  assumes "y \<in> storeObjs v"
  shows "oid y < freshId v"
proof -
  obtain p t where p: "p \<in> set (VHosts v)" "t \<in> hostVals (snd p)" "y \<in> objs t"
    using assms by (auto simp: vals_def)
  let ?l = "OList 0 (map snd (RemoteVars (snd p)) @ map snd (RuntimeVars (snd p)))"
  have "y \<in> objs ?l" using p(2,3) by (auto simp: hostVals_def)
  then have "oid y < bound ?l" by (rule objs_bound)
  also have "\<dots> \<le> freshId v"
    unfolding freshId_def using foldr_max_le [OF p(1), of "\<lambda>p. bound (OList 0 (map snd (RemoteVars (snd p)) @ map snd (RuntimeVars (snd p))))"] .
  finally show ?thesis .
qed

lemma alive_fresh: "inj_on oid (storeObjs v) \<Longrightarrow> alive (freshId v) (storeObjs v)"
  using storeObjs_fresh by (auto simp: alive_def)

lemma hostVals_mutate: "hostVals (mutateHost l h) = mutate l ` hostVals h"
  by (force simp: hostVals_def mutateHost_def image_Un image_image)

lemma vals_mutate: "vals (mutateValue l v) = mutate l ` vals v"
  by (auto simp: vals_def mutateValue_def hostVals_mutate)

lemma mutateValue_frame [simp]:
  "Config (mutateValue l v) = Config v" "VInventory (mutateValue l v) = VInventory v"
  "Result (mutateValue l v) = Result v" "fst ` set (VHosts (mutateValue l v)) = fst ` set (VHosts v)"
  by (simp_all add: mutateValue_def image_image)

lemma vals_put: "vals (v\<lparr>VHosts := put hn h (VHosts v)\<rparr>) \<subseteq> vals v \<union> hostVals h"
proof -
  have "(\<Union>p\<in>set (put hn h hs). hostVals (snd p)) \<subseteq> (\<Union>p\<in>set hs. hostVals (snd p)) \<union> hostVals h" for hs
    by (induction hs) auto
  then show ?thesis by (simp add: vals_def)
qed

lemma hostVals_host_of: "hostVals (host_of (VHosts v) hn) \<subseteq> vals v"
proof (cases "get (VHosts v) hn")
  case None
  then show ?thesis by (simp add: host_of_def zero_host_def hostVals_def)
next
  case (Some h)
  then show ?thesis using map_of_SomeD [OF Some] by (force simp: host_of_def vals_def)
qed

lemma mutate_nothing [simp]: "mutateValue [] v = v"
proof -
  have "mutateHost [] h = h" for h :: host by (cases h) (simp add: mutateHost_def)
  then show ?thesis by (cases v) (simp add: mutateValue_def)
qed

lemma vals_put_remote:
  "vals (v\<lparr>VHosts := put hn ((host_of (VHosts v) hn)\<lparr>RemoteVars := m\<rparr>) (VHosts v)\<rparr>) \<subseteq> vals v \<union> snd ` set m"
proof (rule order_trans [OF vals_put])
  have "hostVals ((host_of (VHosts v) hn)\<lparr>RemoteVars := m\<rparr>) \<subseteq> hostVals (host_of (VHosts v) hn) \<union> snd ` set m"
    by (auto simp: hostVals_def)
  then show "vals v \<union> hostVals ((host_of (VHosts v) hn)\<lparr>RemoteVars := m\<rparr>) \<subseteq> vals v \<union> snd ` set m"
    using hostVals_host_of [of v hn] by blast
qed

lemma storeObjs_put:
  "storeObjs (v\<lparr>VHosts := put hn ((host_of (VHosts v) hn)\<lparr>RuntimeVars := m\<rparr>) (VHosts v)\<rparr>)
     \<subseteq> storeObjs v \<union> objsM m"
proof -
  have "hostVals ((host_of (VHosts v) hn)\<lparr>RuntimeVars := m\<rparr>) \<subseteq> hostVals (host_of (VHosts v) hn) \<union> snd ` set m"
    by (auto simp: hostVals_def)
  then have "vals (v\<lparr>VHosts := put hn ((host_of (VHosts v) hn)\<lparr>RuntimeVars := m\<rparr>) (VHosts v)\<rparr>)
      \<subseteq> vals v \<union> snd ` set m"
    using order_trans [OF vals_put, of v] hostVals_host_of [of v hn] by blast
  then have "storeObjs (v\<lparr>VHosts := put hn ((host_of (VHosts v) hn)\<lparr>RuntimeVars := m\<rparr>) (VHosts v)\<rparr>)
      \<subseteq> allObjs (vals v \<union> snd ` set m)" by (rule UN_mono) simp
  then show ?thesis by (simp add: UN_Un)
qed

lemma allObjs_host: "objsM (RemoteVars h) \<subseteq> allObjs (hostVals h)" "objsM (RuntimeVars h) \<subseteq> allObjs (hostVals h)"
  by (auto simp: hostVals_def)

lemma host_objs:
  "objsM (RemoteVars (host_of (VHosts v) hn)) \<subseteq> storeObjs v"
  "objsM (RuntimeVars (host_of (VHosts v) hn)) \<subseteq> storeObjs v"
  by (rule order_trans [OF allObjs_host(1) UN_mono [OF hostVals_host_of order_refl]])
     (rule order_trans [OF allObjs_host(2) UN_mono [OF hostVals_host_of order_refl]])

lemma allObjs_M: "allObjs (snd ` set m) = objsM m"
  by simp

subsection \<open>Reading creates new objects only\<close>

lemma addRaw_alive:
  assumes "addRaw E raw m n = (es, n')" "alive n S" "objsM m \<subseteq> S"
  shows "n \<le> n' \<and> alive n' (S \<union> objsM es)"
proof -
  obtain xs n1 where a: "allocM n (Extension2Variables E raw) = (xs, n1)" by fastforce
  note al = alloc_alive(3) [OF a assms(2)]
  have "n1 \<le> n' \<and> alive n' ((S \<union> objsM xs) \<union> objsM es)"
    using assms(1,3) a al by (intro combine_alive(2) [of n1 m xs]) (auto simp: addRaw_def)
  then show ?thesis using al alive_mono [of n' _ n' "S \<union> objsM es"] by auto
qed

lemma mergeGroupVars_alive:
  assumes "mergeGroupVars E iv hn gns m n = (es, n')" "alive n S" "objsM m \<subseteq> S"
  shows "n \<le> n' \<and> alive n' (S \<union> objsM es)"
  using assms
proof (induction gns arbitrary: m n S)
  case Nil
  then show ?case by (simp add: Un_absorb2)
next
  case (Cons gn gns)
  obtain h1 n1 where h1: "(case get (InvGroups iv) gn of
       None \<Rightarrow> (m, n)
     | Some gv \<Rightarrow> (if hn \<in> set (Hosts gv) then addRaw E (Vars gv) m n else (m, n))) = (h1, n1)"
    by fastforce
  have "n \<le> n1 \<and> alive n1 (S \<union> objsM h1)"
  proof (cases "(h1, n1) = (m, n)")
    case True
    then show ?thesis using Cons.prems by (simp add: Un_absorb2)
  next
    case False
    then obtain gv where "get (InvGroups iv) gn = Some gv" "addRaw E (Vars gv) m n = (h1, n1)"
      using h1 by (auto split: option.splits if_splits)
    then show ?thesis using addRaw_alive Cons.prems(2,3) by blast
  qed
  moreover have "mergeGroupVars E iv hn gns h1 n1 = (es, n')" using Cons.prems(1) h1 by simp
  ultimately have "n1 \<le> n' \<and> alive n' ((S \<union> objsM h1) \<union> objsM es)" "n \<le> n1"
    using Cons.IH [of h1 n1 "S \<union> objsM h1"] by auto
  then show ?case using alive_mono [of n' _ n' "S \<union> objsM es"] by auto
qed

lemma step_alive:
  assumes "\<And>S. alive n S \<Longrightarrow> A \<subseteq> S \<Longrightarrow> n \<le> n' \<and> alive n' (S \<union> B)"
    and "\<And>S. alive n' S \<Longrightarrow> B \<subseteq> S \<Longrightarrow> A' \<subseteq> S \<Longrightarrow> n' \<le> n'' \<and> alive n'' (S \<union> C)"
    and "alive n S" "A \<subseteq> S" "A' \<subseteq> S"
  shows "n \<le> n'' \<and> alive n'' (S \<union> C)"
proof -
  have 1: "n \<le> n'" "alive n' (S \<union> B)" using assms(1) [OF assms(3,4)] by auto
  have "n' \<le> n'' \<and> alive n'' ((S \<union> B) \<union> C)" using assms(2) [OF 1(2)] assms(5) by auto
  then show ?thesis using 1(1) alive_mono [of n'' "(S \<union> B) \<union> C" n'' "S \<union> C"] by auto
qed

lemma mergedHostVars_alive:
  assumes "mergedHostVars E v hn n = (es, n')" "alive n S" "storeObjs v \<subseteq> S"
  shows "n \<le> n' \<and> alive n' (S \<union> objsM es)"
proof -
  let ?h = "host_of (VHosts v) hn" and ?iv = "VInventory v"
  obtain h1 n1 where h1: "Combine n [] (RemoteVars ?h) = (h1, n1)" by fastforce
  obtain h2 n2 where h2: "Combine n1 h1 (RuntimeVars ?h) = (h2, n2)" by fastforce
  obtain h3 n3 where h3: "addRaw E (InvVars ?iv) h2 n2 = (h3, n3)" by fastforce
  obtain h4 n4 where h4: "mergeGroupVars E ?iv hn (range_keys (order E) (InvGroups ?iv)) h3 n3 = (h4, n4)" by fastforce
  obtain h5 n5 where h5: "addRaw E (case get (InvHosts ?iv) hn of None \<Rightarrow> [] | Some r \<Rightarrow> r) h4 n4 = (h5, n5)" by fastforce
  have h6: "addRaw E (Config v) h5 n5 = (es, n')"
    using assms(1) by (simp add: mergedHostVars_def Let_def h1 h2 h3 h4 h5)
  have sub: "objsM (RemoteVars ?h) \<subseteq> S" "objsM (RuntimeVars ?h) \<subseteq> S"
    using order_trans [OF host_objs(1) assms(3)] order_trans [OF host_objs(2) assms(3)] by auto
  have 1: "n \<le> n1 \<and> alive n1 (S \<union> objsM h1)"
    using combine_alive(2) [OF h1 assms(2)] sub(1) by simp
  have 2: "n1 \<le> n2 \<and> alive n2 ((S \<union> objsM h1) \<union> objsM h2)"
    using 1 sub(2) by (intro combine_alive(2) [OF h2]) auto
  have 3: "n2 \<le> n3 \<and> alive n3 (((S \<union> objsM h1) \<union> objsM h2) \<union> objsM h3)"
    using 2 by (intro addRaw_alive [OF h3]) auto
  have 4: "n3 \<le> n4 \<and> alive n4 ((((S \<union> objsM h1) \<union> objsM h2) \<union> objsM h3) \<union> objsM h4)"
    using 3 by (intro mergeGroupVars_alive [OF h4]) auto
  have 5: "n4 \<le> n5 \<and> alive n5 (((((S \<union> objsM h1) \<union> objsM h2) \<union> objsM h3) \<union> objsM h4) \<union> objsM h5)"
    using 4 by (intro addRaw_alive [OF h5]) auto
  have "n5 \<le> n' \<and> alive n' ((((((S \<union> objsM h1) \<union> objsM h2) \<union> objsM h3) \<union> objsM h4) \<union> objsM h5) \<union> objsM es)"
    using 5 by (intro addRaw_alive [OF h6]) auto
  then show ?thesis
    using 1 2 3 4 5 by (intro conjI alive_mono [of n' _ n' "S \<union> objsM es"]) auto
qed

lemma objsM_put_absent: "objs x = {} \<Longrightarrow> objsM (put_absent k x m) \<subseteq> objsM m"
  using objsM_put [of k x m] by (auto simp: put_absent_def)

lemma objsM_default: "objsM (defaultHostVariable E hn m) \<subseteq> objsM m"
proof -
  define h1 where "h1 = (if hn = VariableLocalHost
      then put_absent VariableIPv6 (OStr (localIP E VariableIPv6))
             (put_absent VariableIPv4 (OStr (localIP E VariableIPv4)) m) else m)"
  define h2 where "h2 = (case get h1 VariableOS of
      Some (OMap i osd) \<Rightarrow>
        put VariableHostName (case get osd VariableOSHostName of None \<Rightarrow> ONil | Some n \<Rightarrow> n) h1
    | _ \<Rightarrow> h1)"
  have h1: "objsM h1 \<subseteq> objsM m"
    unfolding h1_def
    using order_trans [OF objsM_put_absent objsM_put_absent,
        of "OStr (localIP E VariableIPv6)" "OStr (localIP E VariableIPv4)" VariableIPv6 VariableIPv4 m]
    by (simp del: UN_simps)
  have h2: "objsM h2 \<subseteq> objsM h1"
  proof (cases "\<exists>i osd. get h1 VariableOS = Some (OMap i osd)")
    case True
    then obtain i osd where os: "get h1 VariableOS = Some (OMap i osd)" by blast
    have "objs (case get osd VariableOSHostName of None \<Rightarrow> ONil | Some n \<Rightarrow> n) \<subseteq> objsM osd"
      using objsM_get [of osd] by (auto split: option.split)
    also have "\<dots> \<subseteq> objsM h1" using objsM_get [OF os] by auto
    finally show ?thesis
      using objsM_put [of VariableHostName _ h1] by (simp add: h2_def os) blast
  next
    case False
    then show ?thesis by (simp add: h2_def split: option.split obj.split)
  qed
  have eq: "defaultHostVariable E hn m = put_absent VariableHostName (OStr hn)
      (put_absent VariableInventoryName (OStr hn) h2)"
    unfolding defaultHostVariable_def Let_def h2_def h1_def by (rule refl)
  have h3: "objsM (put_absent VariableHostName (OStr hn)
      (put_absent VariableInventoryName (OStr hn) h2)) \<subseteq> objsM h2"
    by (rule order_trans [OF objsM_put_absent objsM_put_absent]) simp_all
  show ?thesis unfolding eq by (rule order_trans [OF h3 order_trans [OF h2 h1]])
qed

lemma getHostsVariable_alive:
  assumes "getHostsVariable E v hns n = (es, n')" "alive n S" "storeObjs v \<subseteq> S"
  shows "n \<le> n' \<and> alive n' (S \<union> objsM es)"
  using assms
proof (induction hns arbitrary: n S es)
  case (Cons hn hns)
  obtain m n1 where m: "mergedHostVars E v hn n = (m, n1)" by fastforce
  obtain rest where r: "getHostsVariable E v hns (Suc n1) = (rest, n')"
      "es = (hn, OMap n1 (defaultHostVariable E hn m)) # rest"
    using Cons.prems(1) m by (auto split: prod.splits)
  let ?o = "OMap n1 (defaultHostVariable E hn m)"
  have 1: "n \<le> n1" "alive n1 (S \<union> objsM m)" using mergedHostVars_alive [OF m Cons.prems(2,3)] by auto
  have 2: "alive (Suc n1) (insert ?o (S \<union> objsM m))" using 1 by (intro alive_new) simp_all
  have "Suc n1 \<le> n' \<and> alive n' (insert ?o (S \<union> objsM m) \<union> objsM rest)"
    using Cons.prems(3) by (intro Cons.IH [OF r(1) 2]) auto
  then have 3: "Suc n1 \<le> n'" "alive n' (insert ?o (S \<union> objsM m) \<union> objsM rest)" by auto
  have "objs ?o \<subseteq> insert ?o (objsM m)" using objsM_default [of E hn m] by auto
  then have "S \<union> objsM es \<subseteq> insert ?o (S \<union> objsM m) \<union> objsM rest" by (simp add: r(2)) blast
  then show ?case using 1(1) 3(1) alive_mono [OF 3(2) order_refl] by simp
qed simp

lemma GetAllVariable_alive:
  assumes "GetAllVariable E hn v n = (es, n')" "alive n S" "storeObjs v \<subseteq> S"
  shows "n \<le> n' \<and> alive n' (S \<union> objsM es)"
proof -
  obtain hosts n1 where h: "getHostsVariable E v (keys (VHosts v)) n = (hosts, n1)" by fastforce
  have 1: "n \<le> n1" "alive n1 (S \<union> objsM hosts)" using getHostsVariable_alive [OF h assms(2,3)] by auto
  show ?thesis
  proof (cases "\<exists>i m. get hosts hn = Some (OMap i m)")
    case False
    then have "es = []" "n' = n1" using assms(1) h by (auto simp: GetAllVariable_def split: option.splits obj.splits)
    then show ?thesis using 1 alive_mono [of n1 "S \<union> objsM hosts" n1 S] by auto
  next
    case True
    then obtain i m where m: "get hosts hn = Some (OMap i m)" by blast
    obtain h1 n2 where h1: "Combine (Suc n1) m [(VariableGlobalHosts, OMap n1 hosts)] = (h1, n2)" by fastforce
    obtain g n3 where g: "alloc n2 (VMap (groupTable E (VInventory v))) = (g, n3)" by fastforce
    have last: "Combine n3 h1 [(VariableGroups, g)] = (es, n')"
      using assms(1) m h1 g by (simp add: GetAllVariable_def h)
    let ?S1 = "insert (OMap n1 hosts) (S \<union> objsM hosts)"
    have 2: "alive (Suc n1) ?S1" using 1 by (intro alive_new) simp_all
    have "objsM m \<subseteq> ?S1" using objsM_get [OF m] by auto
    then have 3: "Suc n1 \<le> n2 \<and> alive n2 (?S1 \<union> objsM h1)"
      by (intro combine_alive(2) [OF h1 2]) auto
    then have 4: "n2 \<le> n3 \<and> alive n3 ((?S1 \<union> objsM h1) \<union> objs g)"
      using alloc_alive(1) [OF g, of "?S1 \<union> objsM h1"] 3 by blast
    then have "n3 \<le> n' \<and> alive n' (((?S1 \<union> objsM h1) \<union> objs g) \<union> objsM es)"
      by (intro combine_alive(2) [OF last]) auto
    then show ?thesis using 1(1) 3 4 alive_mono [of n' _ n' "S \<union> objsM es"] by auto
  qed
qed

subsection \<open>What a merge function keeps\<close>

text \<open>
  The interface between merge functions and the store: from a store with consistent identities
  a merge function gives a copy whose objects are consistent with those of the store after its
  writes, it only adds to them, and configuration and inventory stay.
\<close>

locale merge_function =
  fixes f :: merge_fun
  assumes consistent: "f v = (e, nv, log) \<Longrightarrow> inj_on oid (storeObjs v) \<Longrightarrow>
      inj_on oid (storeObjs nv \<union> storeObjs (mutateValue log v))"
    and adds: "f v = (e, nv, log) \<Longrightarrow> inj_on oid (storeObjs v) \<Longrightarrow> t \<in> vals v \<Longrightarrow>
      vext (erase t) (erase (mutate log t))"

lemma merge_function_quiet:
  assumes "\<And>v. snd (snd (f v)) = []"
    and "\<And>v. inj_on oid (storeObjs v) \<Longrightarrow>
      inj_on oid (storeObjs (fst (snd (f v))) \<union> storeObjs v)"
  shows "merge_function f"
proof
  fix v e nv log
  assume f: "f v = (e, nv, log)" and inj: "inj_on oid (storeObjs v)"
  have log: "log = []" using assms(1) [of v] f by simp
  show "inj_on oid (storeObjs nv \<union> storeObjs (mutateValue log v))"
    using assms(2) [OF inj] f by (simp add: log)
  show "vext (erase t) (erase (mutate log t))" if "t \<in> vals v" for t
    by (simp add: log)
qed

lemma setRemote_vals: "vals (snd (setRemote data hns v)) \<subseteq> vals v \<union> snd ` set data"
proof (induction hns arbitrary: v)
  case (Cons hn hns)
  let ?v = "v\<lparr>VHosts := put hn ((host_of (VHosts v) hn)\<lparr>RemoteVars := data\<rparr>) (VHosts v)\<rparr>"
  have "vals ?v \<subseteq> vals v \<union> snd ` set data" by (rule vals_put_remote)
  then show ?case using Cons.IH [of ?v] by (simp split: if_split) blast
qed simp

lemma mergeDataHosts_alive:
  assumes "alive n S" "storeObjs v \<subseteq> S" "objsM data \<subseteq> S"
  shows "\<exists>n' S'. S \<subseteq> S' \<and> alive n' S' \<and> storeObjs (mergeDataHosts data hns n v) \<subseteq> S'"
  using assms
proof (induction hns arbitrary: n S v)
  case Nil
  then show ?case by (intro exI [of _ n] exI [of _ S]) simp
next
  case (Cons hn hns)
  let ?h = "host_of (VHosts v) hn"
  obtain vars n1 where c: "Combine n (RuntimeVars ?h) data = (vars, n1)" by fastforce
  define v1 where "v1 = v\<lparr>VHosts := put hn (?h\<lparr>RuntimeVars := vars\<rparr>) (VHosts v)\<rparr>"
  have "objsM (RuntimeVars ?h) \<subseteq> S"
    using order_trans [OF host_objs(2) Cons.prems(2)] .
  then have al: "alive n1 (S \<union> objsM vars)"
    using combine_alive(2) [OF c Cons.prems(1) _ Cons.prems(3)] by simp
  have "storeObjs v1 \<subseteq> storeObjs v \<union> objsM vars" unfolding v1_def by (rule storeObjs_put)
  then have "storeObjs v1 \<subseteq> S \<union> objsM vars" using Cons.prems(2) by (meson Un_mono order_refl order_trans)
  from Cons.IH [OF al this] obtain n' S' where
    "S \<union> objsM vars \<subseteq> S'" "alive n' S'" "storeObjs (mergeDataHosts data hns n1 v1) \<subseteq> S'"
    using le_supI1 [OF Cons.prems(3)] by auto
  moreover have "mergeDataHosts data (hn # hns) n v = mergeDataHosts data hns n1 v1"
    by (simp add: c v1_def)
  ultimately show ?case by (intro exI [of _ n'] exI [of _ S']) simp
qed

text \<open>The loop over the nodes of a host: \<open>T\<close> are the objects of the store behind the copy.\<close>

definition merges_ok :: "nat \<Rightarrow> vvalue \<Rightarrow> obj list \<Rightarrow> vvalue \<Rightarrow> nat \<Rightarrow> obj set \<Rightarrow> bool" where
  "merges_ok n v log v' n' T \<longleftrightarrow>
     alive n' (storeObjs v' \<union> allObjs (mutate log ` T)) \<and>
     (\<forall>t\<in>T. vext (erase t) (erase (mutate log t)))"

lemma parse_step:
  assumes "parseYamlNode E node \<lparr>yctx = ctx, ylog = [], ynext = n\<rparr> = (r, w)"
    and "alive n (objs ctx \<union> storeObjs v \<union> allObjs T)"
  shows "alive (ynext w) (objs (yctx w) \<union> storeObjs (mutateValue (ylog w) v) \<union> allObjs (mutate (ylog w) ` T)) \<and>
    (\<forall>t\<in>vals v \<union> T. vext (erase t) (erase (mutate (ylog w) t)))"
proof -
  have "walked \<lparr>yctx = ctx, ylog = [], ynext = n\<rparr> w"
    using walked_parse [of "\<lparr>yctx = ctx, ylog = [], ynext = n\<rparr>" E node] assms(1) by simp
  then have w: "yctx w = mutate (ylog w) ctx" "log_ok n ctx (ylog w) (ynext w)"
    by (auto simp: walked_def)
  let ?T = "insert ctx (vals v \<union> T)"
  have "alive n (allObjs ?T)" using assms(2) by (simp add: Un_assoc)
  then have "alive (ynext w) (allObjs (mutate (ylog w) ` ?T))"
      "\<forall>t\<in>?T. vext (erase t) (erase (mutate (ylog w) t))"
    using w(2) unfolding log_ok_def by blast+
  then show ?thesis by (simp add: w(1) vals_mutate image_Un Un_assoc)
qed

lemma merges_trans:
  assumes "merges_ok n v l v1 n1 T" "merges_ok n1 v1 l2 v2 n2 (mutate l ` T)"
  shows "merges_ok n v (l @ l2) v2 n2 T"
proof -
  have "vext (erase t) (erase (mutate l2 (mutate l t)))" if "t \<in> T" for t
    using assms that vext_trans [of "erase t" "erase (mutate l t)"] by (simp add: merges_ok_def)
  then show ?thesis using assms(2) by (simp add: merges_ok_def image_image)
qed

lemma alive_swap:
  assumes "alive n (((A \<union> B \<union> C) \<union> D) \<union> X)" "Y \<subseteq> B \<union> X"
  shows "alive n (A \<union> Y \<union> C)"
  by (rule alive_mono [OF assms(1) order_refl]) (use assms(2) in blast)

lemma mergeNodes_ok:
  assumes "mergeNodes E hn nodes ctx n v = (e, v', log, n')"
    and "alive n (objs ctx \<union> storeObjs v \<union> allObjs T)"
  shows "merges_ok n v log v' n' T"
  using assms
proof (induction nodes arbitrary: ctx n v e v' log n' T)
  case Nil
  then show ?case by (auto simp: merges_ok_def intro: alive_mono)
next
  case (Cons node nodes)
  show ?case
  proof (cases "IsZero node")
    case True
    then show ?thesis using Cons by simp
  next
    case False
    obtain r w where p: "parseYamlNode E (copyNode E node) \<lparr>yctx = ctx, ylog = [], ynext = n\<rparr> = (r, w)"
      by fastforce
    note ps = parse_step [OF p Cons.prems(2)]
    let ?v1 = "mutateValue (ylog w) v" and ?T1 = "mutate (ylog w) ` T"
    show ?thesis
    proof (cases r)
      case (Inl err)
      then have "v' = ?v1" "log = ylog w" "n' = ynext w" using Cons.prems(1) False p by auto
      then show ?thesis using ps by (auto simp: merges_ok_def intro: alive_mono)
    next
      case (Inr data)
      let ?h = "host_of (VHosts ?v1) hn"
      obtain d n1 where d: "allocM (ynext w) data = (d, n1)" by fastforce
      obtain vars n2 where c: "Combine n1 (RuntimeVars ?h) d = (vars, n2)" by fastforce
      let ?v2 = "?v1\<lparr>VHosts := put hn (?h\<lparr>RuntimeVars := vars\<rparr>) (VHosts ?v1)\<rparr>"
      obtain log2 where rec: "mergeNodes E hn nodes (yctx w) n2 ?v2 = (e, v', log2, n')"
          "log = ylog w @ log2"
        using Cons.prems(1) False p Inr d c by (auto simp: Let_def split: prod.splits)
      let ?S = "objs (yctx w) \<union> storeObjs ?v1 \<union> allObjs ?T1"
      have a1: "alive n1 (?S \<union> objsM d)" using alloc_alive(3) [OF d] ps by blast
      have "objsM (RuntimeVars ?h) \<subseteq> ?S \<union> objsM d"
        using host_objs(2) [of ?v1 hn] by blast
      then have a2: "alive n2 ((?S \<union> objsM d) \<union> objsM vars)"
        using combine_alive(2) [OF c a1 _ Un_upper2] by simp
      have sub: "storeObjs ?v2 \<subseteq> storeObjs ?v1 \<union> objsM vars" by (rule storeObjs_put)
      have a3: "alive n2 (objs (yctx w) \<union> storeObjs ?v2 \<union> allObjs ?T1)"
        by (rule alive_swap [OF a2 sub])
      then have "merges_ok n v (ylog w) ?v2 n2 T"
        unfolding merges_ok_def using ps alive_mono [OF a3 order_refl] by (simp add: Un_assoc)
      then show ?thesis unfolding rec(2) by (rule merges_trans) (rule Cons.IH [OF rec(1) a3])
    qed
  qed
qed

lemma mergeRuntimeHosts_ok:
  assumes "mergeRuntimeHosts E nodes hns n v = (e, v', log)"
    and "alive n (storeObjs v \<union> allObjs T)"
  shows "\<exists>n'. merges_ok n v log v' n' T"
  using assms
proof (induction hns arbitrary: n v e v' log T)
  case Nil
  then show ?case by (auto simp: merges_ok_def)
next
  case (Cons hn hns)
  obtain vars n1 where g: "GetAllVariable E hn v n = (vars, n1)" by fastforce
  obtain e1 v1 l1 n2 where m: "mergeNodes E hn nodes (OMap n1 vars) (Suc n1) v = (e1, v1, l1, n2)"
    by (metis prod.collapse)
  have "alive n1 ((storeObjs v \<union> allObjs T) \<union> objsM vars)"
    using GetAllVariable_alive [OF g Cons.prems(2)] by blast
  from alive_new [OF this, of "OMap n1 vars"]
  have "alive (Suc n1) (objs (OMap n1 vars) \<union> storeObjs v \<union> allObjs T)"
    by (rule alive_mono [OF _ order_refl]) auto
  note ok1 = mergeNodes_ok [OF m this]
  show ?case
  proof (cases e1)
    case (Some err)
    then have "v' = v1" "log = l1" using Cons.prems(1) g m by auto
    then show ?thesis using ok1 by (auto simp: merges_ok_def)
  next
    case None
    obtain l2 where rec: "mergeRuntimeHosts E nodes hns n2 v1 = (e, v', l2)" "log = l1 @ l2"
      using Cons.prems(1) g m None by (auto split: prod.splits)
    have "alive n2 (storeObjs v1 \<union> allObjs (mutate l1 ` T))" using ok1 by (simp add: merges_ok_def)
    from Cons.IH [OF rec(1) this] ok1 show ?thesis unfolding rec(2)
      using merges_trans [of n v l1 v1 n2 T] by (meson merges_ok_def)
  qed
qed

lemma merges_result:
  assumes "merges_ok n v log v' n' (vals v)"
  shows "inj_on oid (storeObjs v' \<union> storeObjs (mutateValue log v)) \<and>
    (\<forall>t\<in>vals v. vext (erase t) (erase (mutate log t)))"
  using assms by (simp add: merges_ok_def alive_def vals_mutate)

interpretation remote: merge_function "MergeRemoteVariable data hostnames" for data hostnames
proof (rule merge_function_quiet)
  fix v
  show "snd (snd (MergeRemoteVariable data hostnames v)) = []"
    by (simp add: MergeRemoteVariable_def split: prod.split)
  assume inj: "inj_on oid (storeObjs v)"
  obtain d n where d: "allocM (freshId v) data = (d, n)" by fastforce
  have "alive n (storeObjs v \<union> objsM d)" using alloc_alive(3) [OF d alive_fresh [OF inj]] by simp
  moreover have "storeObjs (snd (setRemote d hostnames v)) \<subseteq> allObjs (vals v \<union> snd ` set d)"
    by (rule UN_mono [OF setRemote_vals order_refl])
  ultimately show "inj_on oid (storeObjs (fst (snd (MergeRemoteVariable data hostnames v))) \<union> storeObjs v)"
    by (simp add: MergeRemoteVariable_def d UN_Un alive_def split: prod.split)
       (metis (no_types, lifting) Un_upper1 inj_on_subset le_supI snd_conv)
qed

interpretation result: merge_function "MergeResultVariable r" for r
  by (rule merge_function_quiet) (simp_all add: MergeResultVariable_def vals_def)

interpretation runtime: merge_function "MergeRuntimeVariable E nodes hosts" for E nodes hosts
proof -
  have ok: "inj_on oid (storeObjs nv \<union> storeObjs (mutateValue log v)) \<and>
      (\<forall>t\<in>vals v. vext (erase t) (erase (mutate log t)))"
    if f: "MergeRuntimeVariable E nodes hosts v = (e, nv, log)" and inj: "inj_on oid (storeObjs v)"
    for v e nv log
  proof (cases "nodes = []")
    case True
    then show ?thesis using f inj by (simp add: MergeRuntimeVariable_def)
  next
    case False
    then have run: "mergeRuntimeHosts E nodes hosts (freshId v) v = (e, nv, log)"
      using f by (simp add: MergeRuntimeVariable_def)
    have "alive (freshId v) (storeObjs v \<union> storeObjs v)" using alive_fresh [OF inj] by simp
    from mergeRuntimeHosts_ok [OF run this] show ?thesis using merges_result by blast
  qed
  then show "merge_function (MergeRuntimeVariable E nodes hosts)"
    by (unfold_locales) blast+
qed

interpretation hosts_runtime: merge_function "MergeHostsRuntimeVariable E node hostname hosts"
  for E node hostname hosts
proof -
  have ok: "inj_on oid (storeObjs nv \<union> storeObjs (mutateValue log v)) \<and>
      (\<forall>t\<in>vals v. vext (erase t) (erase (mutate log t)))"
    if f: "MergeHostsRuntimeVariable E node hostname hosts v = (e, nv, log)"
      and inj: "inj_on oid (storeObjs v)" for v e nv log
  proof (cases "IsZero node")
    case True
    then show ?thesis using f inj by (simp add: MergeHostsRuntimeVariable_def)
  next
    case False
    obtain ctx n where g: "GetAllVariable E hostname v (freshId v) = (ctx, n)" by fastforce
    obtain r w where p: "parseYamlNode E node \<lparr>yctx = OMap n ctx, ylog = [], ynext = Suc n\<rparr> = (r, w)"
      by fastforce
    have "alive n (storeObjs v \<union> objsM ctx)"
      using GetAllVariable_alive [OF g alive_fresh [OF inj] order_refl] by simp
    from alive_new [OF this, of "OMap n ctx"]
    have "alive (Suc n) (objs (OMap n ctx) \<union> storeObjs v \<union> allObjs (vals v))"
      by (rule alive_mono [OF _ order_refl]) auto
    note ps = parse_step [OF p this]
    let ?v1 = "mutateValue (ylog w) v"
    have al: "alive (ynext w) (storeObjs ?v1)"
      by (rule alive_mono [OF conjunct1 [OF ps] order_refl le_supI1 [OF Un_upper2]])
    show ?thesis
    proof (cases r)
      case (Inl err)
      then have "nv = ?v1" "log = ylog w" using f False g p by (auto simp: MergeHostsRuntimeVariable_def)
      then show ?thesis using al ps by (auto simp: alive_def)
    next
      case (Inr data)
      obtain d n1 where d: "allocM (ynext w) data = (d, n1)" by fastforce
      have eq: "nv = mergeDataHosts d hosts n1 ?v1" "log = ylog w"
        using f False g p Inr d by (auto simp: MergeHostsRuntimeVariable_def)
      have "alive n1 (storeObjs ?v1 \<union> objsM d)" using alloc_alive(3) [OF d al] by simp
      from mergeDataHosts_alive [OF this Un_upper1 Un_upper2, of hosts] obtain n' S' where
        "storeObjs ?v1 \<union> objsM d \<subseteq> S'" "alive n' S'"
        "storeObjs (mergeDataHosts d hosts n1 ?v1) \<subseteq> S'" by metis
      then have "storeObjs nv \<union> storeObjs ?v1 \<subseteq> S'" "inj_on oid S'"
        by (simp_all add: alive_def eq(1))
      then have "inj_on oid (storeObjs nv \<union> storeObjs ?v1)" by (rule inj_on_subset [rotated])
      moreover have "\<forall>t\<in>vals v. vext (erase t) (erase (mutate (ylog w) t))" using ps by simp
      ultimately show ?thesis by (simp add: eq(2))
    qed
  qed
  then show "merge_function (MergeHostsRuntimeVariable E node hostname hosts)"
    by (unfold_locales) blast+
qed

subsection \<open>The store of a run\<close>

text \<open>What a file says is below what the memory says: the memory may only know more.\<close>

definition fileBelow :: "hostFile \<Rightarrow> host \<Rightarrow> bool" where
  "fileBelow d h \<longleftrightarrow>
     vext (VMap (FRemote d)) (VMap (eraseM (RemoteVars h))) \<and>
     vext (VMap (FRuntime d)) (VMap (eraseM (RuntimeVars h)))"

definition store_ok :: "variable \<Rightarrow> bool" where
  "store_ok v \<longleftrightarrow>
     inj_on oid (storeObjs (vval v)) \<and>
     (\<forall>hn d. get (vsource v) hn = Some d \<longrightarrow>
        (\<exists>h. get (VHosts (vval v)) hn = Some h \<and> fileBelow d h))"

definition same_frame :: "variable \<Rightarrow> variable \<Rightarrow> bool" where
  "same_frame v v' \<longleftrightarrow>
     Config (vval v') = Config (vval v) \<and> VInventory (vval v') = VInventory (vval v) \<and>
     fst ` set (VHosts (vval v')) = fst ` set (VHosts (vval v))"

definition files_below :: "variable \<Rightarrow> bool" where
  "files_below v \<longleftrightarrow>
     (\<forall>hn d. get (vsource v) hn = Some d \<longrightarrow>
        (\<exists>h. get (VHosts (vval v)) hn = Some h \<and> fileBelow d h))"

lemma store_ok_parts: "store_ok v \<longleftrightarrow> inj_on oid (storeObjs (vval v)) \<and> files_below v"
  by (simp add: store_ok_def files_below_def)

lemma fileBelow_self: "fileBelow (hostFileOf h) h"
  by (simp add: fileBelow_def hostFileOf_def)

lemma vext_entries:
  assumes "\<And>t. t \<in> snd ` set m \<Longrightarrow> vext (erase t) (erase (g t))"
  shows "vext (VMap (eraseM m)) (VMap (eraseM (map (\<lambda>p. (fst p, g (snd p))) m)))"
proof (rule vext_map)
  fix k v assume "get (eraseM m) k = Some v"
  then obtain t where t: "get m k = Some t" "v = erase t" by auto
  have "t \<in> snd ` set m" using map_of_SomeD [OF t(1)] by force
  moreover have "get (map (\<lambda>p. (fst p, g (snd p))) m) k = Some (g t)"
    using t(1) by (induction m) auto
  ultimately show "\<exists>w. get (eraseM (map (\<lambda>p. (fst p, g (snd p))) m)) k = Some w \<and> vext v w"
    using assms t(2) by (simp del: map_map)
qed

lemma fileBelow_mutate:
  assumes "fileBelow d h" "\<And>t. t \<in> hostVals h \<Longrightarrow> vext (erase t) (erase (mutate log t))"
  shows "fileBelow d (mutateHost log h)"
proof -
  have "vext (VMap (eraseM (RemoteVars h))) (VMap (eraseM (mutateM log (RemoteVars h))))"
    "vext (VMap (eraseM (RuntimeVars h))) (VMap (eraseM (mutateM log (RuntimeVars h))))"
    using assms(2) by (auto intro!: vext_entries simp: hostVals_def simp del: map_map)
  then show ?thesis
    using assms(1) vext_trans by (auto simp: fileBelow_def mutateHost_def simp del: map_map)
qed

lemma get_mutateValue: "get (VHosts (mutateValue log v)) hn = map_option (mutateHost log) (get (VHosts v) hn)"
proof -
  have "get (map (\<lambda>p. (fst p, mutateHost log (snd p))) m) hn = map_option (mutateHost log) (get m hn)" for m
    by (induction m) auto
  then show ?thesis by (simp add: mutateValue_def)
qed

lemma files_below_mutate:
  assumes "files_below v" "\<And>t. t \<in> vals (vval v) \<Longrightarrow> vext (erase t) (erase (mutate log t))"
  shows "files_below (v\<lparr>vval := mutateValue log (vval v)\<rparr>)"
  unfolding files_below_def
proof (intro allI impI)
  fix hn d assume "get (vsource (v\<lparr>vval := mutateValue log (vval v)\<rparr>)) hn = Some d"
  then obtain h where h: "get (VHosts (vval v)) hn = Some h" "fileBelow d h"
    using assms(1) by (auto simp: files_below_def)
  have "hostVals h \<subseteq> vals (vval v)" using map_of_SomeD [OF h(1)] by (force simp: vals_def)
  then have "fileBelow d (mutateHost log h)" using assms(2) by (intro fileBelow_mutate [OF h(2)]) blast
  then show "\<exists>h. get (VHosts (vval (v\<lparr>vval := mutateValue log (vval v)\<rparr>))) hn = Some h \<and> fileBelow d h"
    by (simp add: get_mutateValue h(1))
qed

lemma get_filter_other: "get (filter (\<lambda>p. fst p \<noteq> k) m) k' = (if k' = k then None else get m k')"
  by (induction m) auto

lemma files_below_filter: "files_below v \<Longrightarrow> files_below (v\<lparr>vsource := filter (\<lambda>p. fst p \<noteq> hn) (vsource v)\<rparr>)"
  by (simp add: files_below_def get_filter_other)

text \<open>
  How the writing of the files ends when a write fails: each host that was written has the new
  variables in memory and file, the others are as they were, and so is the memory of the host whose
  write failed.
\<close>

lemma syncHosts_failed:
  assumes "syncHosts E nv hns v = (Some e, v')" "distinct hns"
  shows "\<exists>bad. e = WriteError bad \<and> bad \<in> set hns \<and>
    (\<forall>hn. get (VHosts (vval v')) hn = get (VHosts (vval v)) hn \<and>
            (hn \<noteq> bad \<longrightarrow> get (vsource v') hn = get (vsource v) hn) \<or>
          hn \<noteq> bad \<and> hn \<in> set hns \<and> get (VHosts (vval v')) hn = Some (host_of (VHosts nv) hn) \<and>
            get (vsource v') hn = Some (hostFileOf (host_of (VHosts nv) hn)))"
  using assms
proof (induction hns arbitrary: v)
  case (Cons hn hns)
  let ?nh = "host_of (VHosts nv) hn" and ?hv = "host_of (VHosts (vval v)) hn"
  let ?v1 = "\<lparr>vsource = put hn (hostFileOf ?nh) (vsource v),
              vval = (vval v)\<lparr>VHosts := put hn ?nh (VHosts (vval v))\<rparr>\<rparr>"
  let ?same = "deepEqualM (RemoteVars ?nh) (RemoteVars ?hv) \<and> deepEqualM (RuntimeVars ?nh) (RuntimeVars ?hv)"
  consider (skip) "syncHosts E nv hns v = (Some e, v')"
    | (fails) "e = WriteError hn" "VHosts (vval v') = VHosts (vval v)"
        "\<forall>k. k \<noteq> hn \<longrightarrow> get (vsource v') k = get (vsource v) k"
    | (written) "syncHosts E nv hns ?v1 = (Some e, v')"
    using Cons.prems(1)
    by (cases ?same; cases "writeFile E hn") (auto simp: Let_def get_filter_other)
  then show ?case
  proof cases
    case skip
    then show ?thesis using Cons.IH [OF skip] Cons.prems(2) by (metis distinct.simps(2) list.set_intros(2))
  next
    case fails
    then show ?thesis by auto
  next
    case written
    obtain bad where bad: "e = WriteError bad" "bad \<in> set hns"
      and other: "\<And>k. get (VHosts (vval v')) k = get (VHosts (vval ?v1)) k \<and>
            (k \<noteq> bad \<longrightarrow> get (vsource v') k = get (vsource ?v1) k) \<or>
          k \<noteq> bad \<and> k \<in> set hns \<and> get (VHosts (vval v')) k = Some (host_of (VHosts nv) k) \<and>
            get (vsource v') k = Some (hostFileOf (host_of (VHosts nv) k))"
      using Cons.IH [OF written] Cons.prems(2) by auto
    have "bad \<noteq> hn" using bad(2) Cons.prems(2) by auto
    show ?thesis
    proof (intro exI [of _ bad] conjI allI)
      fix k
      show "get (VHosts (vval v')) k = get (VHosts (vval v)) k \<and>
            (k \<noteq> bad \<longrightarrow> get (vsource v') k = get (vsource v) k) \<or>
          k \<noteq> bad \<and> k \<in> set (hn # hns) \<and> get (VHosts (vval v')) k = Some (host_of (VHosts nv) k) \<and>
            get (vsource v') k = Some (hostFileOf (host_of (VHosts nv) k))"
        using other [of k] \<open>bad \<noteq> hn\<close> by (cases "k = hn") auto
    qed (use bad in simp_all)
  qed
qed simp

text \<open>No merge adds or removes hosts, whatever its merge function does.\<close>

lemma keys_put_known: "get m k \<noteq> None \<Longrightarrow> keys (put k v m) = keys m"
  by (induction m) auto

lemma syncHosts_keys:
  "syncHosts E nv hns v = (e, v') \<Longrightarrow> set hns \<subseteq> fst ` set (VHosts (vval v)) \<Longrightarrow>
   keys (VHosts (vval v')) = keys (VHosts (vval v))"
proof (induction hns arbitrary: v)
  case (Cons hn hns)
  let ?nh = "host_of (VHosts nv) hn" and ?hv = "host_of (VHosts (vval v)) hn"
  have "get (VHosts (vval v)) hn \<noteq> None" using Cons.prems(2) by (auto simp: get_None_iff)
  note k = keys_put_known [OF this, of ?nh]
  then have sub: "set hns \<subseteq> fst ` set (put hn ?nh (VHosts (vval v)))" using Cons.prems(2) by auto
  let ?v1 = "\<lparr>vsource = put hn (hostFileOf ?nh) (vsource v),
              vval = (vval v)\<lparr>VHosts := put hn ?nh (VHosts (vval v))\<rparr>\<rparr>"
  consider "syncHosts E nv hns v = (e, v')" | "VHosts (vval v') = VHosts (vval v)" | "syncHosts E nv hns ?v1 = (e, v')"
    using Cons.prems(1)
    by (cases "deepEqualM (RemoteVars ?nh) (RemoteVars ?hv) \<and> deepEqualM (RuntimeVars ?nh) (RuntimeVars ?hv)";
        cases "writeFile E hn") (auto simp: Let_def)
  then show ?case
  proof cases
    case 1
    then show ?thesis using Cons.IH [OF 1] Cons.prems(2) by simp
  next
    case 3
    then show ?thesis using Cons.IH [OF 3] sub k by simp
  qed simp
qed simp

lemma MergeVar_keys: "MergeVar E f v = (e, v') \<Longrightarrow> keys (VHosts (vval v')) = keys (VHosts (vval v))"
proof -
  assume m: "MergeVar E f v = (e, v')"
  obtain err nv log where f: "f (vval v) = (err, nv, log)" by (metis prod.collapse)
  have "keys (VHosts (mutateValue log (vval v))) = keys (VHosts (vval v))"
    by (simp add: mutateValue_def comp_def)
  then show ?thesis
    using m f by (cases err) (auto simp: MergeVar_def syncSource_def dest!: syncHosts_keys)
qed

lemma syncHosts_frame:
  assumes "syncHosts E nv hns v = (e, v')" "set hns \<subseteq> fst ` set (VHosts (vval v))"
  shows "same_frame v v' \<and> Result (vval v') = Result (vval v) \<and>
    vals (vval v') \<subseteq> vals (vval v) \<union> vals nv \<and> (files_below v \<longrightarrow> files_below v')"
  using assms
proof (induction hns arbitrary: v)
  case Nil
  then show ?case by (simp add: same_frame_def)
next
  case (Cons hn hns)
  let ?nh = "host_of (VHosts nv) hn" and ?hv = "host_of (VHosts (vval v)) hn"
  let ?v1 = "\<lparr>vsource = put hn (hostFileOf ?nh) (vsource v),
              vval = (vval v)\<lparr>VHosts := put hn ?nh (VHosts (vval v))\<rparr>\<rparr>"
  show ?case
  proof (cases "deepEqualM (RemoteVars ?nh) (RemoteVars ?hv) \<and> deepEqualM (RuntimeVars ?nh) (RuntimeVars ?hv)
      \<or> writeFile E hn \<noteq> Written")
    case True
    then show ?thesis
      using Cons files_below_filter [of v hn]
      by (auto simp: Let_def same_frame_def split: if_splits write_answer.splits)
  next
    case False
    then have run: "syncHosts E nv hns ?v1 = (e, v')"
      using Cons.prems(1) by (auto simp: Let_def split: if_splits write_answer.splits)
    have sub: "set hns \<subseteq> fst ` set (VHosts (vval ?v1))"
      using Cons.prems(2) by auto
    have "files_below v \<longrightarrow> files_below ?v1"
      using fileBelow_self by (simp add: files_below_def)
    moreover have "insert hn (fst ` set (VHosts (vval v))) = fst ` set (VHosts (vval v))"
      using Cons.prems(2) by auto
    moreover have "vals (vval ?v1) \<subseteq> vals (vval v) \<union> vals nv"
      using vals_put [of hn ?nh "vval v"] hostVals_host_of [of nv hn] by auto
    ultimately show ?thesis
      using Cons.IH [OF run sub] by (auto simp: same_frame_def)
  qed
qed

context merge_function
begin

lemma MergeVar_frame:
  assumes "MergeVar E f v = (e, v')"
  shows "same_frame v v' \<and> (store_ok v \<longrightarrow> store_ok v')"
proof -
  obtain err nv log where f: "f (vval v) = (err, nv, log)" by (metis prod.collapse)
  let ?v1 = "v\<lparr>vval := mutateValue log (vval v)\<rparr>"
  have frame1: "same_frame v ?v1" by (simp add: same_frame_def)
  have ok1: "inj_on oid (storeObjs nv \<union> storeObjs (vval ?v1)) \<and> files_below ?v1" if "store_ok v"
    using consistent [OF f] files_below_mutate [of v log] adds [OF f] that by (simp add: store_ok_parts)
  show ?thesis
  proof (cases err)
    case (Some m)
    then have "v' = ?v1" using assms f by (simp add: MergeVar_def)
    then show ?thesis using frame1 ok1 by (auto simp: store_ok_parts inj_on_Un)
  next
    case None
    let ?v2 = "?v1\<lparr>vval := (vval ?v1)\<lparr>Result := Result nv\<rparr>\<rparr>"
    have run: "syncHosts E nv (range_keys (order E) (VHosts (vval ?v1))) ?v2 = (e, v')"
      using assms f None by (simp add: MergeVar_def syncSource_def)
    have "set (range_keys (order E) (VHosts (vval ?v1))) \<subseteq> fst ` set (VHosts (vval ?v2))" by simp
    note s = syncHosts_frame [OF run this]
    have v2: "vals (vval ?v2) = vals (vval ?v1)" "files_below ?v1 \<longrightarrow> files_below ?v2"
      by (simp_all add: vals_def files_below_def)
    have "storeObjs (vval v') \<subseteq> storeObjs (vval ?v1) \<union> storeObjs nv"
      using UN_mono [of "vals (vval v')" "vals (vval ?v2) \<union> vals nv" objs objs] s v2(1) by (simp add: UN_Un)
    then have "inj_on oid (storeObjs (vval v'))" if "store_ok v"
      using ok1 [OF that] by (auto intro: inj_on_subset simp: Un_commute)
    then show ?thesis
      using s v2(2) ok1 frame1 by (auto simp: store_ok_parts same_frame_def)
  qed
qed

text \<open>A merge function that fails leaves the files alone; the memory has only grown.\<close>

lemma MergeVar_failed:
  assumes "f (vval v) = (Some e, nv, log)" "inj_on oid (storeObjs (vval v))"
  shows "\<exists>v'. MergeVar E f v = (Some e, v') \<and> vsource v' = vsource v \<and>
    (\<forall>hn h. get (VHosts (vval v)) hn = Some h \<longrightarrow>
       (\<exists>h'. get (VHosts (vval v')) hn = Some h' \<and> fileBelow (hostFileOf h) h'))"
proof -
  have "fileBelow (hostFileOf h) (mutateHost log h)" if "get (VHosts (vval v)) hn = Some h" for hn h
  proof -
    have "hostVals h \<subseteq> vals (vval v)" using map_of_SomeD [OF that] by (force simp: vals_def)
    then show ?thesis using adds [OF assms] by (intro fileBelow_mutate [OF fileBelow_self]) blast
  qed
  then show ?thesis by (simp add: MergeVar_def assms(1) get_mutateValue)
qed

text \<open>A merge whose files cannot all be written.\<close>

lemma MergeVar_unwritten:
  assumes "f (vval v) = (None, nv, log)" "MergeVar E f v = (Some e, v')"
    and "inj_on oid (storeObjs (vval v))" "wf_map (VHosts (vval v))"
  shows "\<exists>bad. e = WriteError bad \<and>
    (\<forall>hn h. get (VHosts (vval v)) hn = Some h \<longrightarrow>
       (\<exists>h'. get (VHosts (vval v')) hn = Some h' \<and>
          (fileBelow (hostFileOf h) h' \<and> (hn \<noteq> bad \<longrightarrow> get (vsource v') hn = get (vsource v) hn) \<or>
           hn \<noteq> bad \<and> h' = host_of (VHosts nv) hn \<and> get (vsource v') hn = Some (hostFileOf h'))))"
proof -
  let ?v1 = "v\<lparr>vval := mutateValue log (vval v)\<rparr>"
  have keep: "fileBelow (hostFileOf h) (mutateHost log h)" if "get (VHosts (vval v)) hn = Some h" for hn h
  proof -
    have "hostVals h \<subseteq> vals (vval v)" using map_of_SomeD [OF that] by (force simp: vals_def)
    then show ?thesis using adds [OF assms(1, 3)] by (intro fileBelow_mutate [OF fileBelow_self]) blast
  qed
  have run: "syncHosts E nv (range_keys (order E) (VHosts (vval ?v1)))
      (?v1\<lparr>vval := (vval ?v1)\<lparr>Result := Result nv\<rparr>\<rparr>) = (Some e, v')"
    using assms(1, 2) by (simp add: MergeVar_def syncSource_def)
  have "wf_map (VHosts (vval ?v1))" using assms(4) by (simp add: wf_map_def mutateValue_def comp_def)
  then have "distinct (range_keys (order E) (VHosts (vval ?v1)))" by simp
  from syncHosts_failed [OF run this] obtain bad where bad: "e = WriteError bad"
    and other: "\<And>k. get (VHosts (vval v')) k = get (VHosts (vval ?v1)) k \<and>
            (k \<noteq> bad \<longrightarrow> get (vsource v') k = get (vsource v) k) \<or>
          k \<noteq> bad \<and> get (VHosts (vval v')) k = Some (host_of (VHosts nv) k) \<and>
            get (vsource v') k = Some (hostFileOf (host_of (VHosts nv) k))"
    by auto
  show ?thesis
  proof (intro exI [of _ bad] conjI allI impI bad)
    fix hn h assume h: "get (VHosts (vval v)) hn = Some h"
    have m: "get (VHosts (vval ?v1)) hn = Some (mutateHost log h)" by (simp add: get_mutateValue h)
    show "\<exists>h'. get (VHosts (vval v')) hn = Some h' \<and>
          (fileBelow (hostFileOf h) h' \<and> (hn \<noteq> bad \<longrightarrow> get (vsource v') hn = get (vsource v) hn) \<or>
           hn \<noteq> bad \<and> h' = host_of (VHosts nv) hn \<and> get (vsource v') hn = Some (hostFileOf h'))"
      using other [of hn] keep [OF h] unfolding m by blast
  qed
qed

end

subsection \<open>The layers of a host's variables\<close>

text \<open>The maps a host's variables are merged from, the lowest priority first.\<close>

definition layers :: "env \<Rightarrow> vvalue \<Rightarrow> string \<Rightarrow> val gomap list" where
  "layers E v hn =
     [eraseM (RemoteVars (host_of (VHosts v) hn)), eraseM (RuntimeVars (host_of (VHosts v) hn)),
      Extension2Variables E (InvVars (VInventory v))]
     @ [Extension2Variables E (Vars gv).
          gn \<leftarrow> range_keys (order E) (InvGroups (VInventory v)),
          gv \<leftarrow> (case get (InvGroups (VInventory v)) gn of None \<Rightarrow> [] | Some gv \<Rightarrow> [gv]),
          hn \<in> set (Hosts gv)]
     @ [Extension2Variables E (case get (InvHosts (VInventory v)) hn of None \<Rightarrow> [] | Some r \<Rightarrow> r),
        Extension2Variables E (Config v)]"

lemma erase_addRaw: "eraseM (fst (addRaw E raw m n)) = CombineVariables (eraseM m) (Extension2Variables E raw)"
proof -
  obtain vars n1 where a: "allocM n (Extension2Variables E raw) = (vars, n1)" by fastforce
  have "eraseM vars = Extension2Variables E raw"
    using erase_alloc(3) [of n "Extension2Variables E raw"] by (simp add: a)
  then show ?thesis by (simp add: addRaw_def a erase_combine)
qed

lemma erase_mergeGroupVars:
  "eraseM (fst (mergeGroupVars E iv hn gns m n)) =
     foldl CombineVariables (eraseM m)
       [Extension2Variables E (Vars gv).
          gn \<leftarrow> gns, gv \<leftarrow> (case get (InvGroups iv) gn of None \<Rightarrow> [] | Some gv \<Rightarrow> [gv]),
          hn \<in> set (Hosts gv)]"
proof (induction gns arbitrary: m n)
  case (Cons gn gns)
  show ?case
  proof (cases "get (InvGroups iv) gn")
    case None
    then show ?thesis using Cons.IH by simp
  next
    case (Some gv)
    obtain h1 n1 where "addRaw E (Vars gv) m n = (h1, n1)" by fastforce
    then show ?thesis
      using Some Cons.IH erase_addRaw [of E "Vars gv" m n] by simp
  qed
qed simp

lemma erase_mergedHostVars: "eraseM (fst (mergedHostVars E v hn n)) = foldl CombineVariables [] (layers E v hn)"
proof -
  let ?h = "host_of (VHosts v) hn" and ?iv = "VInventory v"
  obtain h1 n1 where h1: "Combine n [] (RemoteVars ?h) = (h1, n1)" by fastforce
  obtain h2 n2 where h2: "Combine n1 h1 (RuntimeVars ?h) = (h2, n2)" by fastforce
  obtain h3 n3 where h3: "addRaw E (InvVars ?iv) h2 n2 = (h3, n3)" by fastforce
  obtain h4 n4 where h4: "mergeGroupVars E ?iv hn (range_keys (order E) (InvGroups ?iv)) h3 n3 = (h4, n4)" by fastforce
  obtain h5 n5 where h5: "addRaw E (case get (InvHosts ?iv) hn of None \<Rightarrow> [] | Some r \<Rightarrow> r) h4 n4 = (h5, n5)" by fastforce
  have "eraseM h1 = CombineVariables [] (eraseM (RemoteVars ?h))"
    using erase_combine(2) [of n "[]" "RemoteVars ?h"] by (simp add: h1)
  moreover have "eraseM h2 = CombineVariables (eraseM h1) (eraseM (RuntimeVars ?h))"
    using erase_combine(2) [of n1 h1 "RuntimeVars ?h"] by (simp add: h2)
  moreover have "eraseM h3 = CombineVariables (eraseM h2) (Extension2Variables E (InvVars ?iv))"
    using erase_addRaw [of E "InvVars ?iv" h2 n2] by (simp add: h3)
  moreover note erase_mergeGroupVars [of E ?iv hn "range_keys (order E) (InvGroups ?iv)" h3 n3, unfolded h4 fst_conv]
  moreover have "eraseM h5 = CombineVariables (eraseM h4)
      (Extension2Variables E (case get (InvHosts ?iv) hn of None \<Rightarrow> [] | Some r \<Rightarrow> r))"
    using erase_addRaw [of E "case get (InvHosts ?iv) hn of None \<Rightarrow> [] | Some r \<Rightarrow> r" h4 n4] by (simp add: h5)
  ultimately show ?thesis
    by (simp add: mergedHostVars_def layers_def h1 h2 h3 h4 h5 erase_addRaw)
qed

lemma get_getHostsVariable:
  "hn \<in> set hns \<Longrightarrow> \<exists>i n'. get (fst (getHostsVariable E v hns n)) hn =
     Some (OMap i (defaultHostVariable E hn (fst (mergedHostVars E v hn n'))))"
proof (induction hns arbitrary: n)
  case (Cons h hns)
  obtain m n1 where m: "mergedHostVars E v h n = (m, n1)" by fastforce
  have "fst (getHostsVariable E v (h # hns) n) =
      (h, OMap n1 (defaultHostVariable E h m)) # fst (getHostsVariable E v hns (Suc n1))"
    by (simp add: m split: prod.split)
  then show ?case
    using Cons m by (cases "h = hn") (auto intro: exI [of _ n1] exI [of _ n])
qed simp

lemma get_path_cong: "get m k = get m' k \<Longrightarrow> get_path m (k # ks) = get_path m' (k # ks)"
  by simp

lemma put_absent_keeps: "get m k = Some v \<Longrightarrow> get (put_absent k' w m) k = Some v"
  by (auto simp: put_absent_def)

lemma defaultHostVariable_keeps:
  assumes "k \<noteq> VariableHostName" "get m k = Some v"
  shows "get (defaultHostVariable E hn m) k = Some v"
proof -
  define h1 where "h1 = (if hn = VariableLocalHost
      then put_absent VariableIPv6 (OStr (localIP E VariableIPv6))
             (put_absent VariableIPv4 (OStr (localIP E VariableIPv4)) m) else m)"
  define h2 where "h2 = (case get h1 VariableOS of
      Some (OMap i osd) \<Rightarrow>
        put VariableHostName (case get osd VariableOSHostName of None \<Rightarrow> ONil | Some n \<Rightarrow> n) h1
    | _ \<Rightarrow> h1)"
  have "get h1 k = Some v"
    using assms(2) by (simp add: h1_def put_absent_keeps)
  then have "get h2 k = Some v"
    using assms(1) by (simp add: h2_def split: option.split obj.split)
  moreover have "defaultHostVariable E hn m = put_absent VariableHostName (OStr hn)
      (put_absent VariableInventoryName (OStr hn) h2)"
    unfolding defaultHostVariable_def Let_def h2_def h1_def by (rule refl)
  ultimately show ?thesis by (simp add: put_absent_keeps)
qed

lemma AllVariables_known:
  assumes "hn \<in> fst ` set (VHosts v)" "k \<noteq> VariableGlobalHosts" "k \<noteq> VariableGroups"
  shows "\<exists>n. get (AllVariables E hn v) k =
    get (eraseM (defaultHostVariable E hn (fst (mergedHostVars E v hn n)))) k"
proof -
  obtain hosts n1 where h: "getHostsVariable E v (keys (VHosts v)) (freshId v) = (hosts, n1)" by fastforce
  obtain i n where hn: "get hosts hn = Some (OMap i (defaultHostVariable E hn (fst (mergedHostVars E v hn n))))"
    using get_getHostsVariable [of hn "keys (VHosts v)" E v "freshId v"] assms(1) by (auto simp: h)
  let ?m = "defaultHostVariable E hn (fst (mergedHostVars E v hn n))"
  obtain h1 n2 where h1: "Combine (Suc n1) ?m [(VariableGlobalHosts, OMap n1 hosts)] = (h1, n2)" by fastforce
  obtain g n3 where g: "alloc n2 (VMap (groupTable E (VInventory v))) = (g, n3)" by fastforce
  have "eraseM h1 = CombineVariables (eraseM ?m) (eraseM [(VariableGlobalHosts, OMap n1 hosts)])"
    using erase_combine(2) [of "Suc n1" ?m "[(VariableGlobalHosts, OMap n1 hosts)]"] unfolding h1 by simp
  moreover have "AllVariables E hn v = CombineVariables (eraseM h1) (eraseM [(VariableGroups, g)])"
    unfolding AllVariables_def GetAllVariable_def
    by (simp only: h hn h1 g Let_def prod.case option.case obj.case erase_combine)
  ultimately show ?thesis
    using assms(2,3) by (simp add: vars.get_merge_absent wf_map_def del: CombineVariables.simps) blast
qed

text \<open>The last layer that says anything about a path decides it, whatever the layer.\<close>

lemma last_layer_decides:
  assumes "hn \<in> fst ` set (VHosts v)" "layers E v hn = pre @ m # post"
    and "wf_vars m" "get_path m (k # ks) = Some w" "\<not> is_map w"
    and "\<forall>m'\<in>set post. wf_vars m' \<and> silent m' (k # ks)"
    and "k \<notin> {VariableHostName, VariableGlobalHosts, VariableGroups}"
  shows "get_path (AllVariables E hn v) (k # ks) = Some w"
proof -
  obtain n where known: "get (AllVariables E hn v) k =
      get (eraseM (defaultHostVariable E hn (fst (mergedHostVars E v hn n)))) k"
    using AllVariables_known [OF assms(1)] assms(7) by auto
  let ?m = "fst (mergedHostVars E v hn n)"
  have merged: "get_path (eraseM ?m) (k # ks) = Some w"
    unfolding erase_mergedHostVars assms(2) using assms(3-6) by (rule vars.foldl_last_wins)
  then obtain u where u: "get ?m k = Some u"
    by (auto split: option.splits)
  then have "get (AllVariables E hn v) k = get (eraseM ?m) k"
    using defaultHostVariable_keeps [OF _ u] assms(7) by (simp add: known)
  then show ?thesis using merged get_path_cong by metis
qed

text \<open>
  The documented sources: the dynamic ones (gathered facts, then what tasks set) and the static ones
  (inventory variables, the groups that list the host, the inventory variables of the host, the
  configuration), each list with the lowest priority first.
\<close>

definition dynamicVars :: "vvalue \<Rightarrow> string \<Rightarrow> val gomap list" where
  "dynamicVars v hn =
     [eraseM (RemoteVars (host_of (VHosts v) hn)), eraseM (RuntimeVars (host_of (VHosts v) hn))]"

definition staticVars :: "env \<Rightarrow> vvalue \<Rightarrow> string \<Rightarrow> val gomap list" where
  "staticVars E v hn =
     (let groups = filter (\<lambda>gv. hn \<in> set (Hosts gv))
            (List.map_filter (get (InvGroups (VInventory v))) (range_keys (order E) (InvGroups (VInventory v))))
      in [Extension2Variables E (InvVars (VInventory v))]
         @ map (\<lambda>gv. Extension2Variables E (Vars gv)) groups
         @ [Extension2Variables E (case get (InvHosts (VInventory v)) hn of None \<Rightarrow> [] | Some r \<Rightarrow> r)]
         @ [Extension2Variables E (Config v)])"

lemma group_layers:
  "[Extension2Variables E (Vars gv). gn \<leftarrow> gns, gv \<leftarrow> (case get gs gn of None \<Rightarrow> [] | Some gv \<Rightarrow> [gv]), hn \<in> set (Hosts gv)] =
   map (\<lambda>gv. Extension2Variables E (Vars gv)) (filter (\<lambda>gv. hn \<in> set (Hosts gv)) (List.map_filter (get gs) gns))"
  by (induction gns) (auto simp: List.map_filter_simps split: option.splits)

lemma layers_sources: "layers E v hn = dynamicVars v hn @ staticVars E v hn"
  by (simp add: layers_def dynamicVars_def staticVars_def group_layers)


subsection \<open>Reachable stores\<close>

text \<open>A run opens the store and merges: facts, variables of plays, blocks, roles and tasks, variables
  of other hosts, results. Any of the merges may fail.\<close>

inductive store_run :: "env \<Rightarrow> variable \<Rightarrow> variable \<Rightarrow> bool" for E where
  run_start: "NewVariable E config iv files = Inr v \<Longrightarrow> store_run E v v"
| run_facts: "store_run E v0 v \<Longrightarrow> MergeVar E (MergeRemoteVariable data hosts) v = (e, v') \<Longrightarrow> store_run E v0 v'"
| run_vars: "store_run E v0 v \<Longrightarrow> MergeVar E (MergeRuntimeVariable E nodes hosts) v = (e, v') \<Longrightarrow> store_run E v0 v'"
| run_host_vars: "store_run E v0 v \<Longrightarrow> MergeVar E (MergeHostsRuntimeVariable E node hn hosts) v = (e, v') \<Longrightarrow>
    store_run E v0 v'"
| run_result: "store_run E v0 v \<Longrightarrow> MergeVar E (MergeResultVariable r) v = (e, v') \<Longrightarrow> store_run E v0 v'"

definition all_zero :: "host gomap \<Rightarrow> bool" where
  "all_zero hs \<longleftrightarrow> (\<forall>p\<in>set hs. snd p = zero_host)"

lemma all_zero_put: "all_zero hs \<Longrightarrow> all_zero (put k zero_host hs)"
  by (induction hs) (auto simp: all_zero_def)

lemma fileRead_empty: "fileRead E files = Inr data \<Longrightarrow> (k, d) \<in> set data \<Longrightarrow> d = []"
  by (induction E files arbitrary: data rule: fileRead.induct) (auto simp: bind_res_Inr_conv split: if_splits option.splits nil_decode.splits)

lemma readHosts_empty:
  "(\<And>k d. (k, d) \<in> set data \<Longrightarrow> d = []) \<Longrightarrow> all_zero hs \<Longrightarrow> readHosts data n hs = Inr hs' \<Longrightarrow> all_zero hs'"
proof (induction data arbitrary: hs)
  case (Cons kd data)
  obtain k d where kd: "kd = (k, d)" by (cases kd)
  have "d = []" by (rule Cons.prems(1) [of k d]) (simp add: kd)
  then have "readHosts data n (put k zero_host hs) = Inr hs'"
    using Cons.prems(3) by (simp add: kd readSection_def zero_host_def)
  then show ?case using Cons.IH [of "put k zero_host hs"] Cons.prems(1,2) all_zero_put by auto
qed simp

lemma NewVariable_zero:
  assumes "NewVariable E config iv files = Inr v"
  shows "all_zero (VHosts (vval v)) \<and> vsource v = []"
proof -
  have zero: "all_zero (foldl (\<lambda>hs hn. put hn zero_host hs) hs gd)" if "all_zero hs" for hs gd
    using that by (induction gd arbitrary: hs) (auto simp: all_zero_put)
  obtain data gd hs where parts: "fileRead E files = Inr data"
      "readHosts data 0 (foldl (\<lambda>hs hn. put hn zero_host hs) [] gd) = Inr hs"
      "VHosts (vval v) = hs" "vsource v = []"
    using assms by (auto simp: NewVariable_def Let_def bind_res_Inr_conv)
  have "all_zero hs"
  proof (rule readHosts_empty [OF _ _ parts(2)])
    show "d = []" if "(k, d) \<in> set data" for k d using fileRead_empty [OF parts(1) that] .
    show "all_zero (foldl (\<lambda>hs hn. put hn zero_host hs) [] gd)" by (rule zero) (simp add: all_zero_def)
  qed
  then show ?thesis using parts(3,4) by simp
qed

lemma NewVariable_ok: "NewVariable E config iv files = Inr v \<Longrightarrow> store_ok v"
  using NewVariable_zero [of E config iv files v]
  by (auto simp: store_ok_def vals_def all_zero_def zero_host_def hostVals_def)

lemma NewVariable_wf: "NewVariable E config iv files = Inr v \<Longrightarrow> wf_map (VHosts (vval v))"
proof -
  have f: "wf_map (foldl (\<lambda>hs hn. put hn zero_host hs) hs gd)" if "wf_map hs" for hs and gd :: "string list"
    using that by (induction gd arbitrary: hs) auto
  have r: "wf_map hs'" if "readHosts data n hs = Inr hs'" "wf_map hs" for data n hs hs'
    using that
  proof (induction data arbitrary: n hs)
    case (Cons kd data)
    then show ?case by (cases kd) (auto simp: bind_res_Inr_conv Let_def case_prod_beta)
  qed simp
  show "NewVariable E config iv files = Inr v \<Longrightarrow> wf_map (VHosts (vval v))"
    using f [of "[]"] r by (fastforce simp: NewVariable_def Let_def bind_res_Inr_conv)
qed

lemma store_run_wf: "store_run E v0 v \<Longrightarrow> wf_map (VHosts (vval v))"
proof (induction rule: store_run.induct)
  case (run_start config iv files v)
  then show ?case by (rule NewVariable_wf)
qed (auto dest!: MergeVar_keys simp: wf_map_def)

text \<open>
  A run starts with no variables: when the store can be opened no host has facts or runtime
  variables (\<open>NewVariable_zero\<close>), since nothing of the files reaches the store.
\<close>

lemma store_run_ok: "store_run E v0 v \<Longrightarrow> store_ok v"
proof (induction rule: store_run.induct)
  case (run_start config iv files v)
  then show ?case by (rule NewVariable_ok)
next
  case (run_facts v0 v data hosts e v')
  then show ?case using remote.MergeVar_frame by blast
next
  case (run_vars v0 v nodes hosts e v')
  then show ?case using runtime.MergeVar_frame by blast
next
  case (run_host_vars v0 v node hn hosts e v')
  then show ?case using hosts_runtime.MergeVar_frame by blast
next
  case (run_result v0 v r e v')
  then show ?case using result.MergeVar_frame by blast
qed



subsection \<open>A concrete store\<close>

text \<open>A decoder that refuses a key given twice.\<close>

definition unique_map :: "ynode \<Rightarrow> string + val gomap" where
  "unique_map node =
     bind_res (node_map node) (\<lambda>m. if wf_map m then Inr m else Inl ''mapping key already defined'')"

text \<open>Two nodes of variables: \<open>app.port\<close> and \<open>app.mode\<close>, and one that contradicts the first.\<close>

definition port_node :: ynode where "port_node = yMap [(''app'', yMap [(''port'', yStr ''80'')])]"
definition mode_node :: ynode where "mode_node = yMap [(''app'', yMap [(''mode'', yStr ''x'')])]"
definition clash_node :: ynode where
  "clash_node = yMap [(''app'', yMap [(''mode'', yStr ''x''), (''port'', yMap [(''a'', yStr ''b'')])])]"

definition sample_text :: "ynode \<Rightarrow> string" where
  "sample_text n = (if n = port_node then ''port'' else if n = mode_node then ''mode''
                    else if n = clash_node then ''clash'' else [])"

definition sample_parse :: "string \<Rightarrow> string + ynode" where
  "sample_parse b = (if b = ''port'' then Inr port_node else if b = ''mode'' then Inr mode_node
                     else if b = ''clash'' then Inr clash_node else Inl ''unknown'')"

definition sample_env :: env where
  "sample_env =
     \<lparr>unmarshal = (\<lambda>raw. if raw = ''cfg'' then Some (VMap [(''zone'', VStr ''cn'')]) else None),
      engine = (\<lambda>ctx s. Inr ''true''), parseFloat = Some, decodeMap = unique_map, marshalNode = sample_text, unmarshalNode = sample_parse,
      order = (\<lambda>ks. ks), localIP = (\<lambda>t. ''10.0.0.1''), writeFile = (\<lambda>hn. Written),
      intoNilMap = (\<lambda>s. if s = prefixYAML then Ignored else Panics)\<rparr>"

definition sample_value :: vvalue where
  "sample_value =
     \<lparr>Config = ''cfg'', VInventory = sample_inventory,
      VHosts = [(''n1'', \<lparr>RemoteVars = [], RuntimeVars = [(''zone'', OStr ''task'')]\<rparr>)],
      Result = []\<rparr>"


text \<open>Where both kinds of sources speak, the configuration hides what a task has set.\<close>

lemma configuration_hides_runtime:
  "get_path (AllVariables sample_env ''n1'' sample_value) [''zone''] = Some (VStr ''cn'')"
  by code_simp

definition two_hosts :: Inventory where
  "two_hosts = \<lparr>InvHosts = [(''n1'', []), (''n2'', [])], InvVars = [], InvGroups = []\<rparr>"

definition old_file :: "string \<times> bool \<times> string option" where
  "old_file = (''n1.yaml'', False, Some prefixYAML)"

definition store0 :: variable where
  "store0 = \<lparr>vsource = [],
     vval = \<lparr>Config = [], VInventory = two_hosts,
             VHosts = [(''n1'', zero_host), (''n2'', zero_host), (''localhost'', zero_host)], Result = []\<rparr>\<rparr>"

lemma store0_new: "NewVariable sample_env [] two_hosts [old_file] = Inr store0"
  by code_simp

definition setVars :: "ynode \<Rightarrow> variable \<Rightarrow> var_error option \<times> variable" where
  "setVars node = MergeVar sample_env (MergeRuntimeVariable sample_env [node] [''n1''])"

definition addHostvars :: "ynode \<Rightarrow> variable \<Rightarrow> var_error option \<times> variable" where
  "addHostvars node = MergeVar sample_env (MergeHostsRuntimeVariable sample_env node ''n1'' [''n1'', ''n2''])"

definition appOf :: "string \<Rightarrow> variable \<Rightarrow> val option" where
  "appOf hn v = (case get (VHosts (vval v)) hn of None \<Rightarrow> None | Some h \<Rightarrow> get (eraseM (RuntimeVars h)) ''app'')"

definition fileApp :: "string \<Rightarrow> variable \<Rightarrow> val option" where
  "fileApp hn v = (case get (vsource v) hn of None \<Rightarrow> None | Some d \<Rightarrow> get (FRuntime d) ''app'')"

text \<open>
  Nested variables are shared where the code assumes copies. Three runs from the same
  store: a variable set inside an existing map reaches the memory but not the file of the host,
  although the merge succeeds; variables given to two hosts at once stay tied together, so setting
  one inside the map for the first host sets it for the second; and a merge that fails because of
  its second entry leaves the first one behind.
\<close>

lemma store_shares_nested_maps:
  "let (e1, v1) = setVars port_node store0; (e2, v2) = setVars mode_node v1;
       (e3, v3) = addHostvars port_node store0; (e4, v4) = setVars mode_node v3;
       (e5, v5) = setVars clash_node v1;
       both = VMap [(''port'', VStr ''80''), (''mode'', VStr ''x'')]; one = VMap [(''port'', VStr ''80'')]
   in e1 = None \<and> e2 = None \<and> appOf ''n1'' v2 = Some both \<and> fileApp ''n1'' v2 = Some one \<and>
      e3 = None \<and> e4 = None \<and> appOf ''n2'' v3 = Some one \<and> appOf ''n2'' v4 = Some both \<and>
      e5 \<noteq> None \<and> appOf ''n1'' v1 = Some one \<and> appOf ''n1'' v5 = Some both"
  by code_simp

lemma port_run: "store_run sample_env store0 (snd (setVars port_node store0))"
proof (rule run_vars [OF run_start [OF store0_new]])
  show "MergeVar sample_env (MergeRuntimeVariable sample_env [port_node] [''n1'']) store0 =
      (fst (setVars port_node store0), snd (setVars port_node store0))"
    unfolding setVars_def by (rule prod.collapse [symmetric])
qed

lemma mode_run: "store_run sample_env store0 (snd (setVars mode_node (snd (setVars port_node store0))))"
proof (rule run_vars [OF port_run])
  let ?v = "snd (setVars port_node store0)"
  show "MergeVar sample_env (MergeRuntimeVariable sample_env [mode_node] [''n1'']) ?v =
      (fst (setVars mode_node ?v), snd (setVars mode_node ?v))"
    unfolding setVars_def [of mode_node] by (rule prod.collapse [symmetric])
qed


text \<open>A store whose second host cannot be written.\<close>

definition full_env :: env where
  "full_env = sample_env\<lparr>writeFile := (\<lambda>hn. if hn = ''n2'' then Emptied else Written)\<rparr>"

lemma full_new: "NewVariable full_env [] two_hosts [old_file] = Inr store0"
  by code_simp


end
