(* ===== verification/Tasks.thy ===== *)
theory Tasks
  imports Variables Template
begin

text \<open>
  The task executor (\<^verbatim>\<open>pkg/executor/task_executor.go\<close>, \<^verbatim>\<open>api/core/v1alpha1/task_types.go\<close>): one
  task on a list of hosts, with loops, conditions, registered results, retries and the
  statistics of the playbook. The world of a run is a record: the variable store, the
  statistics, the tasks as the API server last saw them and the number of API calls made so
  far. The record \<open>xenv\<close> extends the environment of the store with what lies outside: template
  evaluation, the modules (they act on remote machines; they may change the store), the
  encoders, the answers of the API server (one bit per call) and the order in which the hosts
  of a task, which the source runs as parallel goroutines, take their turns. A host's run is
  one step of the model. Progress bars and log lines are not modelled. An error is its
  message, as the source compares messages with the empty string; \<^verbatim>\<open>errors.Join\<close> joins
  messages with a newline.
\<close>

datatype TaskPhase =
  PhaseNone | TaskPhasePending | TaskPhaseRunning | TaskPhaseSuccess | TaskPhaseFailed | TaskPhaseIgnored

record LoopResult =
  Item :: string
  LStdout :: string
  LStderr :: string
  LError :: string

record TaskHostResult =
  RHost :: string
  RError :: string
  LoopResults :: "LoopResult list"

record Task =
  TName :: string
  THosts :: "string list"
  TIgnoreError :: "bool option"
  TRetries :: int
  TWhen :: "string list"
  TFailedWhen :: "string list"
  TLoop :: "string option"
  TModule :: string
  TArgs :: string
  TRegister :: string
  TRegisterType :: string
  RestartCount :: int
  Phase :: TaskPhase
  HostResults :: "TaskHostResult list"

definition IsSucceed :: "Task \<Rightarrow> bool" where
  "IsSucceed t \<longleftrightarrow> Phase t = TaskPhaseSuccess \<or> Phase t = TaskPhaseIgnored"

definition IsFailed :: "Task \<Rightarrow> bool" where
  "IsFailed t \<longleftrightarrow> Phase t = TaskPhaseFailed \<and> TRetries t \<le> RestartCount t"

definition IsComplete :: "Task \<Rightarrow> bool" where
  "IsComplete t \<longleftrightarrow> IsSucceed t \<or> IsFailed t"

record PlaybookStatistics =
  Total :: nat
  Success :: nat
  Failed :: nat
  Ignored :: nat

type_synonym module_fun = "string \<Rightarrow> string \<Rightarrow> Task \<Rightarrow> variable \<Rightarrow> (string \<times> string \<times> string option) \<times> variable"

record xenv = env +
  marshalMap :: "val gomap \<Rightarrow> string + string"
  marshal :: "val \<Rightarrow> string option"
  decodeJSON :: "string \<Rightarrow> val option"
  decodeYAML :: "string \<Rightarrow> val option"
  findModule :: "string \<Rightarrow> module_fun option"
  clientOk :: "nat \<Rightarrow> bool"
  ownerOk :: "Task \<Rightarrow> bool"
  rnd :: "nat \<Rightarrow> nat \<Rightarrow> nat"
  parsePercent :: "string \<Rightarrow> nat \<Rightarrow> int option"
  sched :: "nat list \<Rightarrow> nat list"
  onlyTags :: "string list"
  skipTags :: "string list"

record world =
  wvar :: variable
  stats :: PlaybookStatistics
  tasks :: "Task list"
  calls :: nat

datatype exec_error =
    CreateFailed string | PatchFailed string | TaskRunFailed Task
  | MarshalFailed string | NoModule string | OwnerFailed string | VarFailed var_error
  | HostIsEmpty | SerialFailed string | ProjectFailed string | Joined exec_error exec_error

definition StdoutFailed :: string where "StdoutFailed = ''failed''"
definition StdoutSkip :: string where "StdoutSkip = ''skip''"
definition VariableItem :: string where "VariableItem = ''item''"

definition yaml_text :: "yaml_error \<Rightarrow> string" where
  "yaml_text e = (case e of
     OddMapping \<Rightarrow> ''mapping node has odd number of content nodes''
   | KeyNotScalar \<Rightarrow> ''map key must be scalar''
   | UnsupportedKind k \<Rightarrow> ''unsupported node kind''
   | BadBool s \<Rightarrow> ''failed to parse '' @ s @ '' to bool''
   | BadInt s \<Rightarrow> ''failed to parse '' @ s @ '' to int''
   | BadFloat s \<Rightarrow> ''failed to parse '' @ s @ '' to float''
   | TemplateError m \<Rightarrow> m
   | ExpectedMap p \<Rightarrow> ''expected map''
   | ExpectedSlice \<Rightarrow> ''expected slice''
   | DecodeError m \<Rightarrow> ''failed to decode node to map: '' @ m)"

definition err_text :: "var_error \<Rightarrow> string" where
  "err_text e = (case e of
     HostNotExist h \<Rightarrow> ''when merge source is remote. HostName '' @ h @ '' not exist''
   | ParseError e \<Rightarrow> yaml_text e
   | WriteError h \<Rightarrow> ''failed to write host '' @ h @ '' variable to source''
   | ReadError f \<Rightarrow> ''failed to unmarshal file '' @ f
   | TypeAssertion \<Rightarrow> ''type assertion failed''
   | ReadPanic f \<Rightarrow> ''reflect: reflect.Value.Set using unaddressable value'')"

fun join_err :: "string option \<Rightarrow> string option \<Rightarrow> string option" where
  "join_err None b = b"
| "join_err (Some a) None = Some a"
| "join_err (Some a) (Some b) = Some (a @ [char_of (10::nat)] @ b)"

definition blank :: "string \<Rightarrow> bool" where
  "blank s \<longleftrightarrow> TrimSpace s = []"

definition msg :: "string option \<Rightarrow> string" where
  "msg e = (case e of None \<Rightarrow> [] | Some m \<Rightarrow> m)"

subsection \<open>One module call\<close>

definition dealWhen :: "xenv \<Rightarrow> Task \<Rightarrow> val gomap \<Rightarrow> string + bool" where
  "dealWhen X t had =
     (if 0 < length (TWhen t)
      then (case ParseBool (engine X) had (TWhen t) of Inl e \<Rightarrow> Inl e | Inr ok \<Rightarrow> Inr (\<not> ok))
      else Inr False)"

definition dealFailedWhen :: "xenv \<Rightarrow> Task \<Rightarrow> val gomap \<Rightarrow> string option \<Rightarrow> string option" where
  "dealFailedWhen X t had err =
     (case err of
        Some e \<Rightarrow> Some e
      | None \<Rightarrow>
          (if 0 < length (TFailedWhen t)
           then (case ParseBool (engine X) had (TFailedWhen t) of
                   Inl e \<Rightarrow> Some (''failed to parse failed_when condition: '' @ e)
                 | Inr ok \<Rightarrow> (if ok then Some ''reach failed_when, failed'' else None))
           else None))"

text \<open>A value on its way into the variables: \<^verbatim>\<open>ConvertMap2Node\<close> (by way of text), then a merge for one host.\<close>

definition ConvertMap2Node :: "xenv \<Rightarrow> val gomap \<Rightarrow> string + ynode" where
  "ConvertMap2Node X m =
     (case marshalMap X m of
        Inl e \<Rightarrow> Inl (''failed to marshal map to yaml: '' @ e)
      | Inr data \<Rightarrow>
          (case unmarshalNode X data of
             Inl e \<Rightarrow> Inl (''failed to unmarshal yaml to node: '' @ e)
           | Inr node \<Rightarrow> Inr node))"

definition setVar :: "xenv \<Rightarrow> string \<Rightarrow> val \<Rightarrow> string \<Rightarrow> variable \<Rightarrow> string option \<times> variable" where
  "setVar X key x host v =
     (case ConvertMap2Node X [(key, x)] of
        Inl e \<Rightarrow> (Some e, v)
      | Inr node \<Rightarrow>
          (case MergeVar (env.truncate X) (MergeRuntimeVariable (env.truncate X) [node] [host]) v of
             (e, v') \<Rightarrow> (map_option err_text e, v')))"

definition runModule ::
  "xenv \<Rightarrow> Task \<Rightarrow> string \<Rightarrow> variable \<Rightarrow> (string \<times> string \<times> val \<times> string option) \<times> variable" where
  "runModule X t host v =
     (let had = AllVariables (env.truncate X) host (vval v)
      in case dealWhen X t had of
           Inl e \<Rightarrow> ((StdoutFailed, [], VNil, Some e), v)
         | Inr True \<Rightarrow> ((StdoutSkip, [], VNil, None), v)
         | Inr False \<Rightarrow>
             (case findModule X (TModule t) of
                None \<Rightarrow> ((StdoutFailed, [], VNil, Some ''invalid memory address or nil pointer dereference''), v)
              | Some f \<Rightarrow>
                  (let ((stdout, stderr, resErr), v') = f (TArgs t) host t v;
                       rendered = (case get had VariableItem of None \<Rightarrow> VNil | Some x \<Rightarrow> x)
                   in ((stdout, stderr, rendered, dealFailedWhen X t had resErr), v'))))"

definition executeModule ::
  "xenv \<Rightarrow> Task \<Rightarrow> val \<Rightarrow> string \<Rightarrow> variable \<Rightarrow> (string \<times> string \<times> val \<times> string option) \<times> variable" where
  "executeModule X t item host v =
     (if item = VNil then runModule X t host v
      else case setVar X VariableItem item host v of
             (Some e, v1) \<Rightarrow> ((StdoutFailed, [], VNil, Some e), v1)
           | (None, v1) \<Rightarrow>
               (let ((stdout, stderr, rendered, resErr), v2) = runModule X t host v1
                in case setVar X VariableItem VNil host v2 of
                     (Some e, v3) \<Rightarrow> ((stdout, stderr, rendered, Some e), v3)
                   | (None, v3) \<Rightarrow> ((stdout, stderr, rendered, resErr), v3)))"

subsection \<open>One host\<close>

definition SliceVar :: "xenv \<Rightarrow> val gomap \<Rightarrow> val gomap \<Rightarrow> string \<Rightarrow> string + val list" where
  "SliceVar X ctx args key =
     (case get args key of
        None \<Rightarrow> Inl (''cannot find variable '' @ key)
      | Some (VList valv) \<Rightarrow> Inr valv
      | Some (VStr valv) \<Rightarrow>
          (case ParseFunc (engine X) ctx valv of
             Inl e \<Rightarrow> Inl e
           | Inr as \<Rightarrow>
               (case unmarshal X as of
                  Some (VList arr) \<Rightarrow> Inr arr
                | Some VNil \<Rightarrow> Inr []
                | _ \<Rightarrow> Inr [VStr as]))
      | Some _ \<Rightarrow> Inl (''unsupported variable '' @ key @ '' type''))"

definition dealLoop :: "xenv \<Rightarrow> Task \<Rightarrow> val gomap \<Rightarrow> string + val list" where
  "dealLoop X t ha =
     (case TLoop t of
        None \<Rightarrow> Inr [VNil]
      | Some raw \<Rightarrow>
          (case SliceVar X ha (Extension2Variables (env.truncate X) raw) ''raw'' of
             Inl e \<Rightarrow> Inl (''failed to parse loop items: '' @ e)
           | Inr items \<Rightarrow> Inr items))"

fun runItems ::
  "xenv \<Rightarrow> Task \<Rightarrow> string \<Rightarrow> val list \<Rightarrow> variable \<Rightarrow> LoopResult list \<times> variable" where
  "runItems X t host [] v = ([], v)"
| "runItems X t host (item # items) v =
     (let ((stdout, stderr, rendered, exeErr), v1) = executeModule X t item host v;
          raw = (if rendered = VNil then []
                 else (case marshal X rendered of None \<Rightarrow> [] | Some bs \<Rightarrow> bs));
          r = \<lparr>Item = raw, LStdout = stdout, LStderr = stderr, LError = msg exeErr\<rparr>;
          (rs, v2) = runItems X t host items v1
      in (r # rs, v2))"

definition parseStdout :: "xenv \<Rightarrow> Task \<Rightarrow> string \<Rightarrow> val" where
  "parseStdout X t s =
     (if TRegisterType t = ''json''
      then (case decodeJSON X s of None \<Rightarrow> VStr s | Some out \<Rightarrow> out)
      else if TRegisterType t = ''yaml'' \<or> TRegisterType t = ''yml''
      then (case decodeYAML X s of None \<Rightarrow> VStr s | Some out \<Rightarrow> out)
      else VStr (TrimRight (char_of (10::nat)) s))"

definition registerValue :: "xenv \<Rightarrow> Task \<Rightarrow> LoopResult list \<Rightarrow> val" where
  "registerValue X t rs =
     (case rs of
        [r] \<Rightarrow>
          (if Item r = []
           then VMap [(''stdout'', parseStdout X t (LStdout r)), (''stderr'', VStr (LStderr r)),
                      (''error'', VStr (LError r))]
           else VList [VMap [(''item'', VStr (Item r)), (''stdout'', parseStdout X t (LStdout r)),
                             (''stderr'', VStr (LStderr r)), (''error'', VStr (LError r))]])
      | _ \<Rightarrow>
          VList (map (\<lambda>r. VMap [(''item'', VStr (Item r)), (''stdout'', parseStdout X t (LStdout r)),
                                (''stderr'', VStr (LStderr r)), (''error'', VStr (LError r))]) rs))"

definition dealRegister ::
  "xenv \<Rightarrow> Task \<Rightarrow> string \<Rightarrow> LoopResult list \<Rightarrow> variable \<Rightarrow> string option \<times> variable" where
  "dealRegister X t host rs v =
     (let resErr = (if list_ex (\<lambda>r. \<not> blank (LError r)) rs then Some ''module run failed'' else None)
      in if TRegister t = [] then (resErr, v)
         else (case setVar X (TRegister t) (registerValue X t rs) host v of
                 (e, v') \<Rightarrow> (join_err resErr e, v')))"

definition execTaskHost :: "xenv \<Rightarrow> Task \<Rightarrow> string \<Rightarrow> variable \<Rightarrow> TaskHostResult \<times> variable" where
  "execTaskHost X t h v =
     (let had = AllVariables (env.truncate X) h (vval v);
          (resErr, rs, v1) =
            (case dealLoop X t had of
               Inl e \<Rightarrow> (Some e, [], v)
             | Inr items \<Rightarrow> (let (rs, v1) = runItems X t h items v in (None, rs, v1)));
          (regErr, v2) = dealRegister X t h rs v1
      in (\<lparr>RHost = h, RError = msg (join_err resErr regErr), LoopResults = rs\<rparr>, v2))"

subsection \<open>All hosts, retries, statistics\<close>

definition schedule :: "xenv \<Rightarrow> nat \<Rightarrow> nat list" where
  "schedule X n =
     (let is = sched X [0..<n] in if distinct is \<and> set is = set [0..<n] then is else [0..<n])"

fun runHosts ::
  "xenv \<Rightarrow> Task \<Rightarrow> nat list \<Rightarrow> TaskHostResult list \<Rightarrow> variable \<Rightarrow> TaskHostResult list \<times> variable" where
  "runHosts X t [] rs v = (rs, v)"
| "runHosts X t (i # is) rs v =
     (let (r, v') = execTaskHost X t (THosts t ! i) v in runHosts X t is (rs[i := r]) v')"

definition zero_result :: TaskHostResult where
  "zero_result = \<lparr>RHost = [], RError = [], LoopResults = []\<rparr>"

definition execTask :: "xenv \<Rightarrow> Task \<Rightarrow> variable \<Rightarrow> Task \<times> variable" where
  "execTask X t v =
     (let n = length (THosts t);
          (rs, v') = runHosts X t (schedule X n) (replicate n zero_result) v;
          phase = (if list_ex (\<lambda>data. RError data \<noteq> []) rs
                   then (if TIgnoreError t = Some True then TaskPhaseIgnored else TaskPhaseFailed)
                   else TaskPhaseSuccess)
      in (t\<lparr>HostResults := rs, Phase := phase\<rparr>, v'))"

lemma execTask_fields [simp]:
  "TRetries (fst (execTask X t v)) = TRetries t"
  "RestartCount (fst (execTask X t v)) = RestartCount t"
  "THosts (fst (execTask X t v)) = THosts t"
  "TIgnoreError (fst (execTask X t v)) = TIgnoreError t"
  "TName (fst (execTask X t v)) = TName t"
  by (simp_all add: execTask_def Let_def split: prod.split)

lemma execTask_phase:
  "Phase (fst (execTask X t v)) \<in> {TaskPhaseSuccess, TaskPhaseIgnored, TaskPhaseFailed}"
  by (simp add: execTask_def Let_def split: prod.split)

definition patch :: "xenv \<Rightarrow> Task \<Rightarrow> world \<Rightarrow> bool \<times> world" where
  "patch X t w =
     (let ok = clientOk X (calls w)
      in (ok, w\<lparr>calls := calls w + 1, tasks := (if ok then t # tasks w else tasks w)\<rparr>))"

function runTaskLoop :: "xenv \<Rightarrow> Task \<Rightarrow> world \<Rightarrow> exec_error option \<times> Task \<times> world" where
  "runTaskLoop X t w =
     (if IsComplete t then (None, t, w)
      else
        let t1 = (if Phase t = TaskPhaseFailed then t\<lparr>RestartCount := RestartCount t + 1\<rparr> else t);
            t2 = t1\<lparr>Phase := TaskPhaseRunning\<rparr>;
            (ok1, w1) = patch X t2 w
        in if \<not> ok1 then (Some (PatchFailed (TName t)), t2, w1)
           else
             let (t3, v3) = execTask X t2 (wvar w1);
                 (ok2, w2) = patch X t3 (w1\<lparr>wvar := v3\<rparr>)
             in if \<not> ok2 then (Some (PatchFailed (TName t)), t3, w2)
                else runTaskLoop X t3 w2)"
  by pat_completeness auto
termination
proof (relation "measure (\<lambda>(X, t, w). if IsComplete t then 0
      else nat (TRetries t - RestartCount t) + (if Phase t = TaskPhaseFailed then 1 else 2))",
    goal_cases)
  case 1
  then show ?case by simp
next
  case (2 X t w t1 t2 p ok1 w1 q t3 v3 r ok2 w2)
  have t3: "t3 = fst (execTask X t2 (wvar w1))" using 2 by (metis fst_conv)
  have "Phase t3 \<in> {TaskPhaseSuccess, TaskPhaseIgnored, TaskPhaseFailed}"
    unfolding t3 by (rule execTask_phase)
  moreover have "TRetries t3 = TRetries t"
    "RestartCount t3 = RestartCount t + (if Phase t = TaskPhaseFailed then 1 else 0)"
    using 2 by (simp_all add: t3)
  ultimately show ?case
    using 2(1) by (auto simp: IsComplete_def IsSucceed_def IsFailed_def)
qed

declare runTaskLoop.simps [simp del]

definition Create :: "xenv \<Rightarrow> world \<Rightarrow> bool \<times> world" where
  "Create X w = (clientOk X (calls w), w\<lparr>calls := calls w + 1\<rparr>)"

definition count :: "Task \<Rightarrow> PlaybookStatistics \<Rightarrow> PlaybookStatistics" where
  "count t s =
     (let s1 = s\<lparr>Total := Total s + 1\<rparr>
      in case Phase t of
           TaskPhaseSuccess \<Rightarrow> s1\<lparr>Success := Success s1 + 1\<rparr>
         | TaskPhaseIgnored \<Rightarrow> s1\<lparr>Ignored := Ignored s1 + 1\<rparr>
         | TaskPhaseFailed \<Rightarrow> s1\<lparr>Failed := Failed s1 + 1\<rparr>
         | _ \<Rightarrow> s1)"

definition taskExec :: "xenv \<Rightarrow> Task \<Rightarrow> world \<Rightarrow> exec_error option \<times> world" where
  "taskExec X t w =
     (case Create X w of
        (False, w1) \<Rightarrow> (Some (CreateFailed (TName t)), w1)
      | (True, w1) \<Rightarrow>
          (case runTaskLoop X t w1 of
             (e, t', w2) \<Rightarrow>
               (let w3 = w2\<lparr>stats := count t' (stats w2)\<rparr>
                in case e of
                     Some err \<Rightarrow> (Some err, w3)
                   | None \<Rightarrow> (if IsFailed t' then (Some (TaskRunFailed t'), w3) else (None, w3)))))"

subsection \<open>Host results\<close>

lemma schedule_perm: "distinct (schedule X n)" "set (schedule X n) = {0..<n}"
  by (auto simp: schedule_def Let_def)

lemma execTaskHost_host [simp]: "RHost (fst (execTaskHost X t h v)) = h"
  by (simp add: execTaskHost_def Let_def split: prod.split)

lemma runHosts_length: "length (fst (runHosts X t is rs v)) = length rs"
  by (induction "is" arbitrary: rs v) (simp_all add: Let_def split: prod.split)

lemma runHosts_untouched: "j \<notin> set is \<Longrightarrow> fst (runHosts X t is rs v) ! j = rs ! j"
  by (induction "is" arbitrary: rs v) (simp_all add: Let_def split: prod.split)

lemma runHosts_host:
  assumes "j \<in> set is" "distinct is" "\<forall>i\<in>set is. i < length rs"
  shows "\<exists>v'. fst (runHosts X t is rs v) ! j = fst (execTaskHost X t (THosts t ! j) v')"
  using assms
proof (induction "is" arbitrary: rs v)
  case Nil
  then show ?case by simp
next
  case (Cons i "is")
  obtain r v1 where r: "execTaskHost X t (THosts t ! i) v = (r, v1)" by fastforce
  show ?case
  proof (cases "j = i")
    case True
    then have "fst (runHosts X t is (rs[i := r]) v1) ! j = r"
      using Cons.prems by (simp add: runHosts_untouched)
    then show ?thesis using True r by (auto intro: exI [of _ v])
  next
    case False
    then show ?thesis
      using Cons.IH [of "rs[i := r]" v1] Cons.prems r by simp
  qed
qed

lemma HostResults_execTask:
  "HostResults (fst (execTask X t v)) =
     fst (runHosts X t (schedule X (length (THosts t))) (replicate (length (THosts t)) zero_result) v)"
  by (simp add: execTask_def Let_def split: prod.split)

lemma execTask_phase_eq:
  "Phase (fst (execTask X t v)) =
     (if list_ex (\<lambda>data. RError data \<noteq> []) (HostResults (fst (execTask X t v)))
      then (if TIgnoreError t = Some True then TaskPhaseIgnored else TaskPhaseFailed)
      else TaskPhaseSuccess)"
  by (simp add: execTask_def Let_def split: prod.split)

text \<open>
  Claim C36. Results of one attempt. Whatever order the scheduler runs the hosts of a task in,
  the attempt leaves one result per host, in the order of the host list, each the result of
  running that very host in some state of the store; and the phase is failed exactly when
  some host reports an error and errors are not ignored, ignored when some host reports an
  error and errors are ignored, success otherwise.
\<close>

theorem execTask_spec:
  "let t' = fst (execTask X t v) in
    map RHost (HostResults t') = THosts t \<and>
    (\<exists>vs. HostResults t' = map2 (\<lambda>h v'. fst (execTaskHost X t h v')) (THosts t) vs \<and>
          length vs = length (THosts t)) \<and>
    (Phase t' = TaskPhaseSuccess \<longleftrightarrow> list_all (\<lambda>r. RError r = []) (HostResults t')) \<and>
    (Phase t' = TaskPhaseIgnored \<longleftrightarrow>
       list_ex (\<lambda>r. RError r \<noteq> []) (HostResults t') \<and> TIgnoreError t = Some True) \<and>
    (Phase t' = TaskPhaseFailed \<longleftrightarrow>
       list_ex (\<lambda>r. RError r \<noteq> []) (HostResults t') \<and> TIgnoreError t \<noteq> Some True)"
proof -
  define t' where "t' = fst (execTask X t v)"
  let ?n = "length (THosts t)"
  have len: "length (HostResults t') = ?n"
    by (simp add: t'_def HostResults_execTask runHosts_length)
  have "\<exists>v'. HostResults t' ! j = fst (execTaskHost X t (THosts t ! j) v')" if "j < ?n" for j
    unfolding t'_def HostResults_execTask using that by (intro runHosts_host) (auto simp: schedule_perm)
  then obtain f where f: "\<And>j. j < ?n \<Longrightarrow> HostResults t' ! j = fst (execTaskHost X t (THosts t ! j) (f j))"
    by metis
  have "HostResults t' = map2 (\<lambda>h v'. fst (execTaskHost X t h v')) (THosts t) (map f [0..<?n])"
    by (rule nth_equalityI) (simp_all add: len f)
  moreover have "map RHost (HostResults t') = THosts t"
    by (rule nth_equalityI) (simp_all add: len f)
  ultimately show ?thesis
    unfolding t'_def [symmetric] Let_def
    using execTask_phase_eq [of X t v, folded t'_def]
    by (auto simp: list_all_iff list_ex_iff intro: exI [of _ "map f [0..<?n]"])
qed

subsection \<open>Retries\<close>

text \<open>The contract of retries: run, and while the attempt failed and retries are left, count
  one and run again.\<close>

fun attempts :: "xenv \<Rightarrow> nat \<Rightarrow> Task \<Rightarrow> variable \<Rightarrow> Task \<times> variable" where
  "attempts X k t v =
     (let (t', v') = execTask X (t\<lparr>Phase := TaskPhaseRunning\<rparr>) v
      in case k of
           0 \<Rightarrow> (t', v')
         | Suc j \<Rightarrow>
             (if Phase t' = TaskPhaseFailed
              then attempts X j (t'\<lparr>RestartCount := RestartCount t' + 1\<rparr>) v' else (t', v')))"

declare attempts.simps [simp del]

definition fresh :: "Task \<Rightarrow> bool" where
  "fresh t \<longleftrightarrow> Phase t \<in> {PhaseNone, TaskPhasePending, TaskPhaseRunning}"

definition client_ok :: "xenv \<Rightarrow> bool" where
  "client_ok X \<longleftrightarrow> (\<forall>n. clientOk X n)"

lemma patch_ok: "client_ok X \<Longrightarrow> patch X t w = (True, w\<lparr>calls := calls w + 1, tasks := t # tasks w\<rparr>)"
  by (simp add: patch_def client_ok_def)

lemma attempts_phase: "attempts X k (t\<lparr>Phase := p\<rparr>) v = attempts X k t v"
  by (subst (1 2) attempts.simps) simp

lemma runTaskLoop_done: "IsComplete t \<Longrightarrow> runTaskLoop X t w = (None, t, w)"
  by (subst runTaskLoop.simps) simp

lemma runTaskLoop_step:
  assumes "\<not> IsComplete t" "client_ok X"
    and "t2 = (if Phase t = TaskPhaseFailed then t\<lparr>RestartCount := RestartCount t + 1\<rparr> else t)
               \<lparr>Phase := TaskPhaseRunning\<rparr>"
    and "execTask X t2 (wvar w) = (t3, v3)"
  shows "runTaskLoop X t w =
    runTaskLoop X t3 (w\<lparr>wvar := v3, calls := calls w + 2, tasks := t3 # t2 # tasks w\<rparr>)"
  using assms(1,4) by (subst runTaskLoop.simps) (simp add: Let_def patch_ok [OF assms(2)] assms(3))

lemma runTaskLoop_induct [case_names step]:
  assumes "\<And>t w t2 ok1 w1 t3 v3 ok2 w2.
    t2 = (if Phase t = TaskPhaseFailed then t\<lparr>RestartCount := RestartCount t + 1\<rparr> else t)
           \<lparr>Phase := TaskPhaseRunning\<rparr> \<Longrightarrow>
    patch X t2 w = (ok1, w1) \<Longrightarrow> execTask X t2 (wvar w1) = (t3, v3) \<Longrightarrow>
    patch X t3 (w1\<lparr>wvar := v3\<rparr>) = (ok2, w2) \<Longrightarrow>
    runTaskLoop X t w =
      (if IsComplete t then (None, t, w)
       else if \<not> ok1 then (Some (PatchFailed (TName t)), t2, w1)
       else if \<not> ok2 then (Some (PatchFailed (TName t)), t3, w2) else runTaskLoop X t3 w2) \<Longrightarrow>
    (\<not> IsComplete t \<Longrightarrow> ok1 \<Longrightarrow> ok2 \<Longrightarrow> P t3 w2) \<Longrightarrow> P t w"
  shows "P t w"
proof -
  have "Y = X \<Longrightarrow> P t w" for Y
  proof (induction Y t w rule: runTaskLoop.induct)
    case (1 Y t w)
    define t2 where "t2 = (if Phase t = TaskPhaseFailed then t\<lparr>RestartCount := RestartCount t + 1\<rparr> else t)
                            \<lparr>Phase := TaskPhaseRunning\<rparr>"
    obtain ok1 w1 where p1: "patch X t2 w = (ok1, w1)" by fastforce
    obtain t3 v3 where ex: "execTask X t2 (wvar w1) = (t3, v3)" by fastforce
    obtain ok2 w2 where p2: "patch X t3 (w1\<lparr>wvar := v3\<rparr>) = (ok2, w2)" by fastforce
    have "runTaskLoop X t w =
        (if IsComplete t then (None, t, w)
         else if \<not> ok1 then (Some (PatchFailed (TName t)), t2, w1)
         else if \<not> ok2 then (Some (PatchFailed (TName t)), t3, w2) else runTaskLoop X t3 w2)"
      by (subst runTaskLoop.simps) (simp add: Let_def p1 ex p2 flip: t2_def)
    moreover have "P t3 w2" if "\<not> IsComplete t" ok1 ok2
      using 1(1) 1(2) that p1 ex p2 by (simp flip: t2_def)
    ultimately show ?case using assms [OF t2_def p1 ex p2] by blast
  qed
  then show ?thesis by simp
qed

lemma runTaskLoop_attempts:
  assumes "fresh t" "client_ok X" "attempts X (nat (TRetries t - RestartCount t)) t (wvar w) = (t', v')"
  shows "\<exists>w'. runTaskLoop X t w = (None, t', w') \<and> wvar w' = v' \<and> stats w' = stats w \<and>
    IsComplete t' \<and> RestartCount t \<le> RestartCount t' \<and>
    RestartCount t' \<le> max (RestartCount t) (TRetries t) \<and> TRetries t' = TRetries t \<and>
    calls w' = calls w + 2 * (nat (RestartCount t' - RestartCount t) + 1)"
  using assms
proof (induction "nat (TRetries t - RestartCount t)" arbitrary: t w rule: less_induct)
  case less
  obtain t3 v3 where ex: "execTask X (t\<lparr>Phase := TaskPhaseRunning\<rparr>) (wvar w) = (t3, v3)"
    by fastforce
  let ?w3 = "w\<lparr>wvar := v3, calls := calls w + 2,
                tasks := t3 # t\<lparr>Phase := TaskPhaseRunning\<rparr> # tasks w\<rparr>"
  have nc: "\<not> IsComplete t" "Phase t \<noteq> TaskPhaseFailed"
    using less.prems(1) by (auto simp: fresh_def IsComplete_def IsSucceed_def IsFailed_def)
  have run: "runTaskLoop X t w = runTaskLoop X t3 ?w3"
    using nc by (intro runTaskLoop_step [OF _ less.prems(2) _ ex]) simp_all
  have t3: "TRetries t3 = TRetries t" "RestartCount t3 = RestartCount t"
    using execTask_fields [of X "t\<lparr>Phase := TaskPhaseRunning\<rparr>" "wvar w"] by (simp_all add: ex)
  have ph: "Phase t3 \<in> {TaskPhaseSuccess, TaskPhaseIgnored, TaskPhaseFailed}"
    using execTask_phase [of X "t\<lparr>Phase := TaskPhaseRunning\<rparr>" "wvar w"] by (simp add: ex)
  show ?case
  proof (cases "Phase t3 = TaskPhaseFailed \<and> RestartCount t < TRetries t")
    case False
    then have "attempts X (nat (TRetries t - RestartCount t)) t (wvar w) = (t3, v3)"
      by (subst attempts.simps) (auto simp: ex split: nat.split)
    then have eq: "t' = t3" "v' = v3" using less.prems(3) by simp_all
    have "IsComplete t3"
      using False ph by (auto simp: IsComplete_def IsSucceed_def IsFailed_def t3)
    then show ?thesis using run by (simp add: runTaskLoop_done eq t3)
  next
    case True
    define t4 where "t4 = t3\<lparr>RestartCount := RestartCount t3 + 1, Phase := TaskPhaseRunning\<rparr>"
    have fr: "fresh t4" and m: "nat (TRetries t4 - RestartCount t4) < nat (TRetries t - RestartCount t)"
      using True by (simp_all add: t4_def fresh_def t3)
    have "\<not> IsComplete t3" using True by (simp add: IsComplete_def IsSucceed_def IsFailed_def t3)
    moreover have "\<not> IsComplete t4" by (simp add: t4_def IsComplete_def IsSucceed_def IsFailed_def)
    moreover obtain t5 v5 where e5: "execTask X t4 (wvar ?w3) = (t5, v5)" by fastforce
    ultimately have again: "runTaskLoop X t3 ?w3 = runTaskLoop X t4 ?w3"
      using True runTaskLoop_step [OF _ less.prems(2) _ e5, of t3]
        runTaskLoop_step [OF _ less.prems(2) _ e5, of t4] by (simp add: t4_def)
    have k: "nat (TRetries t - RestartCount t) = Suc (nat (TRetries t4 - RestartCount t4))"
      using True by (simp add: t4_def t3 Suc_nat_eq_nat_zadd1)
    have "attempts X (nat (TRetries t4 - RestartCount t4)) t4 (wvar ?w3) = (t', v')"
      using less.prems(3) True unfolding k t4_def
      by (subst (asm) attempts.simps) (simp add: ex attempts_phase t3)
    from less.hyps [OF m fr less.prems(2) this] obtain w' where
      w': "runTaskLoop X t4 ?w3 = (None, t', w')" "wvar w' = v'" "stats w' = stats ?w3"
        "IsComplete t'" "RestartCount t4 \<le> RestartCount t'" "TRetries t' = TRetries t4"
        "RestartCount t' \<le> max (RestartCount t4) (TRetries t4)"
        "calls w' = calls ?w3 + 2 * (nat (RestartCount t' - RestartCount t4) + 1)"
      by blast
    have "nat (RestartCount t' - RestartCount t) = Suc (nat (RestartCount t' - RestartCount t4))"
      using w'(5) by (simp add: t4_def t3 Suc_nat_eq_nat_zadd1)
    moreover have "runTaskLoop X t w = (None, t', w')" unfolding run again by (rule w'(1))
    ultimately show ?thesis
      using w'(2-) True by (intro exI [of _ w']) (simp_all add: t4_def t3)
  qed
qed

text \<open>
  Claim C27. Retries. When the API server answers, a task that has not run yet always comes
  to an end: the loop behaves as the contract \<open>attempts\<close> with the declared number of
  retries, returns without an error of its own, leaves the task complete, retries at most
  \<^verbatim>\<open>retries\<close> times and sends two status updates per attempt.
\<close>

theorem runTaskLoop_spec:
  assumes "fresh t" "RestartCount t = 0" "client_ok X"
    and "attempts X (nat (TRetries t)) t (wvar w) = (t', v')"
  shows "\<exists>w'. runTaskLoop X t w = (None, t', w') \<and> wvar w' = v' \<and> stats w' = stats w \<and>
    IsComplete t' \<and> 0 \<le> RestartCount t' \<and> RestartCount t' \<le> max 0 (TRetries t) \<and>
    calls w' = calls w + 2 * (nat (RestartCount t') + 1)"
  using runTaskLoop_attempts [of t X w t' v'] assms by auto

subsection \<open>Statistics\<close>

definition settled :: "PlaybookStatistics \<Rightarrow> nat" where
  "settled s = Success s + Failed s + Ignored s"

lemma runTaskLoop_stats: "stats (snd (snd (runTaskLoop X t w))) = stats w"
proof (induction X t w rule: runTaskLoop.induct)
  case (1 X t w)
  then show ?case
    by (subst runTaskLoop.simps) (auto simp: Let_def patch_def split: prod.split)
qed

lemma Create_stats [simp]: "stats (snd (Create X w)) = stats w"
  by (simp add: Create_def)

lemma count_Total: "Total (count t s) = Total s + 1"
  by (simp add: count_def Let_def split: TaskPhase.split)

lemma count_settled: "settled (count t s) = settled s + of_bool (Phase t \<in> {TaskPhaseSuccess, TaskPhaseFailed, TaskPhaseIgnored})"
  by (simp add: count_def Let_def settled_def split: TaskPhase.split)

lemma taskExec_stats:
  assumes "taskExec X t w = (e, w')"
  shows "Total (stats w) \<le> Total (stats w') \<and> Total (stats w') \<le> Total (stats w) + 1 \<and>
    settled (stats w) \<le> settled (stats w') \<and>
    settled (stats w') - settled (stats w) \<le> Total (stats w') - Total (stats w)"
proof -
  have st: "stats (snd (snd (runTaskLoop X t (snd (Create X w))))) = stats w"
    by (simp add: runTaskLoop_stats)
  show ?thesis
    using assms st
    by (auto simp: taskExec_def Let_def Create_def count_Total count_settled
        split: prod.splits bool.splits option.splits if_splits)
qed

text \<open>
  What a run has to count: of the status updates that the API server accepted, those of tasks
  that are over. \<open>tally\<close> counts them; each task is over once.
\<close>

definition tally :: "Task list \<Rightarrow> PlaybookStatistics \<Rightarrow> PlaybookStatistics" where
  "tally ts s =
     (let over = filter IsComplete ts
      in \<lparr>Total = Total s + length over,
          Success = Success s + length (filter (\<lambda>t. Phase t = TaskPhaseSuccess) over),
          Failed = Failed s + length (filter IsFailed over),
          Ignored = Ignored s + length (filter (\<lambda>t. Phase t = TaskPhaseIgnored) over)\<rparr>)"

lemma tally_Nil [simp]: "tally [] s = s"
  by (simp add: tally_def)

lemma tally_append: "tally (ts @ us) s = tally ts (tally us s)"
  by (simp add: tally_def Let_def)

lemma count_tally: "IsComplete t \<Longrightarrow> filter IsComplete ts = [t] \<Longrightarrow> count t s = tally ts s"
  by (auto simp: tally_def count_def IsComplete_def IsSucceed_def IsFailed_def)

lemma runTaskLoop_over:
  assumes "client_ok X" "\<not> IsComplete t"
  shows "\<exists>t' w' new. runTaskLoop X t w = (None, t', w') \<and> IsComplete t' \<and>
    tasks w' = new @ tasks w \<and> filter IsComplete new = [t']"
  using assms(2)
proof (induction t w rule: runTaskLoop_induct [of X])
  case (step t w t2 ok1 w1 t3 v3 ok2 w2)
  have ok: "ok1" "ok2" "tasks w2 = t3 # t2 # tasks w"
    using step(2,4) by (auto simp: patch_ok [OF assms(1)])
  have t2: "\<not> IsComplete t2" by (simp add: step(1) IsComplete_def IsSucceed_def IsFailed_def)
  have run: "runTaskLoop X t w = runTaskLoop X t3 w2" using step(5,7) ok by simp
  show ?case
  proof (cases "IsComplete t3")
    case True
    then show ?thesis
      using run t2 ok(3) by (intro exI [of _ t3] exI [of _ w2] exI [of _ "[t3, t2]"]) (simp add: runTaskLoop_done)
  next
    case False
    then obtain t' w' new where "runTaskLoop X t3 w2 = (None, t', w')" "IsComplete t'"
      "tasks w' = new @ tasks w2" "filter IsComplete new = [t']"
      using step(6) step(7) ok by blast
    then show ?thesis
      using run t2 ok(3) False
      by (intro exI [of _ t'] exI [of _ w'] exI [of _ "new @ [t3, t2]"]) simp
  qed
qed

lemma taskExec_tally:
  assumes "client_ok X" "fresh t" "taskExec X t w = (e, w')"
  shows "\<exists>new. tasks w' = new @ tasks w \<and> stats w' = tally new (stats w)"
proof -
  have c: "Create X w = (True, w\<lparr>calls := calls w + 1\<rparr>)"
    using assms(1) by (simp add: Create_def client_ok_def)
  have "\<not> IsComplete t"
    using assms(2) by (auto simp: fresh_def IsComplete_def IsSucceed_def IsFailed_def)
  from runTaskLoop_over [OF assms(1) this, of "w\<lparr>calls := calls w + 1\<rparr>"]
  obtain t' w1 new where run: "runTaskLoop X t (w\<lparr>calls := calls w + 1\<rparr>) = (None, t', w1)"
    and "IsComplete t'" "tasks w1 = new @ tasks w" "filter IsComplete new = [t']" by auto
  moreover have "stats w1 = stats w"
    using runTaskLoop_stats [of X t "w\<lparr>calls := calls w + 1\<rparr>"] unfolding run by simp
  ultimately show ?thesis
    using assms(3) count_tally [of t' new "stats w"]
    by (intro exI [of _ new]) (auto simp: taskExec_def c Let_def split: if_splits)
qed

subsection \<open>A concrete run\<close>

text \<open>A module that fails until the task has been restarted once, and one that always
  works.\<close>

definition flaky :: module_fun where
  "flaky args h t v =
     ((if RestartCount t = 0 then (''failed'', [], Some ''not yet'') else (''success'', [], None)), v)"

definition sample_xenv :: xenv where
  "sample_xenv = env.extend sample_env
     \<lparr>marshalMap = (\<lambda>m. Inr ''port''), marshal = (\<lambda>x. Some ''x''), decodeJSON = (\<lambda>s. None),
      decodeYAML = (\<lambda>s. None),
      findModule = (\<lambda>n. if n = ''flaky'' then Some flaky
                        else if n = ''debug'' then Some (\<lambda>args h t v. ((''success'', [], None), v))
                        else None),
      clientOk = (\<lambda>n. True), ownerOk = (\<lambda>t. True), rnd = (\<lambda>i n. 0),
      parsePercent = (\<lambda>s n. None), sched = rev, onlyTags = [], skipTags = []\<rparr>"

definition sample_task :: Task where
  "sample_task =
     \<lparr>TName = ''wait'', THosts = [''n1''], TIgnoreError = None, TRetries = 3, TWhen = [],
      TFailedWhen = [], TLoop = None, TModule = ''flaky'', TArgs = [], TRegister = [],
      TRegisterType = [], RestartCount = 0, Phase = PhaseNone, HostResults = []\<rparr>"

definition sample_world :: world where
  "sample_world =
     \<lparr>wvar = \<lparr>vsource = [], vval = sample_value\<rparr>,
      stats = \<lparr>Total = 0, Success = 0, Failed = 0, Ignored = 0\<rparr>, tasks = [], calls = 0\<rparr>"

lemma sample_client: "client_ok sample_xenv"
  by (simp add: client_ok_def sample_xenv_def env.defs)

lemma sample_attempts:
  "RestartCount (fst (attempts sample_xenv (nat (TRetries sample_task)) sample_task (wvar sample_world))) = 1"
  by code_simp

theorem runTaskLoop_spec_witness:
  "\<exists>t' w'. runTaskLoop sample_xenv sample_task sample_world = (None, t', w') \<and>
     IsComplete t' \<and> RestartCount t' = 1 \<and> calls w' = 4"
proof -
  obtain t' v' where a: "attempts sample_xenv (nat (TRetries sample_task)) sample_task
      (wvar sample_world) = (t', v')" by fastforce
  have "fresh sample_task" "RestartCount sample_task = 0"
    by (simp_all add: fresh_def sample_task_def)
  from runTaskLoop_spec [OF this sample_client a] show ?thesis
    using sample_attempts [unfolded a] by (auto simp: sample_world_def [THEN arg_cong [of _ _ calls]])
qed

end
