(* ===== verification/Blocks.thy ===== *)
theory Blocks
  imports Tasks Tags Serial
begin

text \<open>
  The executors above the task executor (\<^verbatim>\<open>pkg/executor/block_executor.go\<close>,
  \<^verbatim>\<open>role_executor.go\<close>, \<^verbatim>\<open>playbook_executor.go\<close>) with the data they walk
  (\<^verbatim>\<open>api/project/v1\<close>) and the conversion of a block to a task
  (\<^verbatim>\<open>pkg/converter/converter.go\<close>). A run ends with an \<open>outcome\<close>: it is fine, it returns an
  error, or it panics; a panic is not an error, so no \<^verbatim>\<open>rescue\<close> section sees it. The project
  on disk is loaded before the plays run; loading is an argument of the playbook executor.
  Setting the owner reference of a task and the choice of \<^verbatim>\<open>math/rand\<close> are parameters of
  \<open>xenv\<close>.
\<close>

record BlockBase =
  BName :: string
  BVars :: "ynode list"
  BRunOnce :: bool
  BIgnoreErrors :: "bool option"
  BTaggable :: Taggable
  BWhen :: "string list"

record BlockTask =
  BFailedWhen :: "string list"
  BLoop :: "val option"
  BRegister :: string
  BRegisterType :: string
  BRetries :: int
  UnknownField :: "val gomap"

datatype Block =
  Block (BBase: BlockBase) (BTask: BlockTask) (IncludeTasks: string)
        (BBlock: "Block list") (BRescue: "Block list") (BAlways: "Block list")

datatype Role =
  Role (RoleName: string) (RVars: "ynode list") (RIgnoreErrors: "bool option")
       (RTaggable: Taggable) (RWhen: "string list") (RoleDependency: "Role list")
       (RBlock: "Block list")

record Play =
  PlayHost :: "string list"
  GatherFacts :: bool
  PSerial :: "serial list"
  PRunOnce :: bool
  PVars :: "ynode list"
  PIgnoreErrors :: "bool option"
  PTaggable :: Taggable
  PreTasks :: "Block list"
  Roles :: "Role list"
  PTasks :: "Block list"
  PostTasks :: "Block list"

datatype outcome = Fine | is_Err: Err exec_error | is_Panic: Panic string

definition mergeVars :: "xenv \<Rightarrow> ynode list \<Rightarrow> string list \<Rightarrow> world \<Rightarrow> var_error option \<times> world" where
  "mergeVars X nodes hosts w =
     (case MergeVar (env.truncate X) (MergeRuntimeVariable (env.truncate X) nodes hosts) (wvar w) of
        (e, v) \<Rightarrow> (e, w\<lparr>wvar := v\<rparr>))"

subsection \<open>Blocks\<close>

record blockExecutor =
  bhosts :: "string list"
  bignoreErrors :: "bool option"
  bwhen :: "string list"
  btags :: Taggable

definition dealRunOnce :: "bool \<Rightarrow> string list \<Rightarrow> string list option" where
  "dealRunOnce runOnce hosts =
     (if runOnce then (case hosts of [] \<Rightarrow> None | h # _ \<Rightarrow> Some [h]) else Some hosts)"

definition dealIgnoreErrors :: "bool option \<Rightarrow> bool option \<Rightarrow> bool option" where
  "dealIgnoreErrors ie parent = (case ie of None \<Rightarrow> parent | Some b \<Rightarrow> Some b)"

definition inheritWhen :: "string list \<Rightarrow> string list \<Rightarrow> string list" where
  "inheritWhen w data = extend_new w data"

definition MarshalBlock :: "xenv \<Rightarrow> string list \<Rightarrow> string list \<Rightarrow> Block \<Rightarrow> Task" where
  "MarshalBlock X hosts when block =
     \<lparr>TName = BName (BBase block), THosts = hosts, TIgnoreError = BIgnoreErrors (BBase block),
      TRetries = BRetries (BTask block), TWhen = when, TFailedWhen = BFailedWhen (BTask block),
      TLoop = (case BLoop (BTask block) of None \<Rightarrow> None | Some l \<Rightarrow> marshal X l),
      TModule = [], TArgs = [], TRegister = BRegister (BTask block),
      TRegisterType = BRegisterType (BTask block),
      RestartCount = 0, Phase = PhaseNone, HostResults = []\<rparr>"

fun completeModule :: "xenv \<Rightarrow> val gomap \<Rightarrow> string list \<Rightarrow> Task \<Rightarrow> exec_error + Task" where
  "completeModule X unknown [] task = Inr task"
| "completeModule X unknown (n # ns) task =
     (case marshal X (case get unknown n of None \<Rightarrow> VNil | Some a \<Rightarrow> a) of
        None \<Rightarrow> Inl (MarshalFailed n)
      | Some data \<Rightarrow>
          (if findModule X n \<noteq> None then Inr (task\<lparr>TModule := n, TArgs := data\<rparr>)
           else completeModule X unknown ns task))"

definition dealTask :: "xenv \<Rightarrow> string list \<Rightarrow> string list \<Rightarrow> Block \<Rightarrow> world \<Rightarrow> outcome \<times> world" where
  "dealTask X hosts when block w =
     (let unknown = UnknownField (BTask block)
      in case completeModule X unknown (range_keys (order X) unknown) (MarshalBlock X hosts when block) of
           Inl e \<Rightarrow> (Err e, w)
         | Inr task \<Rightarrow>
             (if TModule task = [] then (Err (NoModule (TName task)), w)
              else if \<not> ownerOk X task then (Err (OwnerFailed (TName task)), w)
              else (case taskExec X task w of
                      (None, w') \<Rightarrow> (Fine, w')
                    | (Some e, w') \<Rightarrow> (Err e, w'))))"

fun joinErr :: "outcome \<Rightarrow> outcome \<Rightarrow> outcome" where
  "joinErr Fine r = r"
| "joinErr (Err e) (Err e') = Err (Joined e e')"
| "joinErr (Err e) (Panic m) = Panic m"
| "joinErr r Fine = r"
| "joinErr (Panic m) r = Panic m"

lemma size_sections:
  "size_list size (BBlock b) < size b" "size_list size (BRescue b) < size b"
  "size_list size (BAlways b) < size b"
  by (cases b; simp)+

function blockExec :: "xenv \<Rightarrow> blockExecutor \<Rightarrow> Block list \<Rightarrow> world \<Rightarrow> outcome \<times> world"
  and dealBlock :: "xenv \<Rightarrow> blockExecutor \<Rightarrow> Block \<Rightarrow> world \<Rightarrow> outcome \<times> world" where
  "blockExec X e [] w = (Fine, w)"
| "blockExec X e (block # blocks) w =
     (case dealRunOnce (BRunOnce (BBase block)) (bhosts e) of
        None \<Rightarrow> (Panic ''slice bounds out of range'', w)
      | Some hosts \<Rightarrow>
          (let tags = JoinTag (BTaggable (BBase block)) (btags e);
               ignoreErrors = dealIgnoreErrors (BIgnoreErrors (BBase block)) (bignoreErrors e);
               when = inheritWhen (bwhen e) (BWhen (BBase block))
           in case mergeVars X (BVars (BBase block)) hosts w of
                (Some err, w1) \<Rightarrow> (Err (VarFailed err), w1)
              | (None, w1) \<Rightarrow>
                  (let (r, w2) =
                     (if BBlock block \<noteq> [] then
                        dealBlock X \<lparr>bhosts = hosts, bignoreErrors = ignoreErrors,
                                     bwhen = when, btags = tags\<rparr> block w1
                      else if IncludeTasks block \<noteq> [] then (Fine, w1)
                      else if IsEnabled tags (onlyTags X) (skipTags X) then
                        dealTask X hosts when block w1
                      else (Fine, w1))
                   in if r = Fine then blockExec X e blocks w2 else (r, w2))))"
| "dealBlock X e block w =
     (let (r1, w1) = blockExec X e (BBlock block) w;
          (r2, w2) = (if is_Err r1 \<and> BRescue block \<noteq> [] then blockExec X e (BRescue block) w1
                      else (r1, w1));
          (r3, w3) = (if \<not> is_Panic r2 \<and> BAlways block \<noteq> [] then blockExec X e (BAlways block) w2
                      else (Fine, w2))
      in (joinErr r2 r3, w3))"
  by pat_completeness auto
termination
  by (relation "measure (\<lambda>a. case a of Inl (X, e, bs, w) \<Rightarrow> 2 * size_list size bs
                                     | Inr (X, e, b, w) \<Rightarrow> 2 * size b + 1)")
     (auto simp: less_Suc_eq_le intro: less_imp_le [OF size_sections(1)]
        less_imp_le [OF size_sections(2)] less_imp_le [OF size_sections(3)])

declare blockExec.simps [simp del] dealBlock.simps [simp del]

subsection \<open>Roles\<close>

lemma size_deps: "Suc (2 * size_list size (RoleDependency r)) < 2 * size r"
  by (cases r) simp

function roleExec ::
  "xenv \<Rightarrow> string list \<Rightarrow> bool option \<Rightarrow> string list \<Rightarrow> Taggable \<Rightarrow> Role \<Rightarrow> world \<Rightarrow> outcome \<times> world"
  and depsExec ::
  "xenv \<Rightarrow> string list \<Rightarrow> bool option \<Rightarrow> string list \<Rightarrow> Taggable \<Rightarrow> Role list \<Rightarrow> world \<Rightarrow> outcome \<times> world"
where
  "roleExec X hosts ie when tags role w =
     (case mergeVars X (RVars role) hosts w of
        (Some err, w1) \<Rightarrow> (Err (VarFailed err), w1)
      | (None, w1) \<Rightarrow>
          (let (r, w2) = depsExec X hosts ie when tags (RoleDependency role) w1
           in if r = Fine
              then blockExec X \<lparr>bhosts = hosts, bignoreErrors = ie,
                                bwhen = inheritWhen when (RWhen role), btags = tags\<rparr> (RBlock role) w2
              else (r, w2)))"
| "depsExec X hosts ie when tags [] w = (Fine, w)"
| "depsExec X hosts ie when tags (dep # deps) w =
     (let (r, w1) = roleExec X hosts (dealIgnoreErrors (RIgnoreErrors dep) ie)
                      (inheritWhen when (RWhen dep)) (JoinTag (RTaggable dep) tags) dep w
      in if r = Fine then depsExec X hosts ie when tags deps w1 else (r, w1))"
  by pat_completeness auto
termination
  by (relation "measure (\<lambda>a. case a of Inl (X, hosts, ie, when, tags, r, w) \<Rightarrow> 2 * size r
                                     | Inr (X, hosts, ie, when, tags, rs, w) \<Rightarrow> 2 * size_list size rs + 1)")
     (auto simp: size_deps)

declare roleExec.simps [simp del] depsExec.simps [simp del]

subsection \<open>Plays\<close>

text \<open>The names of a play's hosts: host names, group names, \<^verbatim>\<open>group[i]\<close> and
  \<^verbatim>\<open>group|random\<close>, each name possibly a template over the configuration. The two patterns
  are the source's regular expressions \<^verbatim>\<open>^(.*?)\[(\d+)]$\<close> and \<^verbatim>\<open>^(.+?)\s*\|\s*random$\<close>.\<close>

definition re_space :: "char \<Rightarrow> bool" where
  "re_space c \<longleftrightarrow> (of_char c :: nat) \<in> {9, 10, 12, 13, 32}"

definition TrimRightSpace :: "string \<Rightarrow> string" where
  "TrimRightSpace s = rev (dropWhile re_space (rev s))"

definition matchIndex :: "string \<Rightarrow> (string \<times> string) option" where
  "matchIndex s =
     (if s \<noteq> [] \<and> last s = CHR '']'' then
        (let body = butlast s;
             ds = rev (takeWhile is_digit (rev body));
             pre = take (length body - length ds) body
         in if ds \<noteq> [] \<and> pre \<noteq> [] \<and> last pre = CHR ''['' \<and> char_of (10::nat) \<notin> set (butlast pre)
            then Some (butlast pre, ds) else None)
      else None)"

definition matchRandom :: "string \<Rightarrow> string option" where
  "matchRandom s =
     (if HasSuffix s ''random'' then
        (let pre = TrimRightSpace (take (length s - 6) s)
         in if pre \<noteq> [] \<and> last pre = CHR ''|'' then
              (let g = TrimRightSpace (butlast pre)
               in if g \<noteq> [] \<and> char_of (10::nat) \<notin> set g then Some g else None)
            else None)
      else None)"

datatype hosts_error = AtoiFailed string | IndexOutOfRange int | IntnPanic

definition groupsOf :: "xenv \<Rightarrow> vvalue \<Rightarrow> string list gomap" where
  "groupsOf X v = (case ConvertGroup (order X) (VInventory v) of None \<Rightarrow> [] | Some gs \<Rightarrow> gs)"

definition hostsOf :: "xenv \<Rightarrow> vvalue \<Rightarrow> string \<Rightarrow> string list \<Rightarrow> hosts_error + string list" where
  "hostsOf X v n0 hs =
     (let groups = groupsOf X v;
          n = (case ParseFunc (engine X) (Extension2Variables (env.truncate X) (Config v)) n0 of
                 Inl e \<Rightarrow> n0 | Inr pn \<Rightarrow> pn);
          hs1 = (if get (VHosts v) n \<noteq> None then hs @ [n] else hs);
          hs2 = (case get groups n of None \<Rightarrow> hs1 | Some gv \<Rightarrow> CombineSlice hs1 gv)
      in bind_res
           (case matchIndex (TrimSpace n) of
              None \<Rightarrow> Inr hs2
            | Some (g, ds) \<Rightarrow>
                (case Atoi ds of
                   None \<Rightarrow> Inl (AtoiFailed ds)
                 | Some index \<Rightarrow>
                     (case get groups g of
                        None \<Rightarrow> Inr hs2
                      | Some grp \<Rightarrow>
                          (if index \<ge> int (length grp) then Inl (IndexOutOfRange index)
                           else Inr (hs2 @ [grp ! nat index])))))
           (\<lambda>hs3.
              case matchRandom (TrimSpace n) of
                None \<Rightarrow> Inr hs3
              | Some g \<Rightarrow>
                  (case get groups g of
                     None \<Rightarrow> Inr hs3
                   | Some grp \<Rightarrow>
                       (if grp = [] then Inl IntnPanic
                        else Inr (hs3 @ [grp ! (rnd X (length hs3) (length grp) mod length grp)])))))"

fun GetHostnames :: "xenv \<Rightarrow> vvalue \<Rightarrow> string list \<Rightarrow> string list \<Rightarrow> hosts_error + string list" where
  "GetHostnames X v [] hs = Inr hs"
| "GetHostnames X v (n # ns) hs = bind_res (hostsOf X v n hs) (GetHostnames X v ns)"

fun batchRoles :: "xenv \<Rightarrow> Play \<Rightarrow> string list \<Rightarrow> Role list \<Rightarrow> world \<Rightarrow> outcome \<times> world" where
  "batchRoles X play serials [] w = (Fine, w)"
| "batchRoles X play serials (role # rs) w =
     (let (r, w1) = roleExec X serials (dealIgnoreErrors (RIgnoreErrors role) (PIgnoreErrors play))
                      (RWhen role) (JoinTag (RTaggable role) (PTaggable play)) role w
      in if r = Fine then batchRoles X play serials rs w1 else (r, w1))"

definition playBlocks :: "xenv \<Rightarrow> Play \<Rightarrow> string list \<Rightarrow> Block list \<Rightarrow> world \<Rightarrow> outcome \<times> world" where
  "playBlocks X play serials blocks w =
     blockExec X \<lparr>bhosts = serials, bignoreErrors = PIgnoreErrors play, bwhen = [],
                  btags = PTaggable play\<rparr> blocks w"

definition seqExec :: "(world \<Rightarrow> outcome \<times> world) \<Rightarrow> (world \<Rightarrow> outcome \<times> world) \<Rightarrow> world \<Rightarrow> outcome \<times> world" where
  "seqExec f g w = (let (r, w1) = f w in if r = Fine then g w1 else (r, w1))"

definition execBatch :: "xenv \<Rightarrow> Play \<Rightarrow> string list \<Rightarrow> world \<Rightarrow> outcome \<times> world" where
  "execBatch X play serials w =
     (if serials = [] then (Err HostIsEmpty, w)
      else case mergeVars X (PVars play) serials w of
             (Some err, w1) \<Rightarrow> (Err (VarFailed err), w1)
           | (None, w1) \<Rightarrow>
               seqExec (playBlocks X play serials (PreTasks play))
                 (seqExec (batchRoles X play serials (Roles play))
                   (seqExec (playBlocks X play serials (PTasks play))
                     (playBlocks X play serials (PostTasks play)))) w1)"

fun execBatchHosts :: "xenv \<Rightarrow> Play \<Rightarrow> string list list \<Rightarrow> world \<Rightarrow> outcome \<times> world" where
  "execBatchHosts X play [] w = (Fine, w)"
| "execBatchHosts X play (serials # batches) w =
     seqExec (execBatch X play serials) (execBatchHosts X play batches) w"

definition setupTask :: "string list \<Rightarrow> Task" where
  "setupTask hosts =
     \<lparr>TName = ''gather_facts'', THosts = hosts, TIgnoreError = None, TRetries = 0, TWhen = [],
      TFailedWhen = [], TLoop = None, TModule = ''setup'', TArgs = [], TRegister = [],
      TRegisterType = [], RestartCount = 0, Phase = PhaseNone, HostResults = []\<rparr>"

definition dealGatherFacts :: "xenv \<Rightarrow> bool \<Rightarrow> string list \<Rightarrow> world \<Rightarrow> outcome \<times> world" where
  "dealGatherFacts X gatherFacts hosts w =
     (if \<not> gatherFacts then (Fine, w)
      else case taskExec X (setupTask hosts) w of (None, w') \<Rightarrow> (Fine, w') | (Some e, w') \<Rightarrow> (Err e, w'))"

definition serial_text :: "serial_error \<Rightarrow> string" where
  "serial_text e = (case e of
     ParseFloatError s \<Rightarrow> ''convert serial to float: '' @ s
   | ParseIntError s \<Rightarrow> ''convert serial to int: '' @ s
   | UnknownSerialType \<Rightarrow> ''unknown serial type. only support int or percent''
   | ZeroSerial s \<Rightarrow> ''serial should not be zero''
   | SliceBounds \<Rightarrow> ''slice bounds out of range'')"

definition dealSerial :: "xenv \<Rightarrow> serial list \<Rightarrow> string list \<Rightarrow> outcome + string list list" where
  "dealSerial X serial hosts =
     (case GroupHostBySerial (parsePercent X) hosts serial of
        Inl SliceBounds \<Rightarrow> Inl (Panic (serial_text SliceBounds))
      | Inl e \<Rightarrow> Inl (Err (SerialFailed (serial_text e)))
      | Inr batches \<Rightarrow> Inr batches)"

definition dealPlayRunOnce :: "bool \<Rightarrow> string list \<Rightarrow> string list list \<Rightarrow> string list list" where
  "dealPlayRunOnce runOnce hosts batches = (if runOnce then [[hd hosts]] else batches)"

definition playExec :: "xenv \<Rightarrow> Play \<Rightarrow> world \<Rightarrow> outcome \<times> world" where
  "playExec X play w =
     (case GetHostnames X (vval (wvar w)) (PlayHost play) [] of
        Inl IntnPanic \<Rightarrow> (Panic ''invalid argument to Intn'', w)
      | Inl _ \<Rightarrow> (Fine, w)
      | Inr [] \<Rightarrow> (Fine, w)
      | Inr (h # hs) \<Rightarrow>
          seqExec (dealGatherFacts X (GatherFacts play) (h # hs))
            (\<lambda>w1. case dealSerial X (PSerial play) (h # hs) of
                     Inl r \<Rightarrow> (r, w1)
                   | Inr batches \<Rightarrow>
                       execBatchHosts X play (dealPlayRunOnce (PRunOnce play) (h # hs) batches) w1) w)"

fun playsExec :: "xenv \<Rightarrow> Play list \<Rightarrow> world \<Rightarrow> outcome \<times> world" where
  "playsExec X [] w = (Fine, w)"
| "playsExec X (play # plays) w = seqExec (playExec X play) (playsExec X plays) w"

subsection \<open>The playbook\<close>

datatype PlaybookPhase =
  PbPhaseNone | PlaybookPhasePending | PlaybookPhaseRunning | PlaybookPhaseFailed | PlaybookPhaseSucceeded

datatype PlaybookFailedReason =
  NoReason | PlaybookFailedReasonUnknown | PlaybookFailedReasonPodFailed | PlaybookFailedReasonTaskFailed

record PlaybookStatus =
  PbStatistics :: PlaybookStatistics
  PbResult :: "string option"
  PbPhase :: PlaybookPhase
  FailureReason :: PlaybookFailedReason
  FailureMessage :: "exec_error option"

definition syncStatus ::
  "xenv \<Rightarrow> PlaybookStatus \<Rightarrow> exec_error option \<Rightarrow> world \<Rightarrow> PlaybookStatus \<times> world" where
  "syncStatus X st err w =
     (let st1 = (case err of
                   Some e \<Rightarrow> st\<lparr>PbPhase := PlaybookPhaseFailed,
                               FailureReason := PlaybookFailedReasonTaskFailed, FailureMessage := Some e\<rparr>
                 | None \<Rightarrow> st\<lparr>PbPhase := PlaybookPhaseSucceeded\<rparr>)
      in (st1\<lparr>PbStatistics := stats w, PbResult := marshal X (GetResultVariable (vval (wvar w)))\<rparr>,
          w\<lparr>calls := calls w + 1\<rparr>))"

text \<open>\<^verbatim>\<open>playbookExecutor.Exec\<close> with its deferred \<^verbatim>\<open>syncStatus\<close>. A panic runs the deferred
  call too, with the named result still nil.\<close>

definition playbookExec ::
  "xenv \<Rightarrow> PlaybookStatus \<Rightarrow> string + Play list \<Rightarrow> world \<Rightarrow> outcome \<times> PlaybookStatus \<times> world" where
  "playbookExec X st project w =
     (let (r, w1) = (case project of
                       Inl e \<Rightarrow> (Err (ProjectFailed e), w)
                     | Inr plays \<Rightarrow> playsExec X plays w);
          (st', w2) = syncStatus X st (case r of Err e \<Rightarrow> Some e | _ \<Rightarrow> None) w1
      in (r, st', w2))"

subsection \<open>Tasks the executors issue\<close>

text \<open>A task issued below a context: it runs on hosts of the context, it carries every
  condition of the context, its module is registered and it has not run yet.\<close>

definition issued :: "xenv \<Rightarrow> string set \<Rightarrow> string set \<Rightarrow> Task \<Rightarrow> bool" where
  "issued X H W t \<longleftrightarrow>
     set (THosts t) \<subseteq> H \<and> W \<subseteq> set (TWhen t) \<and> findModule X (TModule t) \<noteq> None \<and>
     fresh t \<and> RestartCount t = 0"

lemma completeModule_issued:
  assumes "completeModule X unknown ns task = Inr task'"
  shows "THosts task' = THosts task \<and> TWhen task' = TWhen task \<and> Phase task' = Phase task \<and>
    RestartCount task' = RestartCount task \<and>
    (TModule task' = TModule task \<or> findModule X (TModule task') \<noteq> None)"
  using assms
  by (induction X unknown ns task rule: completeModule.induct) (auto split: option.splits if_splits)

lemma dealTask_cases:
  assumes "dealTask X hosts when block w = (r, w')"
  shows "(w' = w \<and> is_Err r) \<or>
    (\<exists>t e. issued X (set hosts) (set when) t \<and> taskExec X t w = (e, w') \<and>
           r = (case e of None \<Rightarrow> Fine | Some err \<Rightarrow> Err err))"
proof (cases "completeModule X (UnknownField (BTask block))
    (range_keys (order X) (UnknownField (BTask block))) (MarshalBlock X hosts when block)")
  case (Inl e)
  then show ?thesis using assms by (auto simp: dealTask_def)
next
  case (Inr t)
  have "issued X (set hosts) (set when) t" if "TModule t \<noteq> []"
    using completeModule_issued [OF Inr] that by (auto simp: issued_def MarshalBlock_def fresh_def)
  then show ?thesis
    using assms Inr by (auto simp: dealTask_def split: if_splits prod.splits option.splits)
qed

lemma dealRunOnce_sub: "dealRunOnce b hosts = Some hs \<Longrightarrow> set hs \<subseteq> set hosts"
  by (auto simp: dealRunOnce_def split: if_splits list.splits)

lemma set_inheritWhen [simp]: "set (inheritWhen w d) = set w \<union> set d"
  by (simp add: inheritWhen_def)

subsection \<open>The meaning of block trees\<close>

text \<open>
  What a list of blocks does, as a big-step relation: the rules of the documentation of
  \<^verbatim>\<open>dealBlock\<close>, one per case. A \<^verbatim>\<open>rescue\<close> section runs when the main section returns an
  error and its outcome replaces that error; an \<^verbatim>\<open>always\<close> section runs after either, and its
  errors are joined.
\<close>

definition child :: "blockExecutor \<Rightarrow> string list \<Rightarrow> Block \<Rightarrow> blockExecutor" where
  "child e hosts b =
     \<lparr>bhosts = hosts, bignoreErrors = dealIgnoreErrors (BIgnoreErrors (BBase b)) (bignoreErrors e),
      bwhen = inheritWhen (bwhen e) (BWhen (BBase b)),
      btags = JoinTag (BTaggable (BBase b)) (btags e)\<rparr>"

inductive runs :: "xenv \<Rightarrow> blockExecutor \<Rightarrow> Block list \<Rightarrow> world \<Rightarrow> outcome \<Rightarrow> world \<Rightarrow> bool"
  and runs1 :: "xenv \<Rightarrow> blockExecutor \<Rightarrow> Block \<Rightarrow> world \<Rightarrow> outcome \<Rightarrow> world \<Rightarrow> bool"
  and always :: "xenv \<Rightarrow> blockExecutor \<Rightarrow> Block \<Rightarrow> outcome \<Rightarrow> world \<Rightarrow> outcome \<Rightarrow> world \<Rightarrow> bool"
  for X :: xenv
where
  runs_nil: "runs X e [] w Fine w"
| runs_no_host: "dealRunOnce (BRunOnce (BBase b)) (bhosts e) = None \<Longrightarrow>
    runs X e (b # bs) w (Panic ''slice bounds out of range'') w"
| runs_bad_vars: "dealRunOnce (BRunOnce (BBase b)) (bhosts e) = Some hs \<Longrightarrow>
    mergeVars X (BVars (BBase b)) hs w = (Some err, w1) \<Longrightarrow>
    runs X e (b # bs) w (Err (VarFailed err)) w1"
| runs_cons: "dealRunOnce (BRunOnce (BBase b)) (bhosts e) = Some hs \<Longrightarrow>
    mergeVars X (BVars (BBase b)) hs w = (None, w1) \<Longrightarrow>
    runs1 X (child e hs b) b w1 Fine w2 \<Longrightarrow> runs X e bs w2 r w3 \<Longrightarrow> runs X e (b # bs) w r w3"
| runs_stop: "dealRunOnce (BRunOnce (BBase b)) (bhosts e) = Some hs \<Longrightarrow>
    mergeVars X (BVars (BBase b)) hs w = (None, w1) \<Longrightarrow>
    runs1 X (child e hs b) b w1 r w2 \<Longrightarrow> r \<noteq> Fine \<Longrightarrow> runs X e (b # bs) w r w2"
| section_fine: "BBlock b \<noteq> [] \<Longrightarrow> runs X c (BBlock b) w Fine w1 \<Longrightarrow>
    always X c b Fine w1 r w2 \<Longrightarrow> runs1 X c b w r w2"
| section_rescued: "BBlock b \<noteq> [] \<Longrightarrow> runs X c (BBlock b) w (Err err) w1 \<Longrightarrow> BRescue b \<noteq> [] \<Longrightarrow>
    runs X c (BRescue b) w1 r2 w2 \<Longrightarrow> always X c b r2 w2 r w3 \<Longrightarrow> runs1 X c b w r w3"
| section_failed: "BBlock b \<noteq> [] \<Longrightarrow> runs X c (BBlock b) w (Err err) w1 \<Longrightarrow> BRescue b = [] \<Longrightarrow>
    always X c b (Err err) w1 r w2 \<Longrightarrow> runs1 X c b w r w2"
| section_panic: "BBlock b \<noteq> [] \<Longrightarrow> runs X c (BBlock b) w (Panic m) w1 \<Longrightarrow>
    runs1 X c b w (Panic m) w1"
| included: "BBlock b = [] \<Longrightarrow> IncludeTasks b \<noteq> [] \<Longrightarrow> runs1 X c b w Fine w"
| disabled: "BBlock b = [] \<Longrightarrow> IncludeTasks b = [] \<Longrightarrow>
    \<not> IsEnabled (btags c) (onlyTags X) (skipTags X) \<Longrightarrow> runs1 X c b w Fine w"
| leaf: "BBlock b = [] \<Longrightarrow> IncludeTasks b = [] \<Longrightarrow>
    IsEnabled (btags c) (onlyTags X) (skipTags X) \<Longrightarrow>
    dealTask X (bhosts c) (bwhen c) b w = (r, w1) \<Longrightarrow> runs1 X c b w r w1"
| always_none: "BAlways b = [] \<or> is_Panic r \<Longrightarrow> always X c b r w r w"
| always_run: "BAlways b \<noteq> [] \<Longrightarrow> \<not> is_Panic r \<Longrightarrow> runs X c (BAlways b) w r3 w1 \<Longrightarrow>
    always X c b r w (joinErr r r3) w1"

inductive_cases always_noneE: "always X c b r w r' w'"

definition body :: "xenv \<Rightarrow> blockExecutor \<Rightarrow> Block \<Rightarrow> world \<Rightarrow> outcome \<times> world" where
  "body X c b w =
     (if BBlock b \<noteq> [] then dealBlock X c b w
      else if IncludeTasks b \<noteq> [] then (Fine, w)
      else if IsEnabled (btags c) (onlyTags X) (skipTags X) then dealTask X (bhosts c) (bwhen c) b w
      else (Fine, w))"

lemma blockExec_Cons:
  "blockExec X e (b # bs) w =
     (case dealRunOnce (BRunOnce (BBase b)) (bhosts e) of
        None \<Rightarrow> (Panic ''slice bounds out of range'', w)
      | Some hs \<Rightarrow>
          (case mergeVars X (BVars (BBase b)) hs w of
             (Some err, w1) \<Rightarrow> (Err (VarFailed err), w1)
           | (None, w1) \<Rightarrow> seqExec (body X (child e hs b) b) (blockExec X e bs) w1))"
  by (simp add: blockExec.simps body_def child_def seqExec_def Let_def cong: if_cong option.case_cong)

lemma joinErr_Fine [simp]: "joinErr r Fine = r"
  by (cases r) simp_all

lemma runs_blockExec:
  "runs X e bs w r w' \<Longrightarrow> blockExec X e bs w = (r, w')"
  "runs1 X c b w r w' \<Longrightarrow> body X c b w = (r, w')"
  "always X c b r w r' w' \<Longrightarrow>
     (let (r3, w3) = (if \<not> is_Panic r \<and> BAlways b \<noteq> [] then blockExec X c (BAlways b) w else (Fine, w))
      in (joinErr r r3, w3)) = (r', w')"
  by (induction rule: runs_runs1_always.inducts)
     (auto simp: blockExec_Cons seqExec_def body_def blockExec.simps(1) dealBlock.simps)

definition covered :: "xenv \<Rightarrow> Block list \<Rightarrow> bool" where
  "covered X bs \<longleftrightarrow> (\<forall>c w r w'. blockExec X c bs w = (r, w') \<longrightarrow> runs X c bs w r w')"

lemma always_covered:
  assumes "covered X (BAlways b)"
    and "(let (r3, w3) = (if \<not> is_Panic r \<and> BAlways b \<noteq> [] then blockExec X c (BAlways b) w else (Fine, w))
          in (joinErr r r3, w3)) = (r', w')"
  shows "always X c b r w r' w'"
proof (cases "\<not> is_Panic r \<and> BAlways b \<noteq> []")
  case True
  then show ?thesis
    using assms by (auto simp: covered_def split: prod.splits intro: always_run)
next
  case False
  then show ?thesis using assms(2) by (auto intro: always_none)
qed

lemma body_covered:
  assumes "covered X (BBlock b)" "covered X (BRescue b)" "covered X (BAlways b)"
    and "body X c b w = (r, w')"
  shows "runs1 X c b w r w'"
proof (cases "BBlock b = []")
  case True
  then show ?thesis
    using assms(4) by (auto simp: body_def split: if_splits intro: included disabled leaf)
next
  case False
  obtain r1 w1 where b1: "blockExec X c (BBlock b) w = (r1, w1)" by fastforce
  then have run1: "runs X c (BBlock b) w r1 w1" using assms(1) by (simp add: covered_def)
  have d: "dealBlock X c b w = (r, w')" using assms(4) False by (simp add: body_def)
  show ?thesis
  proof (cases r1)
    case Fine
    then have "always X c b Fine w1 r w'"
      using d b1 by (intro always_covered [OF assms(3)]) (simp add: dealBlock.simps)
    then show ?thesis using False run1 Fine by (auto intro: section_fine)
  next
    case (Err err)
    obtain r2 w2 where b2: "(if BRescue b \<noteq> [] then blockExec X c (BRescue b) w1 else (Err err, w1)) = (r2, w2)"
      by fastforce
    have "always X c b r2 w2 r w'"
      using d b1 b2 Err by (intro always_covered [OF assms(3)]) (simp add: dealBlock.simps)
    moreover have "runs X c (BRescue b) w1 r2 w2" if "BRescue b \<noteq> []"
      using that b2 assms(2) by (simp add: covered_def)
    ultimately show ?thesis
      using False run1 Err b2 section_rescued [of b X c w err w1 r2 w2]
      by (cases "BRescue b = []") (auto intro: section_failed)
  next
    case (Panic m)
    then show ?thesis using d b1 False run1 by (auto simp: dealBlock.simps intro: section_panic)
  qed
qed

lemma all_covered: "covered X bs"
proof (induction "size_list size bs" arbitrary: bs rule: less_induct)
  case less
  show ?case
  proof (cases bs)
    case Nil
    then show ?thesis by (auto simp: covered_def blockExec.simps intro: runs_nil)
  next
    case (Cons b bs')
    have "covered X (BBlock b)" "covered X (BRescue b)" "covered X (BAlways b)"
      by (rule less; use size_sections [of b] in \<open>simp add: Cons\<close>)+
    note body = body_covered [OF this]
    have "covered X bs'" by (rule less) (simp add: Cons)
    then show ?thesis
      unfolding covered_def Cons
      by (auto simp: blockExec_Cons seqExec_def covered_def
          split: option.splits prod.splits if_splits
          intro: runs_no_host runs_bad_vars runs_cons runs_stop dest!: body)
  qed
qed

text \<open>
  Claim C1. The block executor implements the rules. For every list of blocks, nested to any
  depth, in every context and world, the executor returns, with the one outcome and the one
  world that the rules for blocks, \<^verbatim>\<open>rescue\<close> and \<^verbatim>\<open>always\<close> sections, includes, tag selection
  and tasks allow.
\<close>

theorem blockExec_refines: "runs X e bs w r w' \<longleftrightarrow> blockExec X e bs w = (r, w')"
  using runs_blockExec(1) all_covered unfolding covered_def by metis

subsection \<open>Relations that every run respects\<close>

text \<open>
  The interface between the task executor and the executors above it: a relation between the
  world before and after that is reflexive and transitive, monotone in the hosts and antitone
  in the conditions, and respected by merging variables and by running an issued task. Such a
  relation holds across every block tree, role, batch and play.
\<close>

locale run_relation =
  fixes X :: xenv and R :: "string set \<Rightarrow> string set \<Rightarrow> world \<Rightarrow> world \<Rightarrow> bool"
  assumes same: "R H W w w"
    and chain: "R H W w w1 \<Longrightarrow> R H W w1 w2 \<Longrightarrow> R H W w w2"
    and widen: "R H W w w' \<Longrightarrow> H \<subseteq> H' \<Longrightarrow> W' \<subseteq> W \<Longrightarrow> R H' W' w w'"
    and merge: "mergeVars X nodes hosts w = (e, w') \<Longrightarrow> R H W w w'"
    and task: "issued X H W t \<Longrightarrow> taskExec X t w = (err, w') \<Longrightarrow> R H W w w'"
begin

lemma dealTask_rel: "dealTask X hosts when' block w = (r, w') \<Longrightarrow> R (set hosts) (set when') w w'"
  using dealTask_cases same task by metis

lemma child_widen:
  assumes "R (set (bhosts (child e hs b))) (set (bwhen (child e hs b))) w w'"
    and "dealRunOnce (BRunOnce (BBase b)) (bhosts e) = Some hs"
  shows "R (set (bhosts e)) (set (bwhen e)) w w'"
  using assms(1) by (rule widen) (use dealRunOnce_sub [OF assms(2)] in \<open>auto simp: child_def\<close>)

lemma runs_rel:
  "runs X e bs w r w' \<Longrightarrow> R (set (bhosts e)) (set (bwhen e)) w w'"
  "runs1 X e b w r w' \<Longrightarrow> R (set (bhosts e)) (set (bwhen e)) w w'"
  "always X e b r0 w r w' \<Longrightarrow> R (set (bhosts e)) (set (bwhen e)) w w'"
proof (induction rule: runs_runs1_always.inducts)
  case (runs_cons b e hs w w1 w2 bs r w3)
  then show ?case using merge child_widen chain by metis
next
  case (runs_stop b e hs w w1 r w2 bs)
  then show ?case using merge child_widen chain by metis
next
  case (leaf b c w r w1)
  then show ?case using dealTask_rel by metis
next
  case (section_rescued b c w err w1 r2 w2 r w3)
  then show ?case using chain by metis
qed (use same merge chain in metis)+

lemma blockExec_rel:
  "blockExec X e bs w = (r, w') \<Longrightarrow> R (set (bhosts e)) (set (bwhen e)) w w'"
  using runs_rel(1) all_covered unfolding covered_def by metis

lemma seqExec_rel:
  assumes "\<And>w r w'. f w = (r, w') \<Longrightarrow> R H W w w'" "\<And>w r w'. g w = (r, w') \<Longrightarrow> R H W w w'"
    and "seqExec f g w = (r, w')"
  shows "R H W w w'"
  using assms(3) unfolding seqExec_def
  by (auto split: prod.splits if_splits intro: assms(1) chain [OF assms(1) assms(2)])

lemma roleExec_rel_aux:
  "Y = X \<Longrightarrow> roleExec Y hosts ie when' tags role w = (r, w') \<Longrightarrow> R (set hosts) (set when') w w'"
  "Y = X \<Longrightarrow> depsExec Y hosts ie when' tags deps w = (r, w') \<Longrightarrow> R (set hosts) (set when') w w'"
proof (induction Y hosts ie when' tags role w and Y hosts ie when' tags deps w
    arbitrary: r w' and r w' rule: roleExec_depsExec.induct)
  case (1 Y hosts ie when' tags role w)
  obtain e w1 where m: "mergeVars X (RVars role) hosts w = (e, w1)" by fastforce
  obtain r2 w2 where d: "depsExec X hosts ie when' tags (RoleDependency role) w1 = (r2, w2)" by fastforce
  note m' = merge [OF m, of "set hosts" "set when'"]
  have blk: "R (set hosts) (set when') w2 w'"
    if "blockExec X \<lparr>bhosts = hosts, bignoreErrors = ie, bwhen = inheritWhen when' (RWhen role),
                     btags = tags\<rparr> (RBlock role) w2 = (r, w')"
    by (rule widen [OF blockExec_rel [OF that]]) auto
  show ?case
  proof (cases e)
    case None
    have "R (set hosts) (set when') w1 w2" using 1(1) [of None w1] None m d 1(2) by simp
    with m' have w2: "R (set hosts) (set when') w w2" by (rule chain)
    then show ?thesis
      using 1(2,3) m d None blk chain [OF w2]
      by (auto simp: roleExec.simps split: if_splits)
  next
    case (Some err)
    then show ?thesis using 1(2,3) m m' by (simp add: roleExec.simps)
  qed
next
  case (2 Y hosts ie when' tags w)
  then show ?case by (simp add: depsExec.simps same)
next
  case (3 Y hosts ie when' tags dep deps w)
  obtain r1 w1 where d: "roleExec X hosts (dealIgnoreErrors (RIgnoreErrors dep) ie)
      (inheritWhen when' (RWhen dep)) (JoinTag (RTaggable dep) tags) dep w = (r1, w1)" by fastforce
  have "R (set hosts) (set (inheritWhen when' (RWhen dep))) w w1"
    using 3(1) 3(3) d by simp
  then have w1: "R (set hosts) (set when') w w1" by (rule widen) auto
  then show ?case
    using 3(2) [of "(r1, w1)" r1 w1] 3(3,4) d chain [OF w1]
    by (auto simp: depsExec.simps split: if_splits)
qed

lemmas roleExec_rel = roleExec_rel_aux(1) [OF refl]

lemma batchRoles_rel: "batchRoles X play serials rs w = (r, w') \<Longrightarrow> R (set serials) {} w w'"
proof (induction rs arbitrary: w)
  case (Cons role rs)
  obtain r1 w1 where d: "roleExec X serials (dealIgnoreErrors (RIgnoreErrors role) (PIgnoreErrors play))
      (RWhen role) (JoinTag (RTaggable role) (PTaggable play)) role w = (r1, w1)" by fastforce
  have "R (set serials) {} w w1" by (rule widen [OF roleExec_rel [OF d]]) auto
  then show ?case using Cons d chain by (auto split: if_splits)
qed (simp add: same)

lemma playBlocks_rel: "playBlocks X play serials bs w = (r, w') \<Longrightarrow> R (set serials) {} w w'"
  using blockExec_rel by (fastforce simp: playBlocks_def)

lemma execBatch_rel:
  assumes "execBatch X play serials w = (r, w')"
  shows "R (set serials) {} w w'"
proof -
  obtain e w1 where m: "mergeVars X (PVars play) serials w = (e, w1)" by fastforce
  have w1: "R (set serials) {} w w1" by (rule merge [OF m])
  show ?thesis
  proof (cases "serials = [] \<or> e \<noteq> None")
    case True
    then show ?thesis using assms m w1 same by (auto simp: execBatch_def split: if_splits)
  next
    case False
    then have "seqExec (playBlocks X play serials (PreTasks play))
        (seqExec (batchRoles X play serials (Roles play))
          (seqExec (playBlocks X play serials (PTasks play))
            (playBlocks X play serials (PostTasks play)))) w1 = (r, w')"
      using assms m by (simp add: execBatch_def)
    then have "R (set serials) {} w1 w'"
      by (elim seqExec_rel [rotated 2] playBlocks_rel batchRoles_rel)
    then show ?thesis by (rule chain [OF w1])
  qed
qed

lemma execBatchHosts_rel:
  "execBatchHosts X play batches w = (r, w') \<Longrightarrow> R (set (concat batches)) {} w w'"
proof (induction batches arbitrary: w r w')
  case (Cons serials batches)
  have a: "R (set (concat (serials # batches))) {} u u'" if "execBatch X play serials u = (q, u')" for u u' q
    by (rule widen [OF execBatch_rel [OF that]]) auto
  have b: "R (set (concat (serials # batches))) {} u u'"
    if "execBatchHosts X play batches u = (q, u')" for u u' q
    by (rule widen [OF Cons.IH [OF that]]) auto
  show ?case using Cons.prems seqExec_rel [OF a b] by simp
qed (simp add: same)

end

lemma split_batches_sub: "split_batches hosts sis b e = Inr bs \<Longrightarrow> set (concat bs) \<subseteq> set hosts"
proof (induction hosts sis b e arbitrary: bs rule: split_batches.induct)
  case (2 hosts si sis b e)
  then show ?case
    by (fastforce simp: Let_def bind_res_Inr_conv slice_def split: if_splits
        dest: in_set_takeD in_set_dropD)
qed simp

lemma dealSerial_sub:
  assumes "dealSerial X serial hosts = Inr bs"
  shows "set (concat bs) \<subseteq> set hosts"
proof (cases "serial = []")
  case True
  then show ?thesis using assms by (auto simp: dealSerial_def GroupHostBySerial_def)
next
  case False
  then show ?thesis
    using assms split_batches_sub
    by (fastforce simp: dealSerial_def GroupHostBySerial_def bind_res_Inr_conv
        split: sum.splits serial_error.splits)
qed

text \<open>The same across whole plays: fact gathering runs the module \<^verbatim>\<open>setup\<close>, which has to be
  registered.\<close>

context run_relation
begin

lemma gather_rel:
  assumes "findModule X ''setup'' \<noteq> None" "dealGatherFacts X g hosts w = (r, w')"
  shows "R (set hosts) {} w w'"
proof -
  have "issued X (set hosts) {} (setupTask hosts)"
    using assms(1) by (simp add: issued_def setupTask_def fresh_def)
  from task [OF this] show ?thesis
    using assms(2) same by (auto simp: dealGatherFacts_def split: if_splits prod.splits option.splits)
qed

lemma playExec_rel:
  assumes known: "findModule X ''setup'' \<noteq> None" and run: "playExec X play w = (r, w')"
  shows "w' = w \<or> (\<exists>hosts. GetHostnames X (vval (wvar w)) (PlayHost play) [] = Inr hosts \<and>
                       R (set hosts) {} w w')"
proof (cases "\<exists>h hs. GetHostnames X (vval (wvar w)) (PlayHost play) [] = Inr (h # hs)")
  case True
  then obtain h hs where hosts: "GetHostnames X (vval (wvar w)) (PlayHost play) [] = Inr (h # hs)"
    by blast
  have batches: "R (set (h # hs)) {} u u'"
    if "(case dealSerial X (PSerial play) (h # hs) of
           Inl r \<Rightarrow> (r, u)
         | Inr bs \<Rightarrow> execBatchHosts X play (dealPlayRunOnce (PRunOnce play) (h # hs) bs) u) = (q, u')"
    for u q u'
  proof (cases "dealSerial X (PSerial play) (h # hs)")
    case (Inl e)
    then show ?thesis using that same by simp
  next
    case (Inr bs)
    have "set (concat (dealPlayRunOnce (PRunOnce play) (h # hs) bs)) \<subseteq> set (h # hs)"
      using dealSerial_sub [OF Inr] by (auto simp: dealPlayRunOnce_def)
    moreover have "R (set (concat (dealPlayRunOnce (PRunOnce play) (h # hs) bs))) {} u u'"
      using that Inr execBatchHosts_rel by simp
    ultimately show ?thesis by (auto intro: widen)
  qed
  show ?thesis
    using run hosts seqExec_rel [OF gather_rel [OF known] batches] by (auto simp: playExec_def)
next
  case False
  then show ?thesis
    using run by (auto simp: playExec_def split: sum.splits list.splits hosts_error.splits)
qed

lemma playsExec_rel:
  assumes "findModule X ''setup'' \<noteq> None"
  shows "playsExec X plays w = (r, w') \<Longrightarrow> R UNIV {} w w'"
proof (induction plays arbitrary: w r w')
  case (Cons play plays)
  have "R UNIV {} u u'" if "playExec X play u = (q, u')" for u q u'
    using playExec_rel [OF assms that] same by (auto intro: widen)
  from seqExec_rel [OF this Cons.IH] Cons.prems show ?case by simp
qed (simp add: same)

end

lemma playbookExec_world:
  assumes "playbookExec X st0 project w = (r, st, w')"
  obtains w1 where "stats w' = stats w1" "tasks w' = tasks w1" "wvar w' = wvar w1"
    "PbStatistics st = stats w1" "w1 = w \<or> (\<exists>plays r'. project = Inr plays \<and> playsExec X plays w = (r', w1))"
proof (cases project)
  case (Inl e)
  with assms that [of w] show ?thesis by (auto simp: playbookExec_def syncStatus_def Let_def)
next
  case (Inr plays)
  with assms that [of "snd (playsExec X plays w)"] show ?thesis
    by (auto simp: playbookExec_def syncStatus_def Let_def split: prod.splits outcome.splits)
qed

subsection \<open>Which tasks a run issues\<close>

text \<open>
  A path through a block tree: from a block of the list through \<^verbatim>\<open>block\<close>, \<^verbatim>\<open>rescue\<close> and
  \<^verbatim>\<open>always\<close> sections down to a block with a task of its own.
\<close>

inductive path_to :: "Block list \<Rightarrow> Block list \<Rightarrow> bool" where
  path_task: "b \<in> set bs \<Longrightarrow> BBlock b = [] \<Longrightarrow> IncludeTasks b = [] \<Longrightarrow> path_to bs [b]"
| path_section: "b \<in> set bs \<Longrightarrow> BBlock b \<noteq> [] \<Longrightarrow>
    path_to (BBlock b) path \<or> path_to (BRescue b) path \<or> path_to (BAlways b) path \<Longrightarrow>
    path_to bs (b # path)"

text \<open>The fields of a task that running it leaves alone.\<close>

definition written :: "Task \<Rightarrow> Task" where
  "written t = t\<lparr>RestartCount := 0, Phase := PhaseNone, HostResults := []\<rparr>"

definition task_of :: "xenv \<Rightarrow> Block \<Rightarrow> Task \<Rightarrow> bool" where
  "task_of X b t \<longleftrightarrow>
     TName t = BName (BBase b) \<and> TIgnoreError t = BIgnoreErrors (BBase b) \<and>
     TRetries t = BRetries (BTask b) \<and> TFailedWhen t = BFailedWhen (BTask b) \<and>
     TRegister t = BRegister (BTask b) \<and> TRegisterType t = BRegisterType (BTask b) \<and>
     findModule X (TModule t) \<noteq> None \<and>
     (\<exists>v. marshal X v = Some (TArgs t) \<and>
          (get (UnknownField (BTask b)) (TModule t) = Some v))"

definition carries :: "xenv \<Rightarrow> blockExecutor \<Rightarrow> Block list \<Rightarrow> Task \<Rightarrow> bool" where
  "carries X e path t \<longleftrightarrow>
     set (TWhen t) = set (bwhen e) \<union> (\<Union>b\<in>set path. set (BWhen (BBase b))) \<and>
     THosts t = (if list_ex (\<lambda>b. BRunOnce (BBase b)) path then [hd (bhosts e)] else bhosts e) \<and>
     (let tags = set (Tags (btags e)) \<union> (\<Union>b\<in>set path. set (Tags (BTaggable (BBase b))))
      in selected tags (set (onlyTags X)) \<and> \<not> skipped tags (set (skipTags X)))"

lemma written_fields:
  assumes "written s = written t"
  shows "TName s = TName t" "THosts s = THosts t" "TIgnoreError s = TIgnoreError t"
    "TRetries s = TRetries t" "TWhen s = TWhen t" "TFailedWhen s = TFailedWhen t"
    "TModule s = TModule t" "TArgs s = TArgs t" "TRegister s = TRegister t"
    "TRegisterType s = TRegisterType t"
  using assms by (cases s; cases t; simp add: written_def)+

lemma written_cong:
  assumes "written s = written t"
  shows "task_of X b s = task_of X b t"
  using written_fields [OF assms] by (simp add: task_of_def)

lemma written_execTask [simp]: "written (fst (execTask X t v)) = written t"
  by (simp add: execTask_def written_def Let_def split: prod.split)

lemma runTaskLoop_trace:
  "runTaskLoop X t w = (e, t', w') \<Longrightarrow>
     \<exists>new. tasks w' = new @ tasks w \<and> (\<forall>s\<in>set new. written s = written t)"
proof (induction t w arbitrary: e t' w' rule: runTaskLoop_induct [of X])
  case (step t w t2 ok1 w1 t3 v3 ok2 w2)
  have t2: "written t2 = written t" by (simp add: step(1) written_def)
  then have t3: "written t3 = written t" using written_execTask [of X t2 "wvar w1"] by (simp add: step(3))
  have tr: "tasks w1 = (if ok1 then t2 # tasks w else tasks w)"
    "tasks w2 = (if ok2 then t3 # tasks w1 else tasks w1)"
    using step(2,4) by (auto simp: patch_def Let_def)
  show ?case
  proof (cases "\<not> IsComplete t \<and> ok1 \<and> ok2")
    case True
    then have "runTaskLoop X t3 w2 = (e, t', w')" using step(5,7) by simp
    from step(6) [OF _ _ _ this] True tr t2 t3 show ?thesis by auto
  next
    case False
    then show ?thesis using step(5,7) tr t2 t3 by (auto split: if_splits)
  qed
qed

lemma taskExec_trace:
  assumes "taskExec X t w = (e, w')"
  shows "\<exists>new. tasks w' = new @ tasks w \<and> (\<forall>s\<in>set new. written s = written t)"
proof (cases "fst (Create X w)")
  case True
  obtain e1 t1 w1 where run: "runTaskLoop X t (snd (Create X w)) = (e1, t1, w1)"
    by (cases "runTaskLoop X t (snd (Create X w))") auto
  have "tasks w' = tasks w1" "tasks (snd (Create X w)) = tasks w"
    using assms True run
    by (auto simp: taskExec_def Create_def Let_def split: if_splits option.splits)
  with runTaskLoop_trace [OF run] show ?thesis by auto
next
  case False
  then show ?thesis using assms by (auto simp: taskExec_def Create_def split: bool.splits)
qed

lemma completeModule_from:
  assumes "completeModule X unknown ns task = Inr t" "set ns \<subseteq> fst ` set unknown"
  shows "t = task \<or> (\<exists>n a data. t = task\<lparr>TModule := n, TArgs := data\<rparr> \<and> findModule X n \<noteq> None \<and>
    get unknown n = Some a \<and> marshal X a = Some data)"
  using assms
proof (induction ns)
  case (Cons n ns)
  obtain a where a: "get unknown n = Some a"
    using Cons.prems(2) get_None_iff [of unknown n] by auto
  show ?case
    using Cons a by (fastforce split: option.splits if_splits)
qed simp

lemma dealTask_trace:
  assumes "dealTask X hosts when' b w = (r, w')"
  shows "\<exists>new. tasks w' = new @ tasks w \<and>
    (\<forall>t\<in>set new. task_of X b t \<and> TWhen t = when' \<and> THosts t = hosts)"
proof -
  let ?m = "completeModule X (UnknownField (BTask b)) (range_keys (order X) (UnknownField (BTask b)))
    (MarshalBlock X hosts when' b)"
  consider "w' = w" | t e where "?m = Inr t" "TModule t \<noteq> []" "taskExec X t w = (e, w')"
    using assms by (auto simp: dealTask_def Let_def split: sum.splits if_splits prod.splits option.splits)
  then show ?thesis
  proof cases
    case (2 t e)
    have "t \<noteq> MarshalBlock X hosts when' b" using 2(2) by (auto simp: MarshalBlock_def)
    then have "task_of X b t" "TWhen t = when'" "THosts t = hosts"
      using completeModule_from [OF 2(1)] by (auto simp: task_of_def MarshalBlock_def)
    then show ?thesis
      using taskExec_trace [OF 2(3)] written_fields written_cong by metis
  qed simp
qed

lemma mergeVars_frame:
  assumes "mergeVars X nodes hosts w = (e, w')"
  shows "tasks w' = tasks w \<and> stats w' = stats w \<and> calls w' = calls w \<and>
    same_frame (wvar w) (wvar w') \<and> (store_ok (wvar w) \<longrightarrow> store_ok (wvar w'))"
  using assms runtime.MergeVar_frame by (fastforce simp: mergeVars_def split: prod.splits)

definition comes_from ::
  "xenv \<Rightarrow> blockExecutor \<Rightarrow> (Block list \<Rightarrow> Block \<Rightarrow> bool) \<Rightarrow> world \<Rightarrow> world \<Rightarrow> bool" where
  "comes_from X e P w w' \<longleftrightarrow>
     (\<exists>new. tasks w' = new @ tasks w \<and>
        (\<forall>t\<in>set new. \<exists>path b. P path b \<and> task_of X b t \<and> carries X e path t))"

definition in_list :: "Block list \<Rightarrow> Block list \<Rightarrow> Block \<Rightarrow> bool" where
  "in_list bs path b \<longleftrightarrow> path_to bs path \<and> b = last path"

definition below :: "Block \<Rightarrow> Block list \<Rightarrow> Block \<Rightarrow> bool" where
  "below c path b \<longleftrightarrow> (path = [] \<and> b = c \<and> BBlock b = [] \<and> IncludeTasks b = []) \<or>
     (BBlock c \<noteq> [] \<and> (in_list (BBlock c) path b \<or> in_list (BRescue c) path b \<or> in_list (BAlways c) path b))"

lemma path_to_nonempty: "path_to bs path \<Longrightarrow> path \<noteq> []"
  by (erule path_to.cases) simp_all

lemma path_mono: "path_to bs path \<Longrightarrow> set bs \<subseteq> set cs \<Longrightarrow> path_to cs path"
  by (erule path_to.cases) (auto intro: path_task path_section)

lemma in_list_Cons: "in_list bs path b \<Longrightarrow> in_list (c # bs) path b"
  using path_mono [of bs path "c # bs"] by (auto simp: in_list_def)

lemma below_in_list:
  assumes "below c path b"
  shows "in_list (c # bs) (c # path) b"
proof (cases "path = []")
  case True
  then show ?thesis using assms path_to_nonempty path_task [of c "c # bs"] by (auto simp: below_def in_list_def)
next
  case False
  then show ?thesis using assms path_section [of c "c # bs" path] by (auto simp: below_def in_list_def)
qed

lemma comes_same [simp]: "tasks w' = tasks w \<Longrightarrow> comes_from X e P w w'"
  by (simp add: comes_from_def)

lemma comes_trans: "comes_from X e P w w1 \<Longrightarrow> comes_from X e P w1 w2 \<Longrightarrow> comes_from X e P w w2"
  unfolding comes_from_def by (metis Un_iff append.assoc set_append)

lemma comes_mono: "comes_from X e P w w' \<Longrightarrow> (\<And>path b. P path b \<Longrightarrow> Q path b) \<Longrightarrow> comes_from X e Q w w'"
  unfolding comes_from_def by meson

lemma carries_child:
  assumes "dealRunOnce (BRunOnce (BBase b)) (bhosts e) = Some hs" "carries X (child e hs b) path t"
  shows "carries X e (b # path) t"
proof -
  have "hs = (if BRunOnce (BBase b) then [hd (bhosts e)] else bhosts e)"
    using assms(1) by (auto simp: dealRunOnce_def split: if_splits list.splits)
  moreover have "set (Tags (btags (child e hs b))) = set (Tags (btags e)) \<union> set (Tags (BTaggable (BBase b)))"
    by (auto simp: child_def)
  ultimately show ?thesis
    using assms(2) by (simp add: carries_def child_def Un_assoc Un_left_commute)
qed

lemma comes_child:
  assumes "dealRunOnce (BRunOnce (BBase c)) (bhosts e) = Some hs"
    and "comes_from X (child e hs c) (below c) w w'"
  shows "comes_from X e (in_list (c # bs)) w w'"
  using assms(2) carries_child [OF assms(1)] below_in_list unfolding comes_from_def by meson

lemma runs_comes:
  "runs X e bs w r w' \<Longrightarrow> comes_from X e (in_list bs) w w'"
  "runs1 X c b w r w' \<Longrightarrow> comes_from X c (below b) w w'"
  "always X c b r0 w r w' \<Longrightarrow> comes_from X c (in_list (BAlways b)) w w'"
proof (induction rule: runs_runs1_always.inducts)
  case (runs_cons b e hs w w1 w2 bs r w3)
  have "comes_from X e (in_list (b # bs)) w w1" using mergeVars_frame [OF runs_cons(2)] by simp
  moreover have "comes_from X e (in_list (b # bs)) w1 w2"
    using comes_child [OF runs_cons(1) runs_cons(4)] .
  moreover have "comes_from X e (in_list (b # bs)) w2 w3"
    using comes_mono [OF runs_cons(6) in_list_Cons] .
  ultimately show ?case using comes_trans by blast
next
  case (runs_stop b e hs w w1 r w2 bs)
  have "mergeVars X (BVars (BBase b)) hs w = (None, w1)" by fact
  then have "comes_from X e (in_list (b # bs)) w w1" using mergeVars_frame by simp
  moreover have "comes_from X e (in_list (b # bs)) w1 w2" by (rule comes_child) fact+
  ultimately show ?case by (rule comes_trans)
next
  case (runs_bad_vars b e hs w err w1 bs)
  then show ?case using mergeVars_frame by simp
next
  case (section_fine b c w w1 r w2)
  have main: "BBlock b \<noteq> []" by fact
  have "comes_from X c (below b) w w1"
    by (rule comes_mono, fact) (simp add: below_def main)
  moreover have "comes_from X c (below b) w1 w2"
    by (rule comes_mono, fact) (simp add: below_def main)
  ultimately show ?case by (rule comes_trans)
next
  case (section_rescued b c w err w1 r2 w2 r w3)
  have main: "BBlock b \<noteq> []" by fact
  have "comes_from X c (below b) w w1"
    by (rule comes_mono, fact) (simp add: below_def main)
  moreover have "comes_from X c (below b) w1 w2"
    by (rule comes_mono, fact) (simp add: below_def main)
  moreover have "comes_from X c (below b) w2 w3"
    by (rule comes_mono, fact) (simp add: below_def main)
  ultimately show ?case using comes_trans by blast
next
  case (section_failed b c w err w1 r w2)
  have main: "BBlock b \<noteq> []" by fact
  have "comes_from X c (below b) w w1"
    by (rule comes_mono, fact) (simp add: below_def main)
  moreover have "comes_from X c (below b) w1 w2"
    by (rule comes_mono, fact) (simp add: below_def main)
  ultimately show ?case by (rule comes_trans)
next
  case (section_panic b c w m w1)
  have main: "BBlock b \<noteq> []" by fact
  show ?case
    by (rule comes_mono, fact) (simp add: below_def main)
next
  case (leaf b c w r w1)
  have "below b [] b" using leaf(1,2) by (simp add: below_def)
  moreover have "carries X c [] t" if "TWhen t = bwhen c" "THosts t = bhosts c" for t
    using that leaf(3) by (simp add: carries_def IsEnabled_set)
  ultimately show ?case
    using dealTask_trace [OF leaf(4)] unfolding comes_from_def by metis
qed simp_all


subsection \<open>Statistics and the store across a run\<close>

definition counted :: "string set \<Rightarrow> string set \<Rightarrow> world \<Rightarrow> world \<Rightarrow> bool" where
  "counted H W w w' \<longleftrightarrow>
     Total (stats w) \<le> Total (stats w') \<and> settled (stats w) \<le> settled (stats w') \<and>
     settled (stats w') + Total (stats w) \<le> Total (stats w') + settled (stats w)"

interpretation stat: run_relation X counted for X
proof
  fix H W t w err w'
  assume "taskExec X t w = (err, w')"
  from taskExec_stats [OF this] show "counted H W w w'" by (auto simp: counted_def)
next
  fix nodes hosts w e w' H W
  assume "mergeVars X nodes hosts w = (e, w')"
  then show "counted H W w w'" using mergeVars_frame by (simp add: counted_def)
qed (auto simp: counted_def)

definition kept :: "variable \<Rightarrow> variable \<Rightarrow> bool" where
  "kept v v' \<longleftrightarrow> same_frame v v' \<and> (store_ok v \<longrightarrow> store_ok v')"

definition modules_ok :: "xenv \<Rightarrow> bool" where
  "modules_ok X \<longleftrightarrow>
     (\<forall>n f a h t v r v'. findModule X n = Some f \<longrightarrow> f a h t v = (r, v') \<longrightarrow> kept v v')"

lemma kept_refl [simp]: "kept v v"
  by (simp add: kept_def same_frame_def)

lemma kept_trans [trans]: "kept v v1 \<Longrightarrow> kept v1 v2 \<Longrightarrow> kept v v2"
  by (auto simp: kept_def same_frame_def)

lemma kept_MergeVar: "MergeVar E (MergeRuntimeVariable E' nodes hosts) v = (e, v') \<Longrightarrow> kept v v'"
  using runtime.MergeVar_frame by (auto simp: kept_def)

lemma kept_setVar: "setVar X key x host v = (e, v') \<Longrightarrow> kept v v'"
  using kept_MergeVar by (auto simp: setVar_def split: sum.splits prod.splits)

lemma kept_runModule:
  assumes "modules_ok X"
  shows "kept v (snd (runModule X t host v))"
proof -
  have "kept v v'" if "findModule X n = Some f" "f a h t v = (r, v')" for n f a h t v r v'
    using assms that unfolding modules_ok_def by blast
  then show ?thesis
    by (simp add: runModule_def Let_def split: sum.splits bool.splits option.splits prod.splits)
qed

lemma kept_executeModule:
  assumes "modules_ok X"
  shows "kept v (snd (executeModule X t item host v))"
proof -
  obtain e1 v1 where s1: "setVar X VariableItem item host v = (e1, v1)" by fastforce
  obtain res v2 where s2: "runModule X t host v1 = (res, v2)" by fastforce
  obtain e3 v3 where s3: "setVar X VariableItem VNil host v2 = (e3, v3)" by fastforce
  have k: "kept v v1" "kept v1 v2" "kept v2 v3"
    using kept_setVar [OF s1] kept_setVar [OF s3] kept_runModule [OF assms, of v1 t host] s2 by auto
  have "snd (executeModule X t item host v) \<in> {snd (runModule X t host v), v1, v3}"
    by (simp add: executeModule_def s1 s2 s3 split: option.splits prod.splits)
  then show ?thesis
    using k kept_trans [OF k(1) kept_trans [OF k(2) k(3)]] kept_runModule [OF assms] by auto
qed

lemma kept_runItems: "modules_ok X \<Longrightarrow> kept v (snd (runItems X t host items v))"
proof (induction items arbitrary: v)
  case (Cons item items)
  obtain a b c d v1 where e: "executeModule X t item host v = ((a, b, c, d), v1)"
    by (metis prod.collapse)
  have "kept v v1" using kept_executeModule [OF Cons.prems, of v t item host] by (simp add: e)
  then show ?case
    using Cons.IH [OF Cons.prems, of v1] kept_trans by (auto simp: e Let_def split: prod.splits)
qed simp

lemma kept_execTaskHost:
  assumes "modules_ok X"
  shows "kept v (snd (execTaskHost X t h v))"
proof -
  have reg: "kept u (snd (dealRegister X t h rs u))" for rs u
    by (auto simp: dealRegister_def Let_def split: prod.splits dest: kept_setVar)
  show ?thesis
    unfolding execTaskHost_def Let_def
    using reg kept_trans [OF kept_runItems [OF assms] reg]
    by (simp split: sum.splits prod.splits) (metis snd_conv)
qed

lemma kept_runHosts: "modules_ok X \<Longrightarrow> kept v (snd (runHosts X t is rs v))"
proof (induction "is" arbitrary: rs v)
  case (Cons i "is")
  obtain r v' where e: "execTaskHost X t (THosts t ! i) v = (r, v')" by fastforce
  have "kept v v'" using kept_execTaskHost [OF Cons.prems, of v t "THosts t ! i"] by (simp add: e)
  then show ?case using Cons.IH [OF Cons.prems] kept_trans by (auto simp: e)
qed simp

lemma kept_execTask:
  assumes "modules_ok X"
  shows "kept v (snd (execTask X t v))"
  using kept_runHosts [OF assms, of v t "schedule X (length (THosts t))"
      "replicate (length (THosts t)) zero_result"]
  by (auto simp: execTask_def Let_def split: prod.splits)

lemma kept_runTaskLoop:
  assumes "modules_ok X"
  shows "kept (wvar w) (wvar (snd (snd (runTaskLoop X t w))))"
proof (induction t w rule: runTaskLoop_induct [of X])
  case (step t w t2 ok1 w1 t3 v3 ok2 w2)
  have k: "wvar w1 = wvar w" "kept (wvar w) (wvar w2)"
    using step(2,3,4) kept_execTask [OF assms, of "wvar w" t2] by (auto simp: patch_def Let_def)
  show ?case using step(5,6) k kept_trans [OF k(2)] by auto
qed

definition stored :: "xenv \<Rightarrow> string set \<Rightarrow> string set \<Rightarrow> world \<Rightarrow> world \<Rightarrow> bool" where
  "stored X H W w w' \<longleftrightarrow> (modules_ok X \<longrightarrow> kept (wvar w) (wvar w'))"

lemma kept_taskExec:
  assumes "modules_ok X" "taskExec X t w = (e, w')"
  shows "kept (wvar w) (wvar w')"
proof -
  obtain e1 t1 w1 where run: "runTaskLoop X t (snd (Create X w)) = (e1, t1, w1)"
    by (cases "runTaskLoop X t (snd (Create X w))") auto
  have "wvar (snd (Create X w)) = wvar w" by (simp add: Create_def)
  then have "kept (wvar w) (wvar w1)"
    using kept_runTaskLoop [OF assms(1), of "snd (Create X w)" t] by (simp add: run)
  then show ?thesis
    using assms(2) run
    by (auto simp: taskExec_def Create_def Let_def split: bool.splits if_splits option.splits)
qed

interpretation store: run_relation X "stored X" for X
proof
  fix H W w w1 w2
  assume "stored X H W w w1" "stored X H W w1 w2"
  then show "stored X H W w w2" unfolding stored_def using kept_trans by blast
next
  fix H W t w err w'
  assume "taskExec X t w = (err, w')"
  then show "stored X H W w w'" by (simp add: stored_def kept_taskExec)
next
  fix nodes hosts w e w' H W
  assume "mergeVars X nodes hosts w = (e, w')"
  then show "stored X H W w w'" using mergeVars_frame by (auto simp: stored_def kept_def)
qed (auto simp: stored_def)


definition tallied :: "xenv \<Rightarrow> string set \<Rightarrow> string set \<Rightarrow> world \<Rightarrow> world \<Rightarrow> bool" where
  "tallied X H W w w' \<longleftrightarrow>
     (client_ok X \<longrightarrow> (\<exists>new. tasks w' = new @ tasks w \<and> stats w' = tally new (stats w)))"

interpretation tallies: run_relation X "tallied X" for X
proof
  fix H W w w1 w2
  assume "tallied X H W w w1" "tallied X H W w1 w2"
  then show "tallied X H W w w2" unfolding tallied_def by (metis append.assoc tally_append)
next
  fix H W t w err w'
  assume "issued X H W t" "taskExec X t w = (err, w')"
  then show "tallied X H W w w'" using taskExec_tally by (auto simp: tallied_def issued_def)
next
  fix nodes hosts w e w' H W
  assume "mergeVars X nodes hosts w = (e, w')"
  then show "tallied X H W w w'" using mergeVars_frame by (simp add: tallied_def)
qed (auto simp: tallied_def)

text \<open>
  Claim C34. The statistics of a playbook count every task once. Whatever the project and the outcome
  (rescued errors and panics included), when the API server answers, the statistics that the run
  writes into the status are those it started with plus one for each task that the server has seen
  come to an end: in the total, and in success, failed or ignored as the task ended.
\<close>

theorem playbookExec_statistics:
  assumes "playbookExec X st0 project w = (r, st, w')"
    and "client_ok X" "findModule X ''setup'' \<noteq> None"
  shows "\<exists>new. tasks w' = new @ tasks w \<and>
    (let over = filter IsComplete new
     in Total (PbStatistics st) = Total (stats w) + length over \<and>
        Success (PbStatistics st) = Success (stats w) + length (filter (\<lambda>t. Phase t = TaskPhaseSuccess) over) \<and>
        Failed (PbStatistics st) = Failed (stats w) + length (filter IsFailed over) \<and>
        Ignored (PbStatistics st) = Ignored (stats w) + length (filter (\<lambda>t. Phase t = TaskPhaseIgnored) over))"
proof -
  obtain w1 where w1: "tasks w' = tasks w1" "PbStatistics st = stats w1"
    "w1 = w \<or> (\<exists>plays r'. project = Inr plays \<and> playsExec X plays w = (r', w1))"
    using playbookExec_world [OF assms(1)] by metis
  then have "tallied X UNIV {} w w1"
    using tallies.playsExec_rel [OF assms(3)] tallies.same by blast
  then show ?thesis using assms(2) w1 by (auto simp: tallied_def tally_def Let_def)
qed

subsection \<open>Panics\<close>

lemma dealTask_no_panic: "dealTask X hosts when' b w = (r, w') \<Longrightarrow> \<not> is_Panic r"
  by (auto simp: dealTask_def Let_def split: sum.splits if_splits prod.splits option.splits)

lemma joinErr_panic [simp]: "is_Panic (joinErr a b) \<longleftrightarrow> is_Panic a \<or> is_Panic b"
  by (cases a; cases b) simp_all

lemma dealRunOnce_nonempty: "dealRunOnce b hosts = Some hs \<Longrightarrow> hosts \<noteq> [] \<Longrightarrow> hs \<noteq> []"
  by (auto simp: dealRunOnce_def split: if_splits list.splits)

lemma runs_no_panic:
  "runs X e bs w r w' \<Longrightarrow> bhosts e \<noteq> [] \<Longrightarrow> \<not> is_Panic r"
  "runs1 X e b w r w' \<Longrightarrow> bhosts e \<noteq> [] \<Longrightarrow> \<not> is_Panic r"
  "always X e b r0 w r w' \<Longrightarrow> bhosts e \<noteq> [] \<Longrightarrow> \<not> is_Panic r0 \<Longrightarrow> \<not> is_Panic r"
proof (induction rule: runs_runs1_always.inducts)
  case (runs_no_host b e bs w)
  then show ?case by (auto simp: dealRunOnce_def split: if_splits list.splits)
next
  case (leaf b c w r w1)
  then show ?case using dealTask_no_panic by blast
qed (auto simp: child_def dest: dealRunOnce_nonempty)

lemma blockExec_no_panic: "bhosts e \<noteq> [] \<Longrightarrow> \<not> is_Panic (fst (blockExec X e bs w))"
  using runs_no_panic(1) all_covered [of X bs] unfolding covered_def by (metis prod.collapse)

lemma seqExec_no_panic:
  "(\<And>w. \<not> is_Panic (fst (f w))) \<Longrightarrow> (\<And>w. \<not> is_Panic (fst (g w))) \<Longrightarrow> \<not> is_Panic (fst (seqExec f g w))"
  unfolding seqExec_def by (auto split: prod.splits) (metis fst_conv)+

lemma roleExec_no_panic:
  "hosts \<noteq> [] \<Longrightarrow> \<not> is_Panic (fst (roleExec X hosts ie when' tags role w))"
  "hosts \<noteq> [] \<Longrightarrow> \<not> is_Panic (fst (depsExec X hosts ie when' tags deps w))"
proof (induction X hosts ie when' tags role w and X hosts ie when' tags deps w
    rule: roleExec_depsExec.induct)
  case (1 X hosts ie when' tags role w)
  then show ?case
    by (auto simp: roleExec.simps blockExec_no_panic split: prod.splits option.splits)
next
  case (3 X hosts ie when' tags dep deps w)
  then show ?case by (auto simp: depsExec.simps split: prod.splits)
qed (simp add: depsExec.simps)

lemma execBatchHosts_no_panic: "\<not> is_Panic (fst (execBatchHosts X play batches w))"
proof (induction batches arbitrary: w)
  case (Cons serials batches)
  have blocks: "\<not> is_Panic (fst (playBlocks X play serials bs u))" if "serials \<noteq> []" for bs u
    using that by (simp add: playBlocks_def blockExec_no_panic)
  have roles: "\<not> is_Panic (fst (batchRoles X play serials rs u))" if "serials \<noteq> []" for rs u
  proof (induction rs arbitrary: u)
    case (Cons role rs)
    then show ?case using roleExec_no_panic(1) [OF that] by (auto split: prod.splits) (metis fst_conv)
  qed simp
  have "\<not> is_Panic (fst (execBatch X play serials u))" for u
    by (simp add: execBatch_def seqExec_no_panic blocks roles split: prod.splits option.splits)
  then show ?case using Cons.IH by (simp add: seqExec_no_panic)
qed simp


subsection \<open>Tags and ignored errors below a block\<close>

definition quiet :: "world \<Rightarrow> world \<Rightarrow> bool" where
  "quiet w w' \<longleftrightarrow> tasks w' = tasks w \<and> stats w' = stats w \<and> calls w' = calls w"

lemma quiet_merge: "mergeVars X nodes hosts w = (e, w') \<Longrightarrow> quiet w w'"
  using mergeVars_frame by (simp add: quiet_def)

lemma child_skipped:
  "skipped (set (Tags (btags e))) skip \<Longrightarrow> skipped (set (Tags (btags (child e hs b)))) skip"
  by (auto simp: child_def elim: skipped_mono)

lemma runs_skipped:
  "runs X e bs w r w' \<Longrightarrow> skipped (set (Tags (btags e))) (set (skipTags X)) \<Longrightarrow> quiet w w'"
  "runs1 X e b w r w' \<Longrightarrow> skipped (set (Tags (btags e))) (set (skipTags X)) \<Longrightarrow> quiet w w'"
  "always X e b r0 w r w' \<Longrightarrow> skipped (set (Tags (btags e))) (set (skipTags X)) \<Longrightarrow> quiet w w'"
proof (induction rule: runs_runs1_always.inducts)
  case (leaf b c w r w1)
  then show ?case by (simp add: IsEnabled_set)
qed (auto simp: quiet_def child_skipped dest!: quiet_merge [unfolded quiet_def])

text \<open>
  Skipping a block skips everything inside. When a tag of the surrounding blocks,
  role or play is in \<^verbatim>\<open>--skip-tags\<close>, no block below it, however nested and whatever its own
  tags (\<^verbatim>\<open>always\<close> included), creates or runs a task: nothing is sent to the API server and
  nothing is counted. Only the variables of the blocks are still merged.
\<close>

theorem blockExec_skipped:
  assumes "x \<in> set (Tags (btags e))" "x \<in> set (skipTags X)" "blockExec X e bs w = (r, w')"
  shows "tasks w' = tasks w \<and> stats w' = stats w \<and> calls w' = calls w"
proof -
  have "skipped (set (Tags (btags e))) (set (skipTags X))"
    using assms(1,2) by (auto simp: skipped_def)
  then show ?thesis
    using runs_skipped(1) all_covered assms(3) unfolding covered_def quiet_def by metis
qed

lemma child_ignore:
  "child (e\<lparr>bignoreErrors := ie\<rparr>) hs b =
     (child e hs b)\<lparr>bignoreErrors := dealIgnoreErrors (BIgnoreErrors (BBase b)) ie\<rparr>"
  by (simp add: child_def)

lemma runs_ignore:
  "runs X e bs w r w' \<Longrightarrow> runs X (e\<lparr>bignoreErrors := ie\<rparr>) bs w r w'"
  "runs1 X e b w r w' \<Longrightarrow> runs1 X (e\<lparr>bignoreErrors := ie\<rparr>) b w r w'"
  "always X e b r0 w r w' \<Longrightarrow> always X (e\<lparr>bignoreErrors := ie\<rparr>) b r0 w r w'"
proof (induction arbitrary: ie and ie and ie rule: runs_runs1_always.inducts)
  case (runs_cons b e hs w w1 w2 bs r w3)
  then show ?case
    by (intro runs_runs1_always.intros(4) [of b _ hs _ _ w1 w2]) (simp_all add: child_ignore)
next
  case (runs_stop b e hs w w1 r w2 bs)
  then show ?case
    by (intro runs_runs1_always.intros(5) [of b _ hs _ _ w1]) (simp_all add: child_ignore)
next
  case (section_rescued b c w err w1 r2 w2 r w3)
  then show ?case by (intro runs_runs1_always.intros(7) [of b _ _ _ err w1 r2 w2]) simp_all
next
  case (leaf b c w r w1)
  then show ?case by (intro runs_runs1_always.intros(12)) simp_all
qed (auto intro: runs_runs1_always.intros)

lemma blockExec_ignore: "blockExec X (e\<lparr>bignoreErrors := ie\<rparr>) bs w = blockExec X e bs w"
  using runs_ignore(1) runs_blockExec(1) all_covered unfolding covered_def by (metis prod.collapse)

lemma blockExec_ignore_eq:
  "blockExec X \<lparr>bhosts = h, bignoreErrors = ie, bwhen = c, btags = t\<rparr> bs w =
   blockExec X \<lparr>bhosts = h, bignoreErrors = ie', bwhen = c, btags = t\<rparr> bs w"
  using blockExec_ignore [where e = "\<lparr>bhosts = h, bignoreErrors = ie', bwhen = c, btags = t\<rparr>" and ie = ie]
  by simp

lemma roleExec_ignore:
  "roleExec X hosts ie when' tags role w = roleExec X hosts ie' when' tags role w"
  "depsExec X hosts ie when' tags deps w = depsExec X hosts ie' when' tags deps w"
proof (induction X hosts ie when' tags role w and X hosts ie when' tags deps w
    arbitrary: ie' and ie' rule: roleExec_depsExec.induct)
  case (1 X hosts ie when' tags role w)
  obtain e w1 where m: "mergeVars X (RVars role) hosts w = (e, w1)" by fastforce
  show ?case
    using 1 [of e w1 ie'] m
    by (cases e) (simp_all add: roleExec.simps blockExec_ignore_eq [where h = hosts and ie = ie and ie' = ie']
        split: prod.split)
next
  case (3 X hosts ie when' tags dep deps w)
  let ?f = "\<lambda>ie. roleExec X hosts (dealIgnoreErrors (RIgnoreErrors dep) ie)
      (inheritWhen when' (RWhen dep)) (JoinTag (RTaggable dep) tags) dep w"
  obtain r w1 where d: "?f ie = (r, w1)" by fastforce
  moreover have "?f ie' = ?f ie" using 3(1) by metis
  ultimately show ?case using 3(2) [of "(r, w1)" r w1 ie'] by (auto simp: depsExec.simps)
qed (simp add: depsExec.simps)

text \<open>
  Ignored errors are not inherited. The \<^verbatim>\<open>ignore_errors\<close> setting of a play has no
  effect on any run of its batches, although it is passed down to every block: only the
  setting written on the task itself reaches the task executor.
\<close>

theorem execBatchHosts_ignores_ignore_errors:
  "execBatchHosts X (play\<lparr>PIgnoreErrors := ie\<rparr>) batches w = execBatchHosts X play batches w"
proof -
  have blocks: "playBlocks X (play\<lparr>PIgnoreErrors := ie\<rparr>) s bs = playBlocks X play s bs" for s bs
    unfolding playBlocks_def by (rule ext) (simp add: blockExec_ignore_eq [where ie = ie and ie' = "PIgnoreErrors play"])
  have roles: "batchRoles X (play\<lparr>PIgnoreErrors := ie\<rparr>) s rs = batchRoles X play s rs" for s rs
  proof (induction rs)
    case (Cons role rs)
    then show ?case
      by (intro ext) (simp add: roleExec_ignore(1) [of X s "dealIgnoreErrors (RIgnoreErrors role) ie" _ _ _ _
          "dealIgnoreErrors (RIgnoreErrors role) (PIgnoreErrors play)"] split: prod.split)
  qed auto
  have "execBatch X (play\<lparr>PIgnoreErrors := ie\<rparr>) s = execBatch X play s" for s
    unfolding execBatch_def by (intro ext) (simp add: blocks roles split: prod.split option.split)
  then show ?thesis
    by (induction batches arbitrary: w) (simp_all add: seqExec_def split: prod.split)
qed

subsection \<open>A concrete playbook\<close>

definition base :: "string \<Rightarrow> string list \<Rightarrow> BlockBase" where
  "base n tags =
     \<lparr>BName = n, BVars = [], BRunOnce = False, BIgnoreErrors = None, BTaggable = \<lparr>Tags = tags\<rparr>,
      BWhen = []\<rparr>"

definition debug_task :: BlockTask where
  "debug_task =
     \<lparr>BFailedWhen = [], BLoop = None, BRegister = [], BRegisterType = [], BRetries = 0,
      UnknownField = [(''debug'', VStr ''hello'')]\<rparr>"

definition sample_block :: Block where
  "sample_block = Block (base ''say'' []) debug_task [] [] [] []"

definition sample_tree :: Block where
  "sample_tree = Block (base ''group'' []) debug_task [] [sample_block] [sample_block] [sample_block]"

definition skip_env :: xenv where
  "skip_env = sample_xenv\<lparr>skipTags := [''net'']\<rparr>"

definition net_context :: blockExecutor where
  "net_context = \<lparr>bhosts = [''n1''], bignoreErrors = None, bwhen = [], btags = \<lparr>Tags = [''net'']\<rparr>\<rparr>"

theorem blockExec_skipped_witness:
  "stats (snd (blockExec skip_env net_context [sample_tree] sample_world)) = stats sample_world"
proof -
  obtain r w' where run: "blockExec skip_env net_context [sample_tree] sample_world = (r, w')"
    by fastforce
  have "''net'' \<in> set (Tags (btags net_context))" "''net'' \<in> set (skipTags skip_env)"
    by (simp_all add: net_context_def skip_env_def)
  from blockExec_skipped [OF this run] show ?thesis by (simp add: run)
qed

definition run_env :: xenv where
  "run_env = sample_xenv\<lparr>findModule := (\<lambda>n. if n = ''setup'' \<or> n = ''debug''
     then Some (\<lambda>args h t v. ((''success'', [], None), v)) else None)\<rparr>"

definition sample_play :: Play where
  "sample_play =
     \<lparr>PlayHost = [''n1''], GatherFacts = True, PSerial = [], PRunOnce = False, PVars = [],
      PIgnoreErrors = None, PTaggable = \<lparr>Tags = []\<rparr>, PreTasks = [], Roles = [],
      PTasks = [sample_tree], PostTasks = []\<rparr>"

definition sample_status :: PlaybookStatus where
  "sample_status =
     \<lparr>PbStatistics = stats sample_world, PbResult = None, PbPhase = PlaybookPhaseRunning,
      FailureReason = NoReason, FailureMessage = None\<rparr>"


text \<open>A task that fails and is rescued, and one whose failure is ignored.\<close>

definition rescue_env :: xenv where
  "rescue_env = run_env\<lparr>findModule := (findModule run_env)(''probe'' \<mapsto>
     (\<lambda>args h t v. ((''failed'', [], Some ''no answer''), v)))\<rparr>"

definition probe_task :: BlockTask where
  "probe_task = debug_task\<lparr>UnknownField := [(''probe'', VStr ''http'')]\<rparr>"

definition rescue_tree :: Block where
  "rescue_tree =
     Block (base ''group'' []) debug_task []
       [Block (base ''probe'' []) probe_task [] [] [] []]
       [sample_block]
       [Block ((base ''cleanup'' [])\<lparr>BIgnoreErrors := Some True\<rparr>) probe_task [] [] [] []]"

definition rescue_run :: "outcome \<times> PlaybookStatus \<times> world" where
  "rescue_run = playbookExec rescue_env sample_status (Inr [sample_play\<lparr>PTasks := [rescue_tree]\<rparr>]) sample_world"

lemma rescue_over:
  "map (\<lambda>t. (TName t, Phase t)) (filter IsComplete (tasks (snd (snd rescue_run)))) =
     [(''cleanup'', TaskPhaseIgnored), (''say'', TaskPhaseSuccess), (''probe'', TaskPhaseFailed),
      (''gather_facts'', TaskPhaseSuccess)]"
  by code_simp

theorem playbookExec_statistics_witness:
  "let st = fst (snd rescue_run)
   in fst rescue_run = Fine \<and> Total (PbStatistics st) = 4 \<and> Success (PbStatistics st) = 2 \<and>
      Failed (PbStatistics st) = 1 \<and> Ignored (PbStatistics st) = 1"
proof -
  let ?new = "tasks (snd (snd rescue_run))"
  have run: "playbookExec rescue_env sample_status (Inr [sample_play\<lparr>PTasks := [rescue_tree]\<rparr>]) sample_world =
      (fst rescue_run, fst (snd rescue_run), snd (snd rescue_run))" by (simp add: rescue_run_def)
  have "client_ok rescue_env" "findModule rescue_env ''setup'' \<noteq> None"
    by (simp_all add: client_ok_def rescue_env_def run_env_def sample_xenv_def env.defs)
  from playbookExec_statistics [OF run this] have
    "Total (PbStatistics (fst (snd rescue_run))) = length (filter IsComplete ?new) \<and>
     Success (PbStatistics (fst (snd rescue_run))) = length (filter (\<lambda>t. Phase t = TaskPhaseSuccess) (filter IsComplete ?new)) \<and>
     Failed (PbStatistics (fst (snd rescue_run))) = length (filter IsFailed (filter IsComplete ?new)) \<and>
     Ignored (PbStatistics (fst (snd rescue_run))) = length (filter (\<lambda>t. Phase t = TaskPhaseIgnored) (filter IsComplete ?new))"
    by (simp add: sample_world_def Let_def)
  moreover have "fst rescue_run = Fine" by code_simp
  moreover have "length (filter IsComplete ?new) = 4"
    "length (filter (\<lambda>t. Phase t = TaskPhaseSuccess) (filter IsComplete ?new)) = 2"
    "length (filter IsFailed (filter IsComplete ?new)) = 1"
    "length (filter (\<lambda>t. Phase t = TaskPhaseIgnored) (filter IsComplete ?new)) = 1"
    by code_simp+
  ultimately show ?thesis by (simp add: Let_def)
qed

end
