(* ===== verification/Project.thy ===== *)
theory Project
  imports Blocks Kahn Template Complex_Main "HOL-Library.Multiset"
begin

text \<open>
  Loading a project (\<^verbatim>\<open>pkg/project/project.go\<close>, \<^verbatim>\<open>pkg/project/path.go\<close>,
  \<^verbatim>\<open>pkg/utils/files.go\<close>, \<^verbatim>\<open>Playbook.Validate\<close>): the base playbook, the playbooks it imports and
  those injected by the configuration, with the variable files, roles and task files they name,
  become the list of plays the playbook executor runs. The file system, the YAML decoder and the
  template engine are parameters (\<open>penv\<close>). Import, include and role dependencies are recursive
  calls on what a file says; the model counts them down, and \<open>None\<close> stands for a call that has
  not returned within the count. Errors and panics are values.
\<close>

subsection \<open>Paths\<close>

text \<open>\<^verbatim>\<open>path/filepath\<close> on a system with forward slashes.\<close>

definition clean_step :: "bool \<Rightarrow> string list \<Rightarrow> string \<Rightarrow> string list" where
  "clean_step rooted out p =
     (if p = ''..'' then
        (if out \<noteq> [] \<and> last out \<noteq> ''..'' then butlast out else if rooted then out else out @ [p])
      else out @ [p])"

definition Clean :: "string \<Rightarrow> string" where
  "Clean s =
     (let rooted = (s \<noteq> [] \<and> hd s = CHR ''/'');
          parts = filter (\<lambda>p. p \<noteq> [] \<and> p \<noteq> ''.'') (Split (CHR ''/'') s);
          out = join (CHR ''/'') (foldl (clean_step rooted) [] parts)
      in if rooted then CHR ''/'' # out else if out = [] then ''.'' else out)"

definition Join :: "string list \<Rightarrow> string" where
  "Join es =
     (let ds = dropWhile (\<lambda>e. e = []) es
      in if ds = [] then [] else Clean (join (CHR ''/'') ds))"

definition Dir :: "string \<Rightarrow> string" where
  "Dir path = Clean (rev (dropWhile (\<lambda>c. c \<noteq> CHR ''/'') (rev path)))"

definition Ext :: "string \<Rightarrow> string" where
  "Ext name =
     (if CHR ''.'' \<in> set name then CHR ''.'' # rev (takeWhile (\<lambda>c. c \<noteq> CHR ''.'') (rev name)) else [])"

definition GetImportPlaybookRelPath :: "string \<Rightarrow> string \<Rightarrow> string list" where
  "GetImportPlaybookRelPath basePlaybook includePlaybook =
     [Join [Dir basePlaybook, includePlaybook],
      Join [Dir basePlaybook, ''playbooks'', includePlaybook],
      Join [''playbooks'', includePlaybook]]"

definition GetVarsFilesRelPath :: "string \<Rightarrow> string \<Rightarrow> string list" where
  "GetVarsFilesRelPath basePlaybook varsFile = [Join [Dir basePlaybook, varsFile]]"

definition GetRoleRelPath :: "string \<Rightarrow> string \<Rightarrow> string list" where
  "GetRoleRelPath basePlaybook role =
     [Join [Dir (Dir basePlaybook), ''roles'', role],
      Join [Dir basePlaybook, ''roles'', role],
      Join [''roles'', role]]"

definition GetRoleMetaRelPath :: "string \<Rightarrow> string list" where
  "GetRoleMetaRelPath baseRole = [Join [baseRole, ''meta'', ''main.yaml''], Join [baseRole, ''meta'', ''main.yml'']]"

definition GetRoleTaskRelPath :: "string \<Rightarrow> string list" where
  "GetRoleTaskRelPath baseRole = [Join [baseRole, ''tasks'', ''main.yaml''], Join [baseRole, ''tasks'', ''main.yml'']]"

definition GetRoleDefaultsRelPath :: "string \<Rightarrow> string list" where
  "GetRoleDefaultsRelPath baseRole =
     [Join [baseRole, ''defaults'', ''main.yaml''], Join [baseRole, ''defaults'', ''main.yml'']]"

definition GetRoleDefaultsRelDirPath :: "string \<Rightarrow> string list" where
  "GetRoleDefaultsRelDirPath baseRole = [Join [baseRole, ''defaults'', ''main'']]"

definition GetIncludeTaskRelPath :: "string \<Rightarrow> string \<Rightarrow> string \<Rightarrow> string list" where
  "GetIncludeTaskRelPath topdir source includeTask =
     [Join [source, includeTask], Join [source, ''tasks'', includeTask],
      Join [topdir, includeTask], Join [topdir, ''tasks'', includeTask]]"

subsection \<open>Decoded files\<close>

text \<open>
  A block as \<^verbatim>\<open>Block.UnmarshalYAML\<close> leaves it: with a key \<^verbatim>\<open>include_tasks\<close> or \<^verbatim>\<open>block\<close>
  (the first of the two) the task part stays zero, and its map of unknown fields stays \<^verbatim>\<open>nil\<close>;
  otherwise the task part is filled and the map is there.
\<close>

datatype RawBlock =
  RawTask BlockBase BlockTask
| RawInclude BlockBase string
| RawSections BlockBase "RawBlock list" "RawBlock list" "RawBlock list"

datatype RawRole =
  RawRole (RRName: string) (RRVars: "ynode list") (RRIgnoreErrors: "bool option")
          (RRTaggable: Taggable) (RRWhen: "string list") (RRDependency: "RawRole list")
          (RRBlock: "RawBlock list")

text \<open>A play with the parts that loading replaces kept beside the rest (\<open>RPlay\<close>).\<close>

record RawPlay =
  ImportPlaybook :: string
  VarsFiles :: "string list"
  RPlay :: Play
  RPreTasks :: "RawBlock list"
  RTasks :: "RawBlock list"
  RPostTasks :: "RawBlock list"
  RRoles :: "RawRole list"

datatype load_error =
  CycleImport string | ReadFailed string | DecodeFailed string | TemplateFailed string
| ImportNotFound string | ImportSelf string | VarsNotFound string | UnsupportedVars
| RoleNotFound string | DependencyFailed string load_error | DefaultsFailed string load_error
| IncludeNotFound string | InjectionFailed | EmptyHosts | NilMapPanic

record penv =
  statFs :: "string \<Rightarrow> bool option"
  readFs :: "string \<Rightarrow> string option"
  readDirFs :: "string \<Rightarrow> (string \<times> bool) list option"
  decodePlays :: "string \<Rightarrow> RawPlay list option"
  decodeBlocks :: "string \<Rightarrow> RawBlock list option"
  decodeRole :: "string \<Rightarrow> RawRole option"
  decodeNode :: "string \<Rightarrow> ynode option"
  decodeInjections :: "val \<Rightarrow> (rat \<times> string) list option"
  pconfig :: "val gomap"
  pengine :: template_engine
  porder :: range_oracle

text \<open>The result of a call: not returned yet, an error, or a value.\<close>

type_synonym 'a load = "(load_error + 'a) option"

definition bind_load :: "'a load \<Rightarrow> ('a \<Rightarrow> 'b load) \<Rightarrow> 'b load" where
  "bind_load r f = (case r of None \<Rightarrow> None | Some (Inl e) \<Rightarrow> Some (Inl e) | Some (Inr x) \<Rightarrow> f x)"

fun mapL :: "('a \<Rightarrow> 'b load) \<Rightarrow> 'a list \<Rightarrow> 'b list load" where
  "mapL f [] = Some (Inr [])"
| "mapL f (x # xs) = bind_load (f x) (\<lambda>y. bind_load (mapL f xs) (\<lambda>ys. Some (Inr (y # ys))))"

fun getPath :: "penv \<Rightarrow> string list \<Rightarrow> string \<times> bool" where
  "getPath E [] = ([], False)"
| "getPath E (path # paths) =
     (case statFs E path of Some isDir \<Rightarrow> (path, isDir) | None \<Rightarrow> getPath E paths)"

definition readFile :: "penv \<Rightarrow> string \<Rightarrow> (string \<Rightarrow> 'a option) \<Rightarrow> 'a load" where
  "readFile E path decode =
     (case readFs E path of
        None \<Rightarrow> Some (Inl (ReadFailed path))
      | Some data \<Rightarrow> (case decode data of
                        None \<Rightarrow> Some (Inl (DecodeFailed path))
                      | Some x \<Rightarrow> Some (Inr x)))"

subsection \<open>Blocks\<close>

definition zeroTask :: BlockTask where
  "zeroTask = \<lparr>BFailedWhen = [], BLoop = None, BRegister = [], BRegisterType = [], BRetries = 0,
               UnknownField = []\<rparr>"

definition annotated :: "string \<Rightarrow> BlockTask \<Rightarrow> BlockTask" where
  "annotated topdir t =
     t\<lparr>UnknownField := put ''annotations'' (VMap [(''kubesphere.io/rel-path'', VStr topdir)]) (UnknownField t)\<rparr>"

text \<open>
  One call of \<^verbatim>\<open>dealBlock\<close>; \<open>load\<close> is the call for the blocks of an included file, with the
  directory of that file. Writing the annotation into a \<^verbatim>\<open>nil\<close> map panics.
\<close>

fun dealBlocksWith :: "penv \<Rightarrow> (string \<Rightarrow> RawBlock list \<Rightarrow> Block list load) \<Rightarrow> string \<Rightarrow> string \<Rightarrow>
    RawBlock list \<Rightarrow> Block list load"
  and dealBlockWith :: "penv \<Rightarrow> (string \<Rightarrow> RawBlock list \<Rightarrow> Block list load) \<Rightarrow> string \<Rightarrow> string \<Rightarrow>
    RawBlock \<Rightarrow> Block load" where
  "dealBlocksWith E load topdir source [] = Some (Inr [])"
| "dealBlocksWith E load topdir source (block # blocks) =
     bind_load (dealBlockWith E load topdir source block) (\<lambda>b.
     bind_load (dealBlocksWith E load topdir source blocks) (\<lambda>bs. Some (Inr (b # bs))))"
| "dealBlockWith E load topdir source (RawSections hdr blk resc alw) =
     (if blk \<noteq> [] then
        bind_load (dealBlocksWith E load topdir source blk) (\<lambda>b.
        bind_load (dealBlocksWith E load topdir source resc) (\<lambda>r.
        bind_load (dealBlocksWith E load topdir source alw) (\<lambda>a.
          Some (Inr (Block hdr zeroTask [] b r a)))))
      else Some (Inl NilMapPanic))"
| "dealBlockWith E load topdir source (RawInclude hdr file) =
     (if file \<noteq> [] then
        (let (includeTask, _) = getPath E (GetIncludeTaskRelPath topdir source file)
         in if includeTask = [] then Some (Inl (IncludeNotFound file))
            else bind_load (readFile E includeTask (decodeBlocks E)) (\<lambda>includeBlocks.
                 bind_load (load (Dir includeTask) includeBlocks) (\<lambda>bs.
                   Some (Inr (Block hdr zeroTask file bs [] [])))))
      else Some (Inl NilMapPanic))"
| "dealBlockWith E load topdir source (RawTask hdr task) =
     Some (Inr (Block hdr (annotated topdir task) [] [] [] []))"

fun dealBlock_project :: "penv \<Rightarrow> nat \<Rightarrow> string \<Rightarrow> string \<Rightarrow> RawBlock list \<Rightarrow> Block list load" where
  "dealBlock_project E 0 topdir source blocks = None"
| "dealBlock_project E (Suc n) topdir source blocks =
     dealBlocksWith E (dealBlock_project E n topdir) topdir source blocks"

subsection \<open>Variables\<close>

text \<open>
  The body shared by \<^verbatim>\<open>combineRoleVars\<close> and the loop of \<^verbatim>\<open>dealVarsFiles\<close>: \<open>Inr None\<close> is the
  early \<^verbatim>\<open>return nil\<close> on an empty document, \<open>Inr (Some nodes)\<close> the nodes to append.
\<close>

definition docNodes :: "ynode \<Rightarrow> load_error + ynode list option" where
  "docNodes node =
     (if NKind node \<noteq> DocumentNode \<or> length (NContent node) = 0 then Inr None
      else if length (NContent node) \<noteq> 1 then Inl UnsupportedVars
      else if NKind (hd (NContent node)) = MappingNode then Inr (Some [hd (NContent node)])
      else Inr (Some []))"

fun dealVarsFiles :: "penv \<Rightarrow> string \<Rightarrow> string list \<Rightarrow> Play \<Rightarrow> Play load" where
  "dealVarsFiles E basePlaybook [] p = Some (Inr p)"
| "dealVarsFiles E basePlaybook (varsFileStr # files) p =
     (case ParseFunc (pengine E) (pconfig E) varsFileStr of
        Inl _ \<Rightarrow> Some (Inl (TemplateFailed varsFileStr))
      | Inr varsFile \<Rightarrow>
          (let (file, _) = getPath E (GetVarsFilesRelPath basePlaybook varsFile)
           in if file = [] then Some (Inl (VarsNotFound varsFile))
              else bind_load (readFile E file (decodeNode E)) (\<lambda>doc.
                     case docNodes doc of
                       Inl e \<Rightarrow> Some (Inl e)
                     | Inr None \<Rightarrow> Some (Inr p)
                     | Inr (Some nodes) \<Rightarrow>
                         dealVarsFiles E basePlaybook files (p\<lparr>PVars := PVars p @ nodes\<rparr>))))"

fun addVars :: "ynode list \<Rightarrow> RawRole \<Rightarrow> RawRole" where
  "addVars nodes (RawRole nm vars ie tg wh deps blk) = RawRole nm (vars @ nodes) ie tg wh deps blk"

fun addDependency :: "RawRole \<Rightarrow> RawRole \<Rightarrow> RawRole" where
  "addDependency dep (RawRole nm vars ie tg wh deps blk) = RawRole nm vars ie tg wh (deps @ [dep]) blk"

fun setBlock :: "RawBlock list \<Rightarrow> RawRole \<Rightarrow> RawRole" where
  "setBlock blk' (RawRole nm vars ie tg wh deps blk) = RawRole nm vars ie tg wh deps blk'"

definition combineRoleVars :: "penv \<Rightarrow> string \<Rightarrow> RawRole \<Rightarrow> string \<Rightarrow> RawRole load" where
  "combineRoleVars E path role content =
     (case decodeNode E content of
        None \<Rightarrow> Some (Inl (DecodeFailed path))
      | Some doc \<Rightarrow> (case docNodes doc of
                       Inl e \<Rightarrow> Some (Inl e)
                     | Inr None \<Rightarrow> Some (Inr role)
                     | Inr (Some nodes) \<Rightarrow> Some (Inr (addVars nodes role))))"

fun str_less :: "string \<Rightarrow> string \<Rightarrow> bool" where
  "str_less s [] = False"
| "str_less [] (d # t) = True"
| "str_less (c # s) (d # t) =
     ((of_char c :: nat) < of_char d \<or> c = d \<and> str_less s t)"

text \<open>A stable sort by a comparison function.\<close>

fun insert_by :: "('a \<Rightarrow> 'a \<Rightarrow> bool) \<Rightarrow> 'a \<Rightarrow> 'a list \<Rightarrow> 'a list" where
  "insert_by lt x [] = [x]"
| "insert_by lt x (y # ys) = (if lt y x then y # insert_by lt x ys else x # y # ys)"

definition SliceStable :: "('a \<Rightarrow> 'a \<Rightarrow> bool) \<Rightarrow> 'a list \<Rightarrow> 'a list" where
  "SliceStable lt xs = foldr (insert_by lt) xs []"

fun readEntries :: "penv \<Rightarrow> string \<Rightarrow> (string \<Rightarrow> string \<Rightarrow> 'a \<Rightarrow> 'a load) \<Rightarrow> (string \<times> bool) list \<Rightarrow> 'a \<Rightarrow> 'a load" where
  "readEntries E dir handler [] acc = Some (Inr acc)"
| "readEntries E dir handler ((name, isDir) # entries) acc =
     (if isDir then readEntries E dir handler entries acc
      else if Ext name \<noteq> ''.yaml'' \<and> Ext name \<noteq> ''.yml'' then readEntries E dir handler entries acc
      else
        (let filePath = (if dir = ''.'' then name else dir @ ''/'' @ name)
         in case readFs E filePath of
              None \<Rightarrow> Some (Inl (ReadFailed filePath))
            | Some content \<Rightarrow>
                bind_load (handler filePath content acc) (readEntries E dir handler entries)))"

definition ReadDirFiles :: "penv \<Rightarrow> string \<Rightarrow> (string \<Rightarrow> string \<Rightarrow> 'a \<Rightarrow> 'a load) \<Rightarrow> 'a \<Rightarrow> 'a load" where
  "ReadDirFiles E dir handler acc =
     (case readDirFs E dir of
        None \<Rightarrow> Some (Inl (ReadFailed dir))
      | Some entries \<Rightarrow>
          readEntries E dir handler (SliceStable (\<lambda>a b. str_less (fst a) (fst b)) entries) acc)"

subsection \<open>Roles\<close>

definition wrapError :: "(load_error \<Rightarrow> load_error) \<Rightarrow> 'a load \<Rightarrow> 'a load" where
  "wrapError w r = map_option (map_sum w (\<lambda>x. x)) r"

fun dealDependencies :: "(RawRole \<Rightarrow> RawRole load) \<Rightarrow> RawRole list \<Rightarrow> RawRole \<Rightarrow> RawRole load" where
  "dealDependencies deal [] role = Some (Inr role)"
| "dealDependencies deal (dep # deps) role =
     bind_load (wrapError (DependencyFailed (RRName role)) (deal dep)) (\<lambda>dep'.
       dealDependencies deal deps (addDependency dep' role))"

text \<open>One call of \<^verbatim>\<open>dealRole\<close>; \<open>deal\<close> is the call for a dependency.\<close>

definition dealRoleWith :: "penv \<Rightarrow> (RawRole \<Rightarrow> RawRole load) \<Rightarrow> string \<Rightarrow> RawRole \<Rightarrow> RawRole load" where
  "dealRoleWith E deal basePlaybook role0 =
     (let (baseRole, _) = getPath E (GetRoleRelPath basePlaybook (RRName role0))
      in if baseRole = [] then Some (Inl (RoleNotFound (RRName role0)))
         else
           bind_load
             (let (meta, _) = getPath E (GetRoleMetaRelPath baseRole)
              in if meta \<noteq> [] then
                   bind_load (readFile E meta (decodeRole E)) (\<lambda>roleMeta.
                     dealDependencies deal (RRDependency roleMeta) role0)
                 else Some (Inr role0)) (\<lambda>role1.
           bind_load
             (let (task, _) = getPath E (GetRoleTaskRelPath baseRole)
              in if task \<noteq> [] then
                   bind_load (readFile E task (decodeBlocks E)) (\<lambda>blocks. Some (Inr (setBlock blocks role1)))
                 else Some (Inr role1)) (\<lambda>role2.
           bind_load
             (let (defaults, _) = getPath E (GetRoleDefaultsRelPath baseRole)
              in if defaults \<noteq> [] then
                   (case readFs E defaults of
                      None \<Rightarrow> Some (Inl (ReadFailed defaults))
                    | Some data \<Rightarrow> combineRoleVars E defaults role2 data)
                 else Some (Inr role2)) (\<lambda>role3.
             (let (dirDefaults, isDir) = getPath E (GetRoleDefaultsRelDirPath baseRole)
              in if dirDefaults \<noteq> [] \<and> isDir then
                   wrapError (DefaultsFailed dirDefaults)
                     (ReadDirFiles E dirDefaults (\<lambda>path data role. combineRoleVars E path role data) role3)
                 else Some (Inr role3))))))"

fun dealRole :: "penv \<Rightarrow> nat \<Rightarrow> string \<Rightarrow> RawRole \<Rightarrow> RawRole load" where
  "dealRole E 0 basePlaybook role = None"
| "dealRole E (Suc n) basePlaybook role = dealRoleWith E (dealRole E n basePlaybook) basePlaybook role"

fun dealRoleTask :: "penv \<Rightarrow> nat \<Rightarrow> string \<Rightarrow> RawRole \<Rightarrow> Role load"
  and dealRoleTasks :: "penv \<Rightarrow> nat \<Rightarrow> string \<Rightarrow> RawRole list \<Rightarrow> Role list load" where
  "dealRoleTask E n basePlaybook (RawRole nm vars ie tg wh deps blk) =
     bind_load (dealRoleTasks E n basePlaybook deps) (\<lambda>deps'.
       (let (baseRole, _) = getPath E (GetRoleRelPath basePlaybook nm)
        in bind_load (dealBlock_project E n baseRole (Join [baseRole, ''tasks'']) blk) (\<lambda>bs.
             Some (Inr (Role nm vars ie tg wh deps' bs)))))"
| "dealRoleTasks E n basePlaybook [] = Some (Inr [])"
| "dealRoleTasks E n basePlaybook (r # rs) =
     bind_load (dealRoleTask E n basePlaybook r) (\<lambda>r'.
     bind_load (dealRoleTasks E n basePlaybook rs) (\<lambda>rs'. Some (Inr (r' # rs'))))"

subsection \<open>Injected playbooks\<close>

record entry =
  eorder :: rat
  fromCfg :: bool
  eseq :: nat
  eplay :: RawPlay

definition zeroPlay :: Play where
  "zeroPlay =
     \<lparr>PlayHost = [], GatherFacts = False, PSerial = [], PRunOnce = False, PVars = [],
      PIgnoreErrors = None, PTaggable = \<lparr>Tags = []\<rparr>, PreTasks = [], Roles = [], PTasks = [], PostTasks = []\<rparr>"

definition importPlay :: "string \<Rightarrow> RawPlay" where
  "importPlay path =
     \<lparr>ImportPlaybook = path, VarsFiles = [], RPlay = zeroPlay, RPreTasks = [], RTasks = [],
      RPostTasks = [], RRoles = []\<rparr>"

definition fileEntries :: "RawPlay list \<Rightarrow> entry list" where
  "fileEntries plays =
     map (\<lambda>(i, p). \<lparr>eorder = of_nat (i + 1), fromCfg = False, eseq = i, eplay = p\<rparr>) (enumerate 0 plays)"

fun cfgEntries :: "penv \<Rightarrow> nat \<Rightarrow> (rat \<times> string) list \<Rightarrow> load_error + entry list" where
  "cfgEntries E i [] = Inr []"
| "cfgEntries E i ((weight, path) # injections) =
     (case ParseFunc (pengine E) (pconfig E) path of
        Inl _ \<Rightarrow> Inl (TemplateFailed path)
      | Inr path' \<Rightarrow>
          bind_res (cfgEntries E (Suc i) injections) (\<lambda>es.
            Inr (if TrimSpace path' = [] then es
                 else \<lparr>eorder = weight, fromCfg = True, eseq = i, eplay = importPlay path'\<rparr> # es)))"

definition entry_less :: "entry \<Rightarrow> entry \<Rightarrow> bool" where
  "entry_less a b =
     (if eorder a \<noteq> eorder b then eorder a < eorder b
      else if fromCfg a \<noteq> fromCfg b then fromCfg a
      else eseq a < eseq b)"

definition injectPlaybooks :: "penv \<Rightarrow> RawPlay list \<Rightarrow> load_error + RawPlay list" where
  "injectPlaybooks E plays =
     (case get (pconfig E) ''playbooks'' of
        None \<Rightarrow> Inr plays
      | Some VNil \<Rightarrow> Inr plays
      | Some raw \<Rightarrow>
          (case decodeInjections E raw of
             None \<Rightarrow> Inl InjectionFailed
           | Some injections \<Rightarrow>
               bind_res (cfgEntries E 0 injections) (\<lambda>es.
                 Inr (map eplay (SliceStable entry_less (fileEntries plays @ es))))))"

subsection \<open>Playbooks\<close>

text \<open>The project while it is loaded: the graph of imports and the plays collected so far, each
  with its \<^verbatim>\<open>import_playbook\<close>.\<close>

record pstate =
  playbookGraph :: KahnGraph
  plays :: "(string \<times> Play) list"

definition dealImportPlaybook ::
  "penv \<Rightarrow> (string \<Rightarrow> string \<Rightarrow> pstate \<Rightarrow> pstate load) \<Rightarrow> string \<Rightarrow> RawPlay \<Rightarrow> pstate \<Rightarrow> pstate load" where
  "dealImportPlaybook E load basePlaybook p st =
     (if ImportPlaybook p \<noteq> [] then
        (case ParseFunc (pengine E) (pconfig E) (ImportPlaybook p) of
           Inl _ \<Rightarrow> Some (Inl (TemplateFailed (ImportPlaybook p)))
         | Inr importPlaybookPath \<Rightarrow>
             (if TrimSpace importPlaybookPath = [] then Some (Inr st)
              else
                (let (importPlaybook, _) = getPath E (GetImportPlaybookRelPath basePlaybook importPlaybookPath)
                 in if importPlaybook = [] then Some (Inl (ImportNotFound (ImportPlaybook p)))
                    else if basePlaybook = importPlaybook then Some (Inl (ImportSelf (ImportPlaybook p)))
                    else load basePlaybook importPlaybook st)))
      else Some (Inr st))"

definition dealPlayRole :: "penv \<Rightarrow> nat \<Rightarrow> string \<Rightarrow> RawRole \<Rightarrow> Role load" where
  "dealPlayRole E k basePlaybook role =
     bind_load (dealRole E k basePlaybook role) (dealRoleTask E k basePlaybook)"

fun loadPlays ::
  "penv \<Rightarrow> nat \<Rightarrow> (string \<Rightarrow> string \<Rightarrow> pstate \<Rightarrow> pstate load) \<Rightarrow> string \<Rightarrow> RawPlay list \<Rightarrow> pstate \<Rightarrow> pstate load" where
  "loadPlays E k load basePlaybook [] st = Some (Inr st)"
| "loadPlays E k load basePlaybook (p # ps) st =
     bind_load (dealImportPlaybook E load basePlaybook p st) (\<lambda>st1.
     bind_load (dealVarsFiles E basePlaybook (VarsFiles p) (RPlay p)) (\<lambda>play.
     bind_load (dealBlock_project E k (Dir basePlaybook) (Dir basePlaybook) (RPreTasks p)) (\<lambda>pre.
     bind_load (dealBlock_project E k (Dir basePlaybook) (Dir basePlaybook) (RTasks p)) (\<lambda>tasks.
     bind_load (dealBlock_project E k (Dir basePlaybook) (Dir basePlaybook) (RPostTasks p)) (\<lambda>post.
     bind_load (mapL (dealPlayRole E k basePlaybook) (RRoles p)) (\<lambda>roles.
       loadPlays E k load basePlaybook ps
         (if ImportPlaybook p \<noteq> [] then st1
          else st1\<lparr>plays := plays st1 @ [(ImportPlaybook p,
                 play\<lparr>PreTasks := pre, PTasks := tasks, PostTasks := post, Roles := roles\<rparr>)]\<rparr>)))))))"

text \<open>One call of \<^verbatim>\<open>loadPlaybook\<close>; \<open>load\<close> is the call for an imported playbook.\<close>

definition loadPlaybookWith ::
  "penv \<Rightarrow> nat \<Rightarrow> (string \<Rightarrow> string \<Rightarrow> pstate \<Rightarrow> pstate load) \<Rightarrow> string \<Rightarrow> string \<Rightarrow> pstate \<Rightarrow> pstate load" where
  "loadPlaybookWith E k load fromPlayBook basePlaybook st =
     (let (cycle, graph) = AddEdgeAndCheckCycle (porder E) fromPlayBook basePlaybook (playbookGraph st)
      in if cycle then Some (Inl (CycleImport basePlaybook))
         else
           bind_load (readFile E basePlaybook (decodePlays E)) (\<lambda>raw.
           bind_load (if fromPlayBook = [] then Some (injectPlaybooks E raw) else Some (Inr raw)) (\<lambda>ps.
             loadPlays E k load basePlaybook ps (st\<lparr>playbookGraph := graph\<rparr>))))"

fun loadPlaybook :: "penv \<Rightarrow> nat \<Rightarrow> nat \<Rightarrow> string \<Rightarrow> string \<Rightarrow> pstate \<Rightarrow> pstate load" where
  "loadPlaybook E k 0 fromPlayBook basePlaybook st = None"
| "loadPlaybook E k (Suc n) fromPlayBook basePlaybook st =
     loadPlaybookWith E k (loadPlaybook E k n) fromPlayBook basePlaybook st"

fun Validate :: "(string \<times> Play) list \<Rightarrow> load_error + (string \<times> Play) list" where
  "Validate [] = Inr []"
| "Validate ((imp, play) # ps) =
     (if imp \<noteq> [] then Validate ps
      else if PlayHost play = [] then Inl EmptyHosts
      else bind_res (Validate ps) (\<lambda>qs. Inr ((imp, play) # qs)))"

definition MarshalPlaybook :: "penv \<Rightarrow> nat \<Rightarrow> nat \<Rightarrow> KahnGraph \<Rightarrow> string \<Rightarrow> Play list load" where
  "MarshalPlaybook E k n graph basePlaybook =
     bind_load (loadPlaybook E k n [] basePlaybook \<lparr>playbookGraph = graph, plays = []\<rparr>) (\<lambda>st.
       Some (bind_res (Validate (plays st)) (\<lambda>ps. Inr (map snd ps))))"

subsection \<open>Includes and dependencies that end\<close>

primrec include_names :: "RawBlock \<Rightarrow> string list" where
  "include_names (RawTask hdr t) = []"
| "include_names (RawInclude hdr file) = [file]"
| "include_names (RawSections hdr b r a) =
     concat (map include_names b) @ concat (map include_names r) @ concat (map include_names a)"

definition ranked_includes :: "penv \<Rightarrow> (string \<Rightarrow> nat) \<Rightarrow> nat \<Rightarrow> bool" where
  "ranked_includes E r K \<longleftrightarrow>
     (\<forall>p. r p \<le> K) \<and>
     (\<forall>p bs b f topdir q. readFile E p (decodeBlocks E) = Some (Inr bs) \<longrightarrow> b \<in> set bs \<longrightarrow>
        f \<in> set (include_names b) \<longrightarrow>
        fst (getPath E (GetIncludeTaskRelPath topdir (Dir p) f)) = q \<longrightarrow> q \<noteq> [] \<longrightarrow> r q < r p)"

definition ranked_roles :: "penv \<Rightarrow> (string \<Rightarrow> nat) \<Rightarrow> nat \<Rightarrow> bool" where
  "ranked_roles E s K \<longleftrightarrow>
     (\<forall>nm. s nm \<le> K) \<and>
     (\<forall>basePlaybook nm meta roleMeta dep.
        fst (getPath E (GetRoleMetaRelPath (fst (getPath E (GetRoleRelPath basePlaybook nm))))) = meta \<longrightarrow>
        readFile E meta (decodeRole E) = Some (Inr roleMeta) \<longrightarrow> dep \<in> set (RRDependency roleMeta) \<longrightarrow>
        s (RRName dep) < s nm)"

text \<open>A call that has returned, with a value, an error or a panic.\<close>

definition returned :: "'a load \<Rightarrow> bool" where
  "returned r \<longleftrightarrow> r \<noteq> None"

lemma returned_simps [simp]:
  "returned (Some x)" "\<not> returned None"
  "returned (bind_load r f) \<longleftrightarrow> returned r \<and> (\<forall>x. r = Some (Inr x) \<longrightarrow> returned (f x))"
  "returned (wrapError w r) \<longleftrightarrow> returned r"
  by (auto simp: returned_def bind_load_def wrapError_def split: option.splits sum.splits)

lemma bind_load_Inr:
  "bind_load r f = Some (Inr y) \<longleftrightarrow> (\<exists>x. r = Some (Inr x) \<and> f x = Some (Inr y))"
  by (auto simp: bind_load_def split: option.splits sum.splits)

lemma readFile_returns [simp]: "returned (readFile E p d)"
  by (auto simp: readFile_def split: option.splits)

lemma mapL_returns: "(\<And>x. x \<in> set xs \<Longrightarrow> returned (f x)) \<Longrightarrow> returned (mapL f xs)"
  by (induction xs) auto

definition loads_includes ::
  "penv \<Rightarrow> (string \<Rightarrow> RawBlock list \<Rightarrow> Block list load) \<Rightarrow> string \<Rightarrow> string \<Rightarrow> string set \<Rightarrow> bool" where
  "loads_includes E load topdir source fs \<longleftrightarrow>
     (\<forall>f\<in>fs. \<forall>bs. fst (getPath E (GetIncludeTaskRelPath topdir source f)) \<noteq> [] \<longrightarrow>
        readFile E (fst (getPath E (GetIncludeTaskRelPath topdir source f))) (decodeBlocks E) = Some (Inr bs) \<longrightarrow>
        returned (load (Dir (fst (getPath E (GetIncludeTaskRelPath topdir source f)))) bs))"

lemma dealBlocksWith_returns:
  "loads_includes E load topdir source (\<Union> (set ` include_names ` set blocks)) \<Longrightarrow>
     returned (dealBlocksWith E load topdir source blocks)"
  "loads_includes E load topdir source (set (include_names block)) \<Longrightarrow>
     returned (dealBlockWith E load topdir source block)"
proof (induction E load topdir source blocks and E load topdir source block
    rule: dealBlocksWith_dealBlockWith.induct)
  case (3 E load topdir source hdr blk resc alw)
  then show ?case by (auto simp: loads_includes_def image_Un ball_Un)
next
  case (4 E load topdir source hdr f)
  then show ?case by (auto simp: loads_includes_def case_prod_beta)
qed (auto simp: loads_includes_def ball_Un)

lemma dealBlock_returns:
  assumes "ranked_includes E r K"
  shows "readFile E p (decodeBlocks E) = Some (Inr bs) \<Longrightarrow> r p < n \<Longrightarrow>
    returned (dealBlock_project E n topdir (Dir p) bs)"
proof (induction n arbitrary: p bs)
  case (Suc n)
  have "loads_includes E (dealBlock_project E n topdir) topdir (Dir p) (\<Union> (set ` include_names ` set bs))"
    unfolding loads_includes_def
  proof (intro ballI allI impI)
    fix f cs
    let ?q = "fst (getPath E (GetIncludeTaskRelPath topdir (Dir p) f))"
    assume f: "f \<in> \<Union> (set ` include_names ` set bs)" and q: "?q \<noteq> []"
      and cs: "readFile E ?q (decodeBlocks E) = Some (Inr cs)"
    have "r ?q < r p" using assms f q Suc.prems(1) unfolding ranked_includes_def by blast
    then show "returned (dealBlock_project E n topdir (Dir ?q) cs)"
      using Suc.IH [OF cs] Suc.prems(2) by simp
  qed
  then show ?case using dealBlocksWith_returns(1) by simp
qed simp

lemma dealBlock_returns_top:
  assumes "ranked_includes E r K" "K + 2 \<le> k"
  shows "returned (dealBlock_project E k topdir source bs)"
proof -
  obtain n where n: "k = Suc n" "K < n" using assms(2) by (cases k) auto
  have "loads_includes E (dealBlock_project E n topdir) topdir source (\<Union> (set ` include_names ` set bs))"
    unfolding loads_includes_def
  proof (intro ballI allI impI)
    fix f cs
    let ?q = "fst (getPath E (GetIncludeTaskRelPath topdir source f))"
    assume cs: "readFile E ?q (decodeBlocks E) = Some (Inr cs)"
    have "r ?q < n" using assms(1) n(2) unfolding ranked_includes_def by (meson le_less_trans)
    then show "returned (dealBlock_project E n topdir (Dir ?q) cs)" using dealBlock_returns [OF assms(1) cs] by simp
  qed
  then show ?thesis using dealBlocksWith_returns(1) n(1) by simp
qed

lemma combineRoleVars_returns [simp]: "returned (combineRoleVars E p r c)"
  by (auto simp: combineRoleVars_def split: option.splits sum.splits)

lemma readEntries_returns:
  "(\<And>p c a. returned (h p c a)) \<Longrightarrow> returned (readEntries E dir h es acc)"
  by (induction E dir h es acc rule: readEntries.induct) (auto simp: Let_def split: option.splits)

lemma ReadDirFiles_returns: "(\<And>p c a. returned (h p c a)) \<Longrightarrow> returned (ReadDirFiles E dir h acc)"
  using readEntries_returns [of h] by (auto simp: ReadDirFiles_def split: option.splits)

lemma dealDependencies_returns:
  "(\<And>d. d \<in> set deps \<Longrightarrow> returned (deal d)) \<Longrightarrow> returned (dealDependencies deal deps role)"
  by (induction deal deps role rule: dealDependencies.induct) auto

lemma dealRoleWith_returns:
  assumes "\<And>roleMeta d. readFile E (fst (getPath E (GetRoleMetaRelPath (fst (getPath E (GetRoleRelPath base_pb (RRName role)))))))
      (decodeRole E) = Some (Inr roleMeta) \<Longrightarrow> d \<in> set (RRDependency roleMeta) \<Longrightarrow> returned (deal d)"
  shows "returned (dealRoleWith E deal base_pb role)"
proof -
  have dirs: "returned (ReadDirFiles E dir (\<lambda>path data role. combineRoleVars E path role data) acc)" for dir acc
    by (rule ReadDirFiles_returns) simp
  have deps: "returned (dealDependencies deal (RRDependency roleMeta) role)"
    if "readFile E (fst (getPath E (GetRoleMetaRelPath (fst (getPath E (GetRoleRelPath base_pb (RRName role)))))))
      (decodeRole E) = Some (Inr roleMeta)" for roleMeta
    using dealDependencies_returns assms that by blast
  show ?thesis
    by (auto simp: dealRoleWith_def case_prod_beta Let_def dirs deps split: option.splits)
qed

lemma dealRole_returns:
  assumes "ranked_roles E s K"
  shows "s (RRName role) < n \<Longrightarrow> returned (dealRole E n base_pb role)"
proof (induction n arbitrary: role)
  case (Suc n)
  have "returned (dealRole E n base_pb d)"
    if "readFile E (fst (getPath E (GetRoleMetaRelPath (fst (getPath E (GetRoleRelPath base_pb (RRName role)))))))
      (decodeRole E) = Some (Inr roleMeta)" "d \<in> set (RRDependency roleMeta)" for roleMeta d
  proof -
    have "s (RRName d) < s (RRName role)" using assms that unfolding ranked_roles_def by blast
    then show ?thesis using Suc by simp
  qed
  then show ?case using dealRoleWith_returns by simp
qed simp

lemma dealRoleTask_returns:
  assumes "ranked_includes E r K" "K + 2 \<le> k"
  shows "returned (dealRoleTask E k base_pb role)" "returned (dealRoleTasks E k base_pb roles)"
  using dealBlock_returns_top [OF assms]
  by (induction E k base_pb role and E k base_pb roles rule: dealRoleTask_dealRoleTasks.induct)
     (auto simp: case_prod_beta)

lemma dealVarsFiles_returns: "returned (dealVarsFiles E base_pb fs p)"
  by (induction fs arbitrary: p) (auto simp: case_prod_beta split: sum.splits option.splits)

subsection \<open>Imports always end\<close>

definition good :: "pstate \<Rightarrow> bool" where
  "good st \<longleftrightarrow> wf_graph (playbookGraph st) \<and> acyclic (edge_rel (playbookGraph st))"

abbreviation imports_of :: "pstate \<Rightarrow> (string \<times> string) set" where
  "imports_of st \<equiv> edge_rel (playbookGraph st)"

text \<open>A call that returns, and on success leaves an acyclic graph with at least the edges there were.\<close>

definition safe_call :: "pstate \<Rightarrow> pstate load \<Rightarrow> bool" where
  "safe_call st r \<longleftrightarrow> returned r \<and> (\<forall>st'. r = Some (Inr st') \<longrightarrow> good st' \<and> imports_of st \<subseteq> imports_of st')"

lemma getPath_stat: "fst (getPath E ps) \<noteq> [] \<Longrightarrow> statFs E (fst (getPath E ps)) \<noteq> None"
  by (induction E ps rule: getPath.induct) (auto split: option.splits)

lemma safe_call_simps [simp]: "safe_call st (Some (Inl e))" "safe_call st (Some (Inr st)) \<longleftrightarrow> good st"
  by (auto simp: safe_call_def)

lemma safe_call_state:
  "safe_call st r \<Longrightarrow> (\<And>st1. r = Some (Inr st1) \<Longrightarrow> safe_call st1 (f st1)) \<Longrightarrow> safe_call st (bind_load r f)"
  unfolding safe_call_def by (auto simp: bind_load_Inr) blast+

lemma safe_call_value:
  "returned r \<Longrightarrow> (\<And>x. r = Some (Inr x) \<Longrightarrow> safe_call st (f x)) \<Longrightarrow> safe_call st (bind_load r f)"
  by (auto simp: safe_call_def bind_load_Inr)

lemma dealImport_safe:
  assumes "good st" "\<And>q. statFs E q \<noteq> None \<Longrightarrow> safe_call st (load base_pb q st)"
  shows "safe_call st (dealImportPlaybook E load base_pb p st)"
proof -
  have "safe_call st (load base_pb (fst (getPath E ps)) st)" if "fst (getPath E ps) \<noteq> []" for ps
    using assms(2) getPath_stat [OF that] .
  then show ?thesis
    using assms(1) by (simp add: dealImportPlaybook_def case_prod_beta split: sum.splits)
qed

definition ready :: "penv \<Rightarrow> nat \<Rightarrow> bool" where
  "ready E k \<longleftrightarrow>
     (\<forall>topdir source bs. returned (dealBlock_project E k topdir source bs)) \<and>
     (\<forall>base_pb role. returned (dealPlayRole E k base_pb role))"

lemma loadPlays_safe:
  assumes "ready E k"
    and "\<And>q st'. statFs E q \<noteq> None \<Longrightarrow> good st' \<Longrightarrow> R \<subseteq> imports_of st' \<Longrightarrow> safe_call st' (load base_pb q st')"
  shows "good st \<Longrightarrow> R \<subseteq> imports_of st \<Longrightarrow> safe_call st (loadPlays E k load base_pb ps st)"
proof (induction ps arbitrary: st)
  case Nil
  then show ?case by (simp add: safe_call_def)
next
  case (Cons p ps)
  have imp: "safe_call st (dealImportPlaybook E load base_pb p st)"
    using dealImport_safe Cons.prems assms(2) by blast
  have rest: "safe_call st1 (loadPlays E k load base_pb ps
      (if ImportPlaybook p \<noteq> [] then st1 else st1\<lparr>plays := qs\<rparr>))"
    if "dealImportPlaybook E load base_pb p st = Some (Inr st1)" for st1 qs
  proof -
    have "good st1" "R \<subseteq> imports_of st1" using imp that Cons.prems by (auto simp: safe_call_def)
    then show ?thesis
      using Cons.IH [of st1] Cons.IH [of "st1\<lparr>plays := qs\<rparr>"] by (auto simp: safe_call_def good_def)
  qed
  have sub: "returned (dealBlock_project E k topdir source bs)"
      "returned (mapL (dealPlayRole E k base_pb) rs)" for topdir source bs rs
    using assms(1) by (auto simp: ready_def intro: mapL_returns)
  show ?case
    unfolding loadPlays.simps
    by (intro safe_call_state [OF imp] safe_call_value dealVarsFiles_returns sub rest)
qed

lemma loadPlaybook_safe:
  assumes "ready E k" "finite V" "{p. statFs E p \<noteq> None} \<subseteq> V"
  shows "\<lbrakk>chain \<noteq> []; distinct chain; set chain \<subseteq> V; base_pb \<in> V; good st;
      \<forall>x\<in>set chain. (x, last chain) \<in> (imports_of st)\<^sup>*; card V < n + length chain\<rbrakk> \<Longrightarrow>
    safe_call st (loadPlaybook E k n (last chain) base_pb st)"
proof (induction n arbitrary: chain base_pb st)
  case 0
  have "length chain \<le> card V"
    using 0 assms(2) by (metis card_mono distinct_card)
  with 0 show ?case by simp
next
  case (Suc n)
  let ?from = "last chain"
  obtain cyc g where add: "AddEdgeAndCheckCycle (porder E) ?from base_pb (playbookGraph st) = (cyc, g)"
    by (cases "AddEdgeAndCheckCycle (porder E) ?from base_pb (playbookGraph st)")
  have wf: "wf_graph (playbookGraph st)" using Suc.prems(5) by (simp add: good_def)
  note g = kahn.ok_add [OF wf add] kahn.rel_add [OF wf add] kahn.add_cyclic [OF wf add]
  show ?case
  proof (cases cyc)
    case True
    then show ?thesis using add by (simp add: loadPlaybookWith_def safe_call_def)
  next
    case False
    let ?st = "st\<lparr>playbookGraph := g\<rparr>"
    have good: "good ?st" using g False by (simp add: good_def)
    have new: "base_pb \<notin> set chain"
    proof
      assume "base_pb \<in> set chain"
      then have "(base_pb, ?from) \<in> (edge_rel g)\<^sup>*"
        using Suc.prems(6) g(2) by (metis rtrancl_mono subsetD subset_insertI)
      moreover have "(?from, base_pb) \<in> edge_rel g" using g(2) by simp
      ultimately show False using g(3) False by (meson acyclic_def rtrancl_into_trancl1)
    qed
    have imp: "safe_call st' (loadPlaybook E k n base_pb q st')"
      if q: "statFs E q \<noteq> None" and st': "good st'" "edge_rel g \<subseteq> imports_of st'" for q st'
    proof -
      have "\<forall>x\<in>set (chain @ [base_pb]). (x, base_pb) \<in> (imports_of st')\<^sup>*"
      proof
        fix x assume "x \<in> set (chain @ [base_pb])"
        moreover have "(x, base_pb) \<in> (imports_of st')\<^sup>*" if "x \<in> set chain"
        proof -
          have "(x, ?from) \<in> (imports_of st')\<^sup>*"
            using Suc.prems(6) that g(2) st'(2) by (metis rtrancl_mono subsetD subset_insertI subset_trans)
          moreover have "(?from, base_pb) \<in> imports_of st'" using g(2) st'(2) by auto
          ultimately show ?thesis by (rule rtrancl_into_rtrancl)
        qed
        ultimately show "(x, base_pb) \<in> (imports_of st')\<^sup>*" by auto
      qed
      then show ?thesis
        using Suc.IH [of "chain @ [base_pb]" q st'] Suc.prems new q st' assms(3) by auto
    qed
    have "safe_call ?st (loadPlays E k (loadPlaybook E k n) base_pb ps ?st)" for ps
      using loadPlays_safe [OF assms(1), of "edge_rel g" "loadPlaybook E k n" base_pb ?st ps] imp good by simp
    then have "safe_call st (loadPlays E k (loadPlaybook E k n) base_pb ps ?st)" for ps
      using g(2) by (fastforce simp: safe_call_def)
    then show ?thesis
      using add False by (auto simp: loadPlaybookWith_def intro!: safe_call_value)
  qed
qed

subsection \<open>More fuel changes nothing\<close>

definition below :: "'a load \<Rightarrow> 'a load \<Rightarrow> bool" where
  "below r r' \<longleftrightarrow> (returned r \<longrightarrow> r' = r)"

lemma below_simps [simp]: "below None r" "below r r"
  by (simp_all add: below_def)

lemma below_bind:
  "below r r' \<Longrightarrow> (\<And>x. r = Some (Inr x) \<Longrightarrow> below (f x) (f' x)) \<Longrightarrow> below (bind_load r f) (bind_load r' f')"
  by (cases r) (auto simp: below_def bind_load_def returned_def split: sum.splits option.splits)

lemma below_wrap: "below r r' \<Longrightarrow> below (wrapError w r) (wrapError w r')"
  by (auto simp: below_def)

lemma below_mapL: "(\<And>x. below (f x) (f' x)) \<Longrightarrow> below (mapL f xs) (mapL f' xs)"
  by (induction xs) (auto intro!: below_bind)

lemma below_dealBlocksWith:
  assumes "\<And>src bs. below (load src bs) (load' src bs)"
  shows "below (dealBlocksWith E load topdir source blocks) (dealBlocksWith E load' topdir source blocks)"
    "below (dealBlockWith E load topdir source block) (dealBlockWith E load' topdir source block)"
  using assms
  by (induction E load topdir source blocks and E load topdir source block
        rule: dealBlocksWith_dealBlockWith.induct)
     (auto simp: case_prod_beta intro!: below_bind)

lemma below_dealBlock: "n \<le> n' \<Longrightarrow> below (dealBlock_project E n topdir src bs) (dealBlock_project E n' topdir src bs)"
proof (induction n arbitrary: n' src bs)
  case (Suc n)
  then obtain m where "n' = Suc m" "n \<le> m" by (cases n') auto
  with Suc.IH show ?case by (auto intro: below_dealBlocksWith)
qed simp

lemma below_dealDependencies:
  "(\<And>d. below (f d) (f' d)) \<Longrightarrow> below (dealDependencies f ds role) (dealDependencies f' ds role)"
  by (induction ds arbitrary: role) (auto intro!: below_bind below_wrap)

lemma below_dealRoleWith:
  "(\<And>d. below (f d) (f' d)) \<Longrightarrow> below (dealRoleWith E f base_pb role) (dealRoleWith E f' base_pb role)"
  by (auto simp: dealRoleWith_def case_prod_beta Let_def intro!: below_bind below_dealDependencies)

lemma below_dealRole: "n \<le> n' \<Longrightarrow> below (dealRole E n base_pb role) (dealRole E n' base_pb role)"
proof (induction n arbitrary: n' role)
  case (Suc n)
  then obtain m where "n' = Suc m" "n \<le> m" by (cases n') auto
  with Suc.IH show ?case by (auto intro: below_dealRoleWith)
qed simp

lemma below_dealRoleTask:
  assumes "k \<le> k'"
  shows "below (dealRoleTask E k base_pb role) (dealRoleTask E k' base_pb role)"
    "below (dealRoleTasks E k base_pb roles) (dealRoleTasks E k' base_pb roles)"
  using assms
  by (induction E k base_pb role and E k base_pb roles rule: dealRoleTask_dealRoleTasks.induct)
     (auto simp: case_prod_beta intro!: below_bind below_dealBlock)

lemma below_dealPlayRole: "k \<le> k' \<Longrightarrow> below (dealPlayRole E k base_pb role) (dealPlayRole E k' base_pb role)"
  by (auto simp: dealPlayRole_def intro!: below_bind below_dealRole below_dealRoleTask)

lemma below_loadPlays:
  assumes "k \<le> k'" "\<And>b q st. below (load b q st) (load' b q st)"
  shows "below (loadPlays E k load base_pb ps st) (loadPlays E k' load' base_pb ps st)"
proof (induction ps arbitrary: st)
  case (Cons p ps)
  have "below (dealImportPlaybook E load base_pb p st) (dealImportPlaybook E load' base_pb p st)"
    using assms(2) by (auto simp: dealImportPlaybook_def case_prod_beta split: sum.splits)
  then show ?case
    unfolding loadPlays.simps
    by (intro below_bind below_dealBlock below_mapL below_dealPlayRole below_simps Cons.IH assms(1))
qed simp

lemma below_loadPlaybook:
  "k \<le> k' \<Longrightarrow> n \<le> n' \<Longrightarrow> below (loadPlaybook E k n from base_pb st) (loadPlaybook E k' n' from base_pb st)"
proof (induction n arbitrary: n' "from" base_pb st)
  case (Suc n)
  then obtain m where "n' = Suc m" "n \<le> m" by (cases n') auto
  with Suc show ?case
    by (auto simp: loadPlaybookWith_def case_prod_beta intro!: below_bind below_loadPlays)
qed simp

lemma below_Marshal:
  "k \<le> k' \<Longrightarrow> n \<le> n' \<Longrightarrow> below (MarshalPlaybook E k n g base_pb) (MarshalPlaybook E k' n' g base_pb)"
  unfolding MarshalPlaybook_def by (intro below_bind below_loadPlaybook below_simps)

subsection \<open>Loading ends\<close>

lemma ready_ranked:
  assumes "ranked_includes E r K" "ranked_roles E s K" "K + 2 \<le> k"
  shows "ready E k"
proof -
  have "s (RRName role) \<le> K" for role using assms(2) unfolding ranked_roles_def by blast
  then have "s (RRName role) < k" for role using assms(3) by (metis add_2_eq_Suc' le_imp_less_Suc less_SucI less_le_trans)
  then show ?thesis
    using dealRole_returns [OF assms(2)] dealRoleTask_returns(1) [OF assms(1, 3)] dealBlock_returns_top [OF assms(1, 3)]
    by (auto simp: ready_def dealPlayRole_def)
qed

lemma MarshalPlaybook_returned:
  assumes "finite {p. statFs E p \<noteq> None}" "ranked_includes E r K" "ranked_roles E s K"
  shows "returned (MarshalPlaybook E (K + 2) (card {p. statFs E p \<noteq> None} + 2) NewKahnGraph base_pb)"
proof -
  let ?F = "{p. statFs E p \<noteq> None}" and ?st = "\<lparr>playbookGraph = NewKahnGraph, plays = []\<rparr>"
  let ?V = "insert [] (insert base_pb ?F)"
  have "card ?V \<le> card ?F + 2" using assms(1) by (simp add: card_insert_if)
  moreover have "good ?st" by (simp add: good_def acyclic_def)
  ultimately have "safe_call ?st (loadPlaybook E (K + 2) (card ?F + 2) (last [[]]) base_pb ?st)"
    using assms(1) by (intro loadPlaybook_safe [OF ready_ranked [OF assms(2, 3) order_refl], of ?V]) auto
  then show ?thesis by (simp add: MarshalPlaybook_def safe_call_def)
qed

text \<open>
  Claim C4. Loading a project ends. Imports of playbooks need no assumption: a cycle is found by the
  import graph before it is followed. Includes of task files and dependencies of roles are followed
  without a check, so their nesting has to be bounded (\<open>ranked_includes\<close>, \<open>ranked_roles\<close>: a rank
  of at most \<open>K\<close> that goes down along them). Then \<open>K + 2\<close> nested includes and dependencies and as many
  nested imports as there are files are enough, and with more the result is the same.
\<close>

theorem MarshalPlaybook_ends:
  assumes "finite {p. statFs E p \<noteq> None}" "ranked_includes E r K" "ranked_roles E s K"
  shows "\<exists>res. \<forall>k \<ge> K + 2. \<forall>n \<ge> card {p. statFs E p \<noteq> None} + 2.
    MarshalPlaybook E k n NewKahnGraph base_pb = Some res"
proof -
  obtain res where "MarshalPlaybook E (K + 2) (card {p. statFs E p \<noteq> None} + 2) NewKahnGraph base_pb = Some res"
    using MarshalPlaybook_returned [OF assms] by (auto simp: returned_def)
  then show ?thesis
    using below_Marshal [of "K + 2" _ "card {p. statFs E p \<noteq> None} + 2"] by (auto simp: below_def)
qed

text \<open>Without such a bound the calls do not return, however long they run.\<close>

lemma include_self_diverges:
  assumes "blocks = [RawInclude hdr f]" "f \<noteq> []" "fst (getPath E (GetIncludeTaskRelPath topdir (Dir q) f)) = q"
    "q \<noteq> []" "readFile E q (decodeBlocks E) = Some (Inr blocks)"
  shows "dealBlock_project E n topdir (Dir q) blocks = None"
proof (induction n)
  case (Suc n)
  then show ?case using assms by (simp add: case_prod_beta bind_load_def)
qed simp

lemma role_self_diverges:
  assumes "fst (getPath E (GetRoleRelPath base_pb (RRName role))) = q" "q \<noteq> []"
    "fst (getPath E (GetRoleMetaRelPath q)) = m" "m \<noteq> []"
    "readFile E m (decodeRole E) = Some (Inr roleMeta)" "RRDependency roleMeta = [role]"
  shows "dealRole E n base_pb role = None"
proof (induction n)
  case (Suc n)
  then show ?case
    using assms by (simp add: dealRoleWith_def case_prod_beta bind_load_def wrapError_def)
qed simp

subsection \<open>What a loaded playbook is\<close>

fun annotated_block :: "string \<Rightarrow> Block \<Rightarrow> bool" where
  "annotated_block topdir (Block hdr t inc b r a) \<longleftrightarrow>
     (inc = [] \<and> b = [] \<longrightarrow>
        get (UnknownField t) ''annotations'' = Some (VMap [(''kubesphere.io/rel-path'', VStr topdir)])) \<and>
     list_all (annotated_block topdir) b \<and> list_all (annotated_block topdir) r \<and>
     list_all (annotated_block topdir) a"

fun annotated_role :: "penv \<Rightarrow> string \<Rightarrow> Role \<Rightarrow> bool" where
  "annotated_role E base_pb (Role nm vars ie tg wh deps blk) \<longleftrightarrow>
     list_all (annotated_block (fst (getPath E (GetRoleRelPath base_pb nm)))) blk \<and>
     list_all (annotated_role E base_pb) deps"

definition annotated_play :: "penv \<Rightarrow> string \<Rightarrow> Play \<Rightarrow> bool" where
  "annotated_play E base_pb p \<longleftrightarrow>
     list_all (annotated_block (Dir base_pb)) (PreTasks p @ PTasks p @ PostTasks p) \<and>
     list_all (annotated_role E base_pb) (Roles p)"

lemma dealBlocksWith_annotated:
  assumes "\<And>src bs bs'. load src bs = Some (Inr bs') \<Longrightarrow> list_all (annotated_block topdir) bs'"
  shows "dealBlocksWith E load topdir source blocks = Some (Inr bs') \<Longrightarrow> list_all (annotated_block topdir) bs'"
    "dealBlockWith E load topdir source block = Some (Inr b') \<Longrightarrow> annotated_block topdir b'"
  using assms
proof (induction E load topdir source blocks and E load topdir source block arbitrary: bs' and b'
    rule: dealBlocksWith_dealBlockWith.induct)
  case (3 E load topdir source hdr blk resc alw)
  then obtain b r a where b: "b' = Block hdr zeroTask [] b r a"
    "list_all (annotated_block topdir) b" "list_all (annotated_block topdir) r" "list_all (annotated_block topdir) a"
    and ne: "blk \<noteq> []" "dealBlocksWith E load topdir source blk = Some (Inr b)"
    by (auto simp: bind_load_Inr split: if_splits)
  then have "b \<noteq> []" by (cases blk) (auto simp: bind_load_Inr)
  with b show ?case by simp
qed (auto simp: bind_load_Inr annotated_def case_prod_beta split: if_splits)

lemma dealBlock_annotated:
  "dealBlock_project E n topdir source bs = Some (Inr bs') \<Longrightarrow> list_all (annotated_block topdir) bs'"
proof (induction n arbitrary: source bs bs')
  case (Suc n)
  then show ?case using dealBlocksWith_annotated(1) [of "dealBlock_project E n topdir"] by auto
qed simp

lemma dealRoleTask_annotated:
  "dealRoleTask E k base_pb role = Some (Inr role') \<Longrightarrow> annotated_role E base_pb role'"
  "dealRoleTasks E k base_pb roles = Some (Inr roles') \<Longrightarrow> list_all (annotated_role E base_pb) roles'"
  by (induction E k base_pb role and E k base_pb roles arbitrary: role' and roles'
        rule: dealRoleTask_dealRoleTasks.induct)
     (auto simp: bind_load_Inr case_prod_beta dest: dealBlock_annotated)

lemma mapL_all:
  "mapL f xs = Some (Inr ys) \<Longrightarrow> (\<And>x y. f x = Some (Inr y) \<Longrightarrow> P y) \<Longrightarrow> list_all P ys"
  by (induction xs arbitrary: ys) (auto simp: bind_load_Inr)

lemma dealPlayRole_annotated:
  "dealPlayRole E k base_pb role = Some (Inr role') \<Longrightarrow> annotated_role E base_pb role'"
  by (auto simp: dealPlayRole_def bind_load_Inr dest: dealRoleTask_annotated(1))

definition plays_loaded :: "penv \<Rightarrow> pstate \<Rightarrow> bool" where
  "plays_loaded E st \<longleftrightarrow> (\<forall>(imp, p)\<in>set (plays st). \<exists>base_pb. annotated_play E base_pb p)"

lemma loadPlays_loaded:
  assumes "\<And>b q st st'. load b q st = Some (Inr st') \<Longrightarrow> plays_loaded E st \<Longrightarrow> plays_loaded E st'"
  shows "loadPlays E k load base_pb ps st = Some (Inr st') \<Longrightarrow> plays_loaded E st \<Longrightarrow> plays_loaded E st'"
proof (induction ps arbitrary: st)
  case (Cons p ps)
  from Cons.prems(1) obtain st1 play pre tasks post roles where
    imp: "dealImportPlaybook E load base_pb p st = Some (Inr st1)"
    and bl: "dealBlock_project E k (Dir base_pb) (Dir base_pb) (RPreTasks p) = Some (Inr pre)"
      "dealBlock_project E k (Dir base_pb) (Dir base_pb) (RTasks p) = Some (Inr tasks)"
      "dealBlock_project E k (Dir base_pb) (Dir base_pb) (RPostTasks p) = Some (Inr post)"
    and ro: "mapL (dealPlayRole E k base_pb) (RRoles p) = Some (Inr roles)"
    and rest: "loadPlays E k load base_pb ps
         (if ImportPlaybook p \<noteq> [] then st1
          else st1\<lparr>plays := plays st1 @ [(ImportPlaybook p,
                 play\<lparr>PreTasks := pre, PTasks := tasks, PostTasks := post, Roles := roles\<rparr>)]\<rparr>) = Some (Inr st')"
    by (auto simp: bind_load_Inr)
  have st1: "plays_loaded E st1"
    using imp Cons.prems(2) assms
    by (auto simp: dealImportPlaybook_def case_prod_beta split: if_splits sum.splits)
  have "annotated_play E base_pb (play\<lparr>PreTasks := pre, PTasks := tasks, PostTasks := post, Roles := roles\<rparr>)"
    using bl [THEN dealBlock_annotated] mapL_all [OF ro dealPlayRole_annotated] by (simp add: annotated_play_def)
  with st1 have "plays_loaded E (if ImportPlaybook p \<noteq> [] then st1
          else st1\<lparr>plays := plays st1 @ [(ImportPlaybook p,
                 play\<lparr>PreTasks := pre, PTasks := tasks, PostTasks := post, Roles := roles\<rparr>)]\<rparr>)"
    by (auto simp: plays_loaded_def)
  then show ?case using Cons.IH [OF rest] by simp
qed simp

lemma loadPlaybook_loaded:
  "loadPlaybook E k n from base_pb st = Some (Inr st') \<Longrightarrow> plays_loaded E st \<Longrightarrow> plays_loaded E st'"
proof (induction n arbitrary: "from" base_pb st st')
  case (Suc n)
  have "plays_loaded E (st\<lparr>playbookGraph := g\<rparr>)" for g using Suc.prems(2) by (simp add: plays_loaded_def)
  with Suc.prems(1) show ?case
    using loadPlays_loaded [of "loadPlaybook E k n" E, OF Suc.IH]
    by (auto simp: loadPlaybookWith_def case_prod_beta bind_load_Inr split: if_splits)
qed simp

lemma Validate_hosts: "Validate ps = Inr qs \<Longrightarrow> set qs \<subseteq> set ps \<and> (\<forall>(imp, p)\<in>set qs. PlayHost p \<noteq> [])"
  by (induction ps arbitrary: qs rule: Validate.induct) (fastforce simp: bind_res_Inr_conv split: if_splits)+

text \<open>
  Claim C19. What loading hands to the executor is well-formed: every play has hosts, and every task
  at any depth (sections, included files, roles and their dependencies) carries the directory its
  files and templates are looked up in, the directory of the playbook file or of the role.
\<close>

theorem MarshalPlaybook_wellformed:
  assumes "MarshalPlaybook E k n g base_pb = Some (Inr ps)" "p \<in> set ps"
  shows "PlayHost p \<noteq> [] \<and> (\<exists>file. annotated_play E file p)"
proof -
  obtain st qs where st: "loadPlaybook E k n [] base_pb \<lparr>playbookGraph = g, plays = []\<rparr> = Some (Inr st)"
    and qs: "Validate (plays st) = Inr qs" "ps = map snd qs"
    using assms(1) by (auto simp: MarshalPlaybook_def bind_load_Inr bind_res_Inr_conv)
  have "plays_loaded E st" using loadPlaybook_loaded [OF st] by (simp add: plays_loaded_def)
  then show ?thesis using Validate_hosts [OF qs(1)] qs(2) assms(2) by (fastforce simp: plays_loaded_def)
qed

subsection \<open>The injection contract\<close>

lemma mset_insert_by [simp]: "mset (insert_by lt x ys) = add_mset x (mset ys)"
  by (induction ys) auto

lemma mset_SliceStable [simp]: "mset (SliceStable lt xs) = mset xs"
  by (induction xs) (auto simp: SliceStable_def)

lemma set_insert_by [simp]: "set (insert_by lt x ys) = insert x (set ys)"
  by (metis mset_insert_by set_mset_add_mset_insert set_mset_mset)

lemma sorted_insert_by:
  assumes "transp lt" "\<forall>y\<in>set ys. lt y x \<or> lt x y" "sorted_wrt lt ys"
  shows "sorted_wrt lt (insert_by lt x ys)"
  using assms(2, 3)
proof (induction ys)
  case (Cons y ys)
  show ?case
  proof (cases "lt y x")
    case True
    with Cons show ?thesis by simp
  next
    case False
    then have "lt x y" using Cons.prems by simp
    then show ?thesis using Cons.prems False assms(1) by (auto dest: transpD)
  qed
qed simp

lemma sorted_SliceStable:
  assumes "transp lt" and tot: "\<And>x y. key x \<noteq> key y \<Longrightarrow> lt x y \<or> lt y x"
  shows "distinct (map key xs) \<Longrightarrow> sorted_wrt lt (SliceStable lt xs)"
proof (induction xs)
  case (Cons x xs)
  have s: "set (SliceStable lt xs) = set xs" by (metis mset_SliceStable set_mset_mset)
  have "\<forall>y\<in>set xs. lt y x \<or> lt x y"
  proof
    fix y assume "y \<in> set xs"
    then have "key y \<in> key ` set xs" by (rule imageI)
    then have "key y \<noteq> key x" using Cons.prems by auto
    then show "lt y x \<or> lt x y" by (rule tot)
  qed
  then have "sorted_wrt lt (insert_by lt x (SliceStable lt xs))"
    using Cons assms(1) s by (intro sorted_insert_by) auto
  then show ?case by (simp add: SliceStable_def)
qed (simp add: SliceStable_def)

lemma transp_entry_less: "transp entry_less"
  by (rule transpI) (auto simp: entry_less_def split: if_splits)

lemma entry_less_total: "(fromCfg x, eseq x) \<noteq> (fromCfg y, eseq y) \<Longrightarrow> entry_less x y \<or> entry_less y x"
  by (auto simp: entry_less_def)

lemma entry_less_irrefl: "\<not> entry_less x x"
  by (simp add: entry_less_def)

text \<open>Two lists with the same elements that are sorted by a strict order are equal.\<close>

lemma sorted_unique:
  assumes "transp lt" "\<And>x. \<not> lt x x"
  shows "sorted_wrt lt xs \<Longrightarrow> sorted_wrt lt ys \<Longrightarrow> mset xs = mset ys \<Longrightarrow> xs = ys"
proof (induction xs arbitrary: ys)
  case (Cons x xs)
  then obtain y zs where ys: "ys = y # zs" by (cases ys) auto
  have sets: "set (x # xs) = set ys" using Cons.prems(3) by (metis set_mset_mset)
  have "x = y"
  proof (rule ccontr)
    assume "x \<noteq> y"
    then have "y \<in> set xs" "x \<in> set zs" using sets ys by auto
    then have "lt x y" "lt y x" using Cons.prems(1, 2) ys by auto
    then show False using assms by (metis transpD)
  qed
  with Cons ys show ?case by simp
qed simp

lemma fileEntries_props:
  "map eplay (fileEntries ps) = ps" "list_all (\<lambda>e. \<not> fromCfg e) (fileEntries ps)"
  "map eseq (fileEntries ps) = [0 ..< length ps]" "sorted_wrt entry_less (fileEntries ps)"
  by (auto simp: fileEntries_def list_all_iff enumerate_eq_zip sorted_wrt_iff_nth_less entry_less_def
      intro!: nth_equalityI)

lemma cfgEntries_props:
  "cfgEntries E i inject = Inr es \<Longrightarrow>
   list_all fromCfg es \<and> distinct (map eseq es) \<and> (\<forall>e\<in>set es. i \<le> eseq e)"
proof (induction E i inject arbitrary: es rule: cfgEntries.induct)
  case (2 E i weight path injections)
  then obtain path' fs where p: "ParseFunc (pengine E) (pconfig E) path = Inr path'"
    and fs: "cfgEntries E (Suc i) injections = Inr fs"
    and es: "es = (if TrimSpace path' = [] then fs
       else \<lparr>eorder = weight, fromCfg = True, eseq = i, eplay = importPlay path'\<rparr> # fs)"
    by (auto simp: bind_res_Inr_conv split: sum.splits)
  have IH: "list_all fromCfg fs" "distinct (map eseq fs)" "\<forall>e\<in>set fs. Suc i \<le> eseq e"
    using 2(1) [OF p fs] by auto
  then have "i \<notin> set (map eseq fs)" by auto
  with IH show ?case by (auto simp: es)
qed simp

text \<open>
  Claim C20. The injection contract. The playbooks of the configuration are merged into the plays of
  the file: the result has exactly the file's plays and one import per injection with a non-blank
  path, ordered by weight, then configuration before file, then definition order, and the file's
  plays keep their order.
\<close>

theorem injectPlaybooks_contract:
  assumes "get (pconfig E) ''playbooks'' = Some raw" "raw \<noteq> VNil"
    "decodeInjections E raw = Some injections" "cfgEntries E 0 injections = Inr es"
  shows "\<exists>entries. injectPlaybooks E ps = Inr (map eplay entries) \<and>
    mset entries = mset (fileEntries ps @ es) \<and> sorted_wrt entry_less entries \<and>
    map eplay (filter (\<lambda>e. \<not> fromCfg e) entries) = ps"
proof -
  let ?xs = "SliceStable entry_less (fileEntries ps @ es)"
  have d: "distinct (map (\<lambda>e. (fromCfg e, eseq e)) (fileEntries ps @ es))"
    using fileEntries_props(2, 3) [of ps] cfgEntries_props [OF assms(4)]
    by (auto simp: distinct_map inj_on_def list_all_iff) (metis distinct_map inj_on_def distinct_upt)+
  have s: "sorted_wrt entry_less ?xs"
    by (rule sorted_SliceStable [OF transp_entry_less _ d]) (rule entry_less_total)
  have "mset (filter (\<lambda>e. \<not> fromCfg e) ?xs) = mset (filter (\<lambda>e. \<not> fromCfg e) (fileEntries ps @ es))"
    by (simp only: mset_filter mset_SliceStable)
  moreover have "filter (\<lambda>e. \<not> fromCfg e) (fileEntries ps @ es) = fileEntries ps"
    using fileEntries_props(2) [of ps] cfgEntries_props [OF assms(4)]
    by (auto simp: list_all_iff filter_id_conv filter_empty_conv)
  ultimately have m: "mset (filter (\<lambda>e. \<not> fromCfg e) ?xs) = mset (fileEntries ps)" by (simp only:)
  have "filter (\<lambda>e. \<not> fromCfg e) ?xs = fileEntries ps"
    by (rule sorted_unique [OF transp_entry_less entry_less_irrefl sorted_wrt_filter [OF s] fileEntries_props(4) m])
  then have "map eplay (filter (\<lambda>e. \<not> fromCfg e) ?xs) = ps" by (simp add: fileEntries_props(1))
  moreover have "injectPlaybooks E ps = Inr (map eplay ?xs)"
    using assms by (cases raw) (simp_all add: injectPlaybooks_def)
  ultimately show ?thesis using s by (intro exI [of _ ?xs]) simp
qed

lemma dealVarsFiles_empty_stops:
  assumes "ParseFunc (pengine E) (pconfig E) f = Inr f'"
    "fst (getPath E (GetVarsFilesRelPath base_pb f')) = q" "q \<noteq> []"
    "readFile E q (decodeNode E) = Some (Inr zeroNode)"
  shows "dealVarsFiles E base_pb (f # fs) p = Some (Inr p)"
  using assms by (simp add: case_prod_beta bind_load_def docNodes_def zeroNode_def)

lemma empty_block_panics:
  "dealBlock_project E (Suc n) topdir source [RawSections hdr [] resc alw] = Some (Inl NilMapPanic)"
  by (simp add: bind_load_def)


subsection \<open>A sample project\<close>

definition sample_base :: BlockBase where
  "sample_base = \<lparr>BName = ''t'', BVars = [], BRunOnce = False, BIgnoreErrors = None,
                  BTaggable = \<lparr>Tags = []\<rparr>, BWhen = []\<rparr>"

definition sample_raw_play :: RawPlay where
  "sample_raw_play = (importPlay [])\<lparr>RPlay := zeroPlay\<lparr>PlayHost := [''all'']\<rparr>,
     RTasks := [RawInclude sample_base ''more.yaml''], RRoles := []\<rparr>"

text \<open>\<^verbatim>\<open>site.yaml\<close> imports \<^verbatim>\<open>sub.yaml\<close> and includes \<^verbatim>\<open>more.yaml\<close>; the configuration injects
  \<^verbatim>\<open>sub.yaml\<close> once more in front.\<close>

definition sample_penv :: penv where
  "sample_penv =
     \<lparr>statFs = (\<lambda>p. if p \<in> {''site.yaml'', ''sub.yaml'', ''more.yaml''} then Some False else None),
      readFs = (\<lambda>p. if p \<in> {''site.yaml'', ''sub.yaml'', ''more.yaml''} then Some p else None),
      readDirFs = (\<lambda>_. None),
      decodePlays = (\<lambda>d. if d = ''site.yaml'' then Some [importPlay ''sub.yaml'', sample_raw_play]
                         else if d = ''sub.yaml'' then Some [sample_raw_play] else None),
      decodeBlocks = (\<lambda>d. if d = ''more.yaml'' then Some [RawTask sample_base zeroTask] else None),
      decodeRole = (\<lambda>_. None), decodeNode = (\<lambda>_. None),
      decodeInjections = (\<lambda>_. Some [(0, ''sub.yaml''), (1 / 2, [])]),
      pconfig = [(''playbooks'', VList [])], pengine = (\<lambda>_ t. Inr t), porder = (\<lambda>ks. ks)\<rparr>"

lemma sample_files: "{p. statFs sample_penv p \<noteq> None} = {''site.yaml'', ''sub.yaml'', ''more.yaml''}"
  by (auto simp: sample_penv_def split: if_splits)

lemma sample_ranked:
  "ranked_includes sample_penv (\<lambda>_. 0) 0" "ranked_roles sample_penv (\<lambda>_. 0) 0"
  by (auto simp: ranked_includes_def ranked_roles_def readFile_def sample_penv_def
      split: if_splits option.splits)

theorem MarshalPlaybook_ends_witness:
  "\<exists>res. \<forall>k \<ge> 2. \<forall>n \<ge> 5. MarshalPlaybook sample_penv k n NewKahnGraph ''site.yaml'' = Some res"
proof -
  have "finite {p. statFs sample_penv p \<noteq> None}" "card {p. statFs sample_penv p \<noteq> None} = 3"
    unfolding sample_files by simp_all
  then show ?thesis
    using MarshalPlaybook_ends [OF _ sample_ranked, of "''site.yaml''"]
    by (simp add: numeral_2_eq_2)
qed

theorem MarshalPlaybook_wellformed_witness:
  "\<exists>ps. MarshalPlaybook sample_penv 2 5 NewKahnGraph ''site.yaml'' = Some (Inr ps) \<and> length ps = 3 \<and>
     PlayHost (hd ps) \<noteq> [] \<and> (\<exists>f. annotated_play sample_penv f (hd ps))"
proof -
  let ?r = "MarshalPlaybook sample_penv 2 5 NewKahnGraph ''site.yaml''"
  have l: "(case ?r of Some (Inr ps) \<Rightarrow> length ps = 3 | _ \<Rightarrow> False)" by code_simp
  then obtain ps where ps: "?r = Some (Inr ps)" by (auto split: option.splits sum.splits)
  with l have "length ps = 3" by simp
  then have "hd ps \<in> set ps" by (cases ps) auto
  then show ?thesis using MarshalPlaybook_wellformed [OF ps] ps \<open>length ps = 3\<close> by blast
qed

theorem injectPlaybooks_contract_witness:
  "\<exists>entries. injectPlaybooks sample_penv [sample_raw_play] = Inr (map eplay entries) \<and>
     sorted_wrt entry_less entries \<and> map eplay (filter (\<lambda>e. \<not> fromCfg e) entries) = [sample_raw_play] \<and>
     length entries = 2"
proof -
  have c: "cfgEntries sample_penv 0 [(0, ''sub.yaml''), (1 / 2, [])] =
      Inr [\<lparr>eorder = 0, fromCfg = True, eseq = 0, eplay = importPlay ''sub.yaml''\<rparr>]"
    by (simp add: ParseFunc_def IsTmplSyntax_def TrimSpace_def is_space_def)
  have cfg: "get (pconfig sample_penv) ''playbooks'' = Some (VList [])"
    and dec: "decodeInjections sample_penv (VList []) = Some [(0, ''sub.yaml''), (1 / 2, [])]"
    by (simp_all add: sample_penv_def)
  have nil: "VList [] \<noteq> VNil" by simp
  from injectPlaybooks_contract [OF cfg nil dec c, of "[sample_raw_play]"]
  show ?thesis
  proof (elim exE conjE)
    fix entries
    assume e: "injectPlaybooks sample_penv [sample_raw_play] = Inr (map eplay entries)"
      "mset entries = mset (fileEntries [sample_raw_play] @
         [\<lparr>eorder = 0, fromCfg = True, eseq = 0, eplay = importPlay ''sub.yaml''\<rparr>])"
      "sorted_wrt entry_less entries" "map eplay (filter (\<lambda>e. \<not> fromCfg e) entries) = [sample_raw_play]"
    have "length entries = 2"
      using arg_cong [OF e(2), of size] by (simp add: fileEntries_def enumerate_eq_zip)
    with e(1, 3, 4) show ?thesis by (intro exI [of _ entries] conjI)
  qed
qed

end
