(* ===== verification/Controller.thy ===== *)
theory Controller
  imports Blocks
begin

text \<open>
  The playbook controller (\<^verbatim>\<open>pkg/controllers/core/playbook_controller.go\<close>, with
  \<^verbatim>\<open>GetObjectListFromOwner\<close> of \<^verbatim>\<open>pkg/controllers/util/util.go\<close>): a playbook resource moves
  from the empty phase through Pending to Running, a pod is created that runs the executor, and
  the end of the pod ends the playbook. The state is what the API server holds: the playbook, if
  it exists, and the pods of its namespace. Every call to the API server may fail and the list of
  pods comes from a cache; both are parameters (\<open>api\<close>). A reconciliation is one step of the
  cluster; the pods, the executor inside them and the users are the other steps.
\<close>

record OwnerRef =
  RefKind :: string
  RefAPIVersion :: string
  RefName :: string
  RefUID :: string

datatype PodPhase = PodPending | PodRunning | PodSucceeded | PodFailed | PodUnknown

record ContainerStatus =
  CSName :: string
  CSTerminated :: "(string \<times> string) option"

record Container =
  ContainerName :: string
  CImage :: string
  CCommand :: "string list"
  CArgs :: "string list"
  CRunAs :: "int \<times> int"
  CImagePullPolicy :: string

record Pod =
  PodName :: string
  PodGenerateName :: string
  PodNamespace :: string
  PodLabels :: "string gomap"
  PodOwners :: "OwnerRef list"
  PodServiceAccount :: string
  PodRestartPolicy :: string
  PodContainers :: "Container list"
  PodDeleting :: bool
  PPhase :: PodPhase
  PMessage :: string
  PContainerStatuses :: "ContainerStatus list"

datatype reconcile_error =
  GetFailed | HelperFailed | OwnerListFailed | ListFailed | SetRefFailed | CreateFailed | DeleteFailed
| PatchFailed | BothFailed reconcile_error reconcile_error

datatype message = MsgText string | MsgError reconcile_error

record Playbook =
  PbName :: string
  PbNamespace :: string
  PbUID :: string
  PbDeleted :: bool
  PbFinalizers :: "string list"
  PbServiceAccountName :: string
  PbObjPhase :: PlaybookPhase
  PbObjReason :: PlaybookFailedReason
  PbObjMessage :: message

record cluster =
  cPlaybook :: "Playbook option"
  cPods :: "Pod list"

text \<open>
  What the calls of one reconciliation answer. \<open>view\<close> is the content of the client's cache for the
  pods of the namespace; \<open>setRef\<close> is \<^verbatim>\<open>ctrl.SetControllerReference\<close>; \<open>newName\<close> is the name
  the API server generates; \<open>lookupEnv\<close> reads the environment of the controller. The patch helper writes the metadata and the status with two
  requests, which may fail separately.
\<close>

datatype list_answer = ListOk | ListNotFound | ListError

record api =
  getOk :: bool
  helperOk :: bool
  view :: "Pod list \<Rightarrow> Pod list"
  statusListOk :: bool
  deleteListOk :: bool
  labelList :: list_answer
  deleteOk :: "Pod \<Rightarrow> bool"
  setRef :: "Playbook \<Rightarrow> Pod \<Rightarrow> Pod option"
  createOk :: bool
  metaPatchOk :: bool
  statusPatchOk :: bool
  newName :: "Pod list \<Rightarrow> string"
  lookupEnv :: "string \<Rightarrow> string option"

definition podPlaybookLabel :: string where "podPlaybookLabel = ''kubekey.kubesphere.io/playbook''"
definition executorContainer :: string where "executorContainer = ''executor''"
definition PlaybookCompletedFinalizer :: string where
  "PlaybookCompletedFinalizer = ''kubekey.kubesphere.io/playbook-completed''"
definition playbookKind :: string where "playbookKind = ''Playbook''"
definition playbookAPIVersion :: string where "playbookAPIVersion = ''kubekey.kubesphere.io/v1''"

abbreviation terminal :: "PlaybookPhase \<Rightarrow> bool" where
  "terminal p \<equiv> p = PlaybookPhaseFailed \<or> p = PlaybookPhaseSucceeded"

subsection \<open>Listing pods\<close>

definition ownedBy :: "Playbook \<Rightarrow> OwnerRef \<Rightarrow> bool" where
  "ownedBy pb ref \<longleftrightarrow>
     RefKind ref = playbookKind \<and> RefAPIVersion ref = playbookAPIVersion \<and>
     RefName ref = PbName pb \<and> RefUID ref = PbUID pb"

definition GetObjectListFromOwner :: "bool \<Rightarrow> Playbook \<Rightarrow> Pod list \<Rightarrow> reconcile_error + Pod list" where
  "GetObjectListFromOwner ok owner listed =
     (if \<not> ok then Inl OwnerListFailed
      else Inr (filter (\<lambda>item. list_ex (ownedBy owner) (PodOwners item)) listed))"

definition labelled :: "Playbook \<Rightarrow> Pod \<Rightarrow> bool" where
  "labelled pb pod \<longleftrightarrow> get (PodLabels pod) podPlaybookLabel = Some (PbName pb)"

subsection \<open>Reconciliation\<close>

definition terminatedMessage :: "message \<Rightarrow> ContainerStatus list \<Rightarrow> message" where
  "terminatedMessage = foldl (\<lambda>m cs.
     if CSName cs = executorContainer
     then (case CSTerminated cs of None \<Rightarrow> m | Some (reason, text) \<Rightarrow> MsgText (reason @ '': '' @ text))
     else m)"

definition reconcileStatus :: "api \<Rightarrow> Playbook \<Rightarrow> Pod list \<Rightarrow> reconcile_error option \<times> Playbook" where
  "reconcileStatus A pb pods =
     (case GetObjectListFromOwner (statusListOk A) pb (view A pods) of
        Inl e \<Rightarrow> (Some e, pb)
      | Inr podList \<Rightarrow>
          (if length podList \<noteq> 1 then (None, pb)
           else if terminal (PbObjPhase pb) then (None, pb)
           else
             (let pod = podList ! 0
              in case PPhase pod of
                   PodFailed \<Rightarrow>
                     (None, pb\<lparr>PbObjPhase := PlaybookPhaseFailed,
                               PbObjReason := PlaybookFailedReasonPodFailed,
                               PbObjMessage := terminatedMessage (MsgText (PMessage pod)) (PContainerStatuses pod)\<rparr>)
                 | PodSucceeded \<Rightarrow> (None, pb\<lparr>PbObjPhase := PlaybookPhaseSucceeded\<rparr>)
                 | _ \<Rightarrow> (None, pb))))"

text \<open>\<^verbatim>\<open>Client.Delete\<close> marks a pod; it stays in the API server until it has stopped.\<close>

fun deletePods :: "api \<Rightarrow> Pod list \<Rightarrow> Pod list \<Rightarrow> reconcile_error option \<times> Pod list" where
  "deletePods A [] pods = (None, pods)"
| "deletePods A (obj # found) pods =
     (if \<not> deleteOk A obj then (Some DeleteFailed, pods)
      else deletePods A found (map (\<lambda>p. if PodName p = PodName obj then p\<lparr>PodDeleting := True\<rparr> else p) pods))"

definition reconcileDelete ::
  "api \<Rightarrow> Playbook \<Rightarrow> Pod list \<Rightarrow> reconcile_error option \<times> Playbook \<times> Pod list" where
  "reconcileDelete A pb pods =
     (case GetObjectListFromOwner (deleteListOk A) pb (view A pods) of
        Inl e \<Rightarrow> (Some e, pb, pods)
      | Inr podList \<Rightarrow>
          (let (err, pods') = (if terminal (PbObjPhase pb) then deletePods A podList pods else (None, pods))
           in case err of
                Some e \<Rightarrow> (Some e, pb, pods')
              | None \<Rightarrow>
                  (None, if podList = []
                         then pb\<lparr>PbFinalizers := removeAll PlaybookCompletedFinalizer (PbFinalizers pb)\<rparr>
                         else pb, pods')))"

definition Getenv :: "api \<Rightarrow> string \<Rightarrow> string \<Rightarrow> string" where
  "Getenv A env def = (case lookupEnv A env of None \<Rightarrow> def | Some val \<Rightarrow> val)"

definition executorPod :: "api \<Rightarrow> Playbook \<Rightarrow> Pod" where
  "executorPod A pb =
     (let verbose = Getenv A ''EXECUTOR_VERBOSE'' [];
          policy = Getenv A ''EXECUTOR_IMAGE_PULLPOLICY'' [];
          args = [''playbook'', ''--name'', PbName pb, ''--namespace'', PbNamespace pb]
      in \<lparr>PodName = [], PodGenerateName = PbName pb @ ''-'', PodNamespace = PbNamespace pb,
          PodLabels = [(podPlaybookLabel, PbName pb)], PodOwners = [],
          PodServiceAccount = PbServiceAccountName pb, PodRestartPolicy = ''Never'',
          PodContainers =
            [\<lparr>ContainerName = executorContainer, CImage = Getenv A ''EXECUTOR_IMAGE'' ''docker.io/kubesphere/executor:latest'',
              CCommand = [''kk''],
              CArgs = (if verbose \<noteq> [] then args @ [''-v'', verbose] else args),
              CRunAs = (0, 0), CImagePullPolicy = policy\<rparr>],
          PodDeleting = False, PPhase = PodPending, PMessage = [], PContainerStatuses = []\<rparr>)"

definition dealRunningPlaybook ::
  "api \<Rightarrow> Playbook \<Rightarrow> Pod list \<Rightarrow> reconcile_error option \<times> Pod list" where
  "dealRunningPlaybook A pb pods =
     (if labelList A = ListError then (Some ListFailed, pods)
      else if labelList A = ListOk \<and> filter (labelled pb) (view A pods) \<noteq> [] then (None, pods)
      else (case setRef A pb (executorPod A pb) of
              None \<Rightarrow> (Some SetRefFailed, pods)
            | Some pod \<Rightarrow> (if createOk A then (None, pods @ [pod\<lparr>PodName := newName A pods\<rparr>]) else (Some CreateFailed, pods))))"

definition reconcileNormal ::
  "api \<Rightarrow> Playbook \<Rightarrow> Pod list \<Rightarrow> reconcile_error option \<times> Playbook \<times> Pod list" where
  "reconcileNormal A pb pods =
     (case PbObjPhase pb of
        PbPhaseNone \<Rightarrow> (None, pb\<lparr>PbObjPhase := PlaybookPhasePending\<rparr>, pods)
      | PlaybookPhasePending \<Rightarrow> (None, pb\<lparr>PbObjPhase := PlaybookPhaseRunning\<rparr>, pods)
      | PlaybookPhaseRunning \<Rightarrow> (let (err, pods') = dealRunningPlaybook A pb pods in (err, pb, pods'))
      | _ \<Rightarrow> (None, pb, pods))"

definition joinError :: "reconcile_error option \<Rightarrow> reconcile_error option \<Rightarrow> reconcile_error option" where
  "joinError a b = (case (a, b) of
     (None, _) \<Rightarrow> b | (_, None) \<Rightarrow> a | (Some x, Some y) \<Rightarrow> Some (BothFailed x y))"

definition recordFailure :: "reconcile_error option \<Rightarrow> Playbook \<Rightarrow> Playbook" where
  "recordFailure ret pb =
     (case ret of
        None \<Rightarrow> pb
      | Some e \<Rightarrow> pb\<lparr>PbObjReason := (if PbObjReason pb = NoReason then PlaybookFailedReasonUnknown
                                      else PbObjReason pb),
                    PbObjMessage := MsgError e\<rparr>)"

text \<open>
  \<^verbatim>\<open>patch.Helper.Patch\<close> of the object read (\<open>pb0\<close>) to the object computed (\<open>pb\<close>). A deleted object
  whose last finalizer is gone is removed by the API server.
\<close>

definition patchPlaybook :: "api \<Rightarrow> Playbook \<Rightarrow> Playbook \<Rightarrow> reconcile_error option \<times> Playbook option" where
  "patchPlaybook A pb0 pb =
     (let pb1 = (if metaPatchOk A then pb0\<lparr>PbFinalizers := PbFinalizers pb\<rparr> else pb0);
          pb2 = (if statusPatchOk A
                 then pb1\<lparr>PbObjPhase := PbObjPhase pb, PbObjReason := PbObjReason pb,
                          PbObjMessage := PbObjMessage pb\<rparr> else pb1)
      in (if metaPatchOk A \<and> statusPatchOk A then None else Some PatchFailed,
          if PbDeleted pb2 \<and> PbFinalizers pb2 = [] then None else Some pb2))"

definition Reconcile :: "api \<Rightarrow> cluster \<Rightarrow> reconcile_error option \<times> cluster" where
  "Reconcile A c =
     (if \<not> getOk A then (Some GetFailed, c)
      else case cPlaybook c of
             None \<Rightarrow> (None, c)
           | Some pb0 \<Rightarrow>
               (if \<not> helperOk A then (Some HelperFailed, c)
                else
                  (let (ret, pb, pods) =
                     (if \<not> PbDeleted pb0 \<and> PlaybookCompletedFinalizer \<notin> set (PbFinalizers pb0)
                      then (None, pb0\<lparr>PbFinalizers := PbFinalizers pb0 @ [PlaybookCompletedFinalizer]\<rparr>, cPods c)
                      else if PbDeleted pb0 then reconcileDelete A pb0 (cPods c)
                      else reconcileNormal A pb0 (cPods c));
                       (serr, pb') = reconcileStatus A (recordFailure ret pb) pods;
                       (perr, stored) = patchPlaybook A pb0 pb'
                   in (joinError (joinError ret serr) perr, \<lparr>cPlaybook = stored, cPods = pods\<rparr>))))"

subsection \<open>The cluster as a state machine\<close>

definition ownerRef :: "Playbook \<Rightarrow> OwnerRef" where
  "ownerRef pb = \<lparr>RefKind = playbookKind, RefAPIVersion = playbookAPIVersion,
                  RefName = PbName pb, RefUID = PbUID pb\<rparr>"

definition podOf :: "string \<Rightarrow> Pod \<Rightarrow> bool" where
  "podOf name pod \<longleftrightarrow> get (PodLabels pod) podPlaybookLabel = Some name"

definition ownedPod :: "string \<Rightarrow> string \<Rightarrow> Pod \<Rightarrow> bool" where
  "ownedPod name uid pod \<longleftrightarrow>
     list_ex (\<lambda>r. RefKind r = playbookKind \<and> RefAPIVersion r = playbookAPIVersion \<and>
                  RefName r = name \<and> RefUID r = uid) (PodOwners pod)"

definition foreign :: "string \<Rightarrow> string \<Rightarrow> Pod \<Rightarrow> bool" where
  "foreign name uid pod \<longleftrightarrow> \<not> podOf name pod \<and> \<not> ownedPod name uid pod"

text \<open>
  What is assumed of the calls. \<open>documented\<close>: \<^verbatim>\<open>SetControllerReference\<close> adds an owner reference
  to the playbook and nothing else. \<open>current\<close>: the cache is up to date. \<open>answering\<close>: no call fails.
\<close>

definition documented :: "api \<Rightarrow> bool" where
  "documented A \<longleftrightarrow>
     (\<forall>pb pod pod'. setRef A pb pod = Some pod' \<longrightarrow> pod' = pod\<lparr>PodOwners := PodOwners pod @ [ownerRef pb]\<rparr>)"

definition current :: "api \<Rightarrow> bool" where
  "current A \<longleftrightarrow> (\<forall>ps. view A ps = ps) \<and> labelList A \<noteq> ListNotFound"

definition answering :: "api \<Rightarrow> bool" where
  "answering A \<longleftrightarrow>
     getOk A \<and> helperOk A \<and> statusListOk A \<and> deleteListOk A \<and> labelList A = ListOk \<and>
     (\<forall>p. deleteOk A p) \<and> (\<forall>pb pod. setRef A pb pod \<noteq> None) \<and> createOk A \<and> metaPatchOk A \<and> statusPatchOk A"

text \<open>
  The steps of the cluster for the playbook with a given name and identifier. \<open>G\<close> says which
  answers the API server may give. Without the executors (\<open>calm\<close>): a pod may change its status, be
  deleted by a user, and go once it is deleted; a user may delete the playbook; other pods come.
\<close>

inductive calm :: "(api \<Rightarrow> bool) \<Rightarrow> string \<Rightarrow> string \<Rightarrow> cluster \<Rightarrow> cluster \<Rightarrow> bool"
  for G name uid where
  reconcile: "G A \<Longrightarrow> calm G name uid c (snd (Reconcile A c))"
| podChanges: "i < length (cPods c) \<Longrightarrow>
     calm G name uid c (c\<lparr>cPods := (cPods c)[i := (cPods c ! i)
       \<lparr>PPhase := ph, PMessage := m, PContainerStatuses := cs\<rparr>]\<rparr>)"
| podKilled: "i < length (cPods c) \<Longrightarrow>
     calm G name uid c (c\<lparr>cPods := (cPods c)[i := (cPods c ! i)\<lparr>PodDeleting := True\<rparr>]\<rparr>)"
| podGone: "i < length (cPods c) \<Longrightarrow> PodDeleting (cPods c ! i) \<Longrightarrow>
     calm G name uid c (c\<lparr>cPods := take i (cPods c) @ drop (Suc i) (cPods c)\<rparr>)"
| podOther: "foreign name uid pod \<Longrightarrow> calm G name uid c (c\<lparr>cPods := cPods c @ [pod]\<rparr>)"
| userDeletes: "cPlaybook c = Some pb \<Longrightarrow>
     calm G name uid c (c\<lparr>cPlaybook := (if PbFinalizers pb = [] then None else Some (pb\<lparr>PbDeleted := True\<rparr>))\<rparr>)"

text \<open>
  The executor in a pod ends the playbook. Its last act (\<^verbatim>\<open>syncStatus\<close> in
  \<^verbatim>\<open>pkg/executor/playbook_executor.go\<close>) writes the phase whatever the phase is by then: only the
  start of the executor looks at it.
\<close>

inductive step :: "(api \<Rightarrow> bool) \<Rightarrow> string \<Rightarrow> string \<Rightarrow> cluster \<Rightarrow> cluster \<Rightarrow> bool"
  for G name uid where
  calmStep: "calm G name uid c c' \<Longrightarrow> step G name uid c c'"
| executorFails: "cPlaybook c = Some pb \<Longrightarrow> p \<in> set (cPods c) \<Longrightarrow> podOf name p \<Longrightarrow>
     step G name uid c (c\<lparr>cPlaybook := Some (pb\<lparr>PbObjPhase := PlaybookPhaseFailed,
       PbObjReason := PlaybookFailedReasonTaskFailed, PbObjMessage := m\<rparr>)\<rparr>)"
| executorSucceeds: "cPlaybook c = Some pb \<Longrightarrow> p \<in> set (cPods c) \<Longrightarrow> podOf name p \<Longrightarrow>
     step G name uid c (c\<lparr>cPlaybook := Some (pb\<lparr>PbObjPhase := PlaybookPhaseSucceeded\<rparr>)\<rparr>)"

inductive_cases calmE: "calm G name uid c c'"
inductive_cases stepE: "step G name uid c c'"

lemma step_reconcile: "G A \<Longrightarrow> step G name uid c (snd (Reconcile A c))"
  by (rule step.calmStep) (rule calm.reconcile)

definition created :: "string \<Rightarrow> string \<Rightarrow> cluster \<Rightarrow> bool" where
  "created name uid c \<longleftrightarrow>
     (\<exists>pb. cPlaybook c = Some pb \<and> PbName pb = name \<and> PbUID pb = uid \<and> \<not> PbDeleted pb \<and>
        PbFinalizers pb = [] \<and> PbObjPhase pb = PbPhaseNone) \<and>
     list_all (foreign name uid) (cPods c)"

definition pods_ok :: "string \<Rightarrow> string \<Rightarrow> Pod list \<Rightarrow> bool" where
  "pods_ok name uid pods \<longleftrightarrow>
     length (filter (podOf name) pods) \<le> 1 \<and> list_all (\<lambda>p. podOf name p \<longleftrightarrow> ownedPod name uid p) pods"

definition started :: "Playbook \<Rightarrow> bool" where
  "started pb \<longleftrightarrow> PlaybookCompletedFinalizer \<in> set (PbFinalizers pb) \<and>
     PbObjPhase pb \<noteq> PbPhaseNone \<and> PbObjPhase pb \<noteq> PlaybookPhasePending"

definition wf_cluster :: "string \<Rightarrow> string \<Rightarrow> cluster \<Rightarrow> bool" where
  "wf_cluster name uid c \<longleftrightarrow>
     pods_ok name uid (cPods c) \<and>
     (case cPlaybook c of
        None \<Rightarrow> filter (podOf name) (cPods c) = []
      | Some pb \<Rightarrow> PbName pb = name \<and> PbUID pb = uid \<and>
          (filter (podOf name) (cPods c) = [] \<or> started pb))"

lemma labelled_podOf: "labelled pb = podOf (PbName pb)"
  by (auto simp: labelled_def podOf_def)

lemma owned_ownedPod: "list_ex (ownedBy pb) (PodOwners pod) = ownedPod (PbName pb) (PbUID pb) pod"
  by (auto simp: ownedPod_def ownedBy_def list_ex_iff)

lemma wf_created: "created name uid c \<Longrightarrow> wf_cluster name uid c"
  by (auto simp: created_def wf_cluster_def pods_ok_def foreign_def list_all_iff filter_empty_conv)

definition profile :: "string \<Rightarrow> string \<Rightarrow> Pod list \<Rightarrow> (bool \<times> bool) list" where
  "profile name uid pods = map (\<lambda>p. (podOf name p, ownedPod name uid p)) pods"

lemma pods_ok_profile:
  "pods_ok name uid pods \<longleftrightarrow>
     length (filter fst (profile name uid pods)) \<le> 1 \<and> list_all (\<lambda>(a, b). a \<longleftrightarrow> b) (profile name uid pods)"
  by (simp add: pods_ok_def profile_def filter_map list_all_length comp_def)

lemma no_pods_profile: "filter (podOf name) pods = [] \<longleftrightarrow> filter fst (profile name uid pods) = []"
  by (simp add: profile_def filter_map comp_def)

lemma wf_cluster_profile:
  "profile name uid (cPods c') = profile name uid (cPods c) \<Longrightarrow> cPlaybook c' = cPlaybook c \<Longrightarrow>
   wf_cluster name uid c \<Longrightarrow> wf_cluster name uid c'"
  by (auto simp: wf_cluster_def pods_ok_profile no_pods_profile [of _ _ uid] split: option.splits)

lemma profile_update:
  "i < length pods \<Longrightarrow> podOf name p = podOf name (pods ! i) \<Longrightarrow>
   ownedPod name uid p = ownedPod name uid (pods ! i) \<Longrightarrow>
   profile name uid (pods[i := p]) = profile name uid pods"
  by (rule nth_equalityI) (auto simp: profile_def nth_list_update)

lemma profile_deletePods: "profile name uid (snd (deletePods A found pods)) = profile name uid pods"
  by (induction A found pods rule: deletePods.induct)
     (auto simp: profile_def podOf_def ownedPod_def)

lemma wf_gone:
  assumes "wf_cluster name uid c" "i < length (cPods c)"
  shows "wf_cluster name uid (c\<lparr>cPods := take i (cPods c) @ drop (Suc i) (cPods c)\<rparr>)"
proof -
  have "cPods c = take i (cPods c) @ cPods c ! i # drop (Suc i) (cPods c)"
    using assms(2) by (rule id_take_nth_drop)
  then obtain xs x ys where "cPods c = xs @ x # ys" "take i (cPods c) @ drop (Suc i) (cPods c) = xs @ ys"
    by blast
  with assms(1) show ?thesis
    by (auto simp: wf_cluster_def pods_ok_def split: option.splits if_splits)
qed

lemma reconcileStatus_keeps:
  assumes "reconcileStatus A pb pods = (e, pb')"
  shows "PbName pb' = PbName pb" "PbUID pb' = PbUID pb" "PbDeleted pb' = PbDeleted pb"
    "PbFinalizers pb' = PbFinalizers pb"
    "PbObjPhase pb' = PbObjPhase pb \<or> terminal (PbObjPhase pb')"
    "terminal (PbObjPhase pb) \<Longrightarrow> PbObjPhase pb' = PbObjPhase pb"
  using assms by (auto simp: reconcileStatus_def Let_def split: sum.splits if_splits PodPhase.splits)

lemma recordFailure_keeps [simp]:
  "PbName (recordFailure ret pb) = PbName pb" "PbUID (recordFailure ret pb) = PbUID pb"
  "PbDeleted (recordFailure ret pb) = PbDeleted pb" "PbFinalizers (recordFailure ret pb) = PbFinalizers pb"
  "PbObjPhase (recordFailure ret pb) = PbObjPhase pb"
  by (auto simp: recordFailure_def split: option.splits)

text \<open>The part of a reconciliation before the deferred function.\<close>

definition reconcileBody ::
  "api \<Rightarrow> Playbook \<Rightarrow> Pod list \<Rightarrow> reconcile_error option \<times> Playbook \<times> Pod list" where
  "reconcileBody A pb0 pods =
     (if \<not> PbDeleted pb0 \<and> PlaybookCompletedFinalizer \<notin> set (PbFinalizers pb0)
      then (None, pb0\<lparr>PbFinalizers := PbFinalizers pb0 @ [PlaybookCompletedFinalizer]\<rparr>, pods)
      else if PbDeleted pb0 then reconcileDelete A pb0 pods
      else reconcileNormal A pb0 pods)"

lemma Reconcile_cases:
  obtains (same) "snd (Reconcile A c) = c"
  | (run) pb0 ret pb pods e pb' where "getOk A" "helperOk A" "cPlaybook c = Some pb0"
      "reconcileBody A pb0 (cPods c) = (ret, pb, pods)"
      "reconcileStatus A (recordFailure ret pb) pods = (e, pb')"
      "snd (Reconcile A c) = \<lparr>cPlaybook = snd (patchPlaybook A pb0 pb'), cPods = pods\<rparr>"
proof (cases "getOk A \<and> helperOk A \<and> cPlaybook c \<noteq> None")
  case False
  then show ?thesis using same by (auto simp: Reconcile_def split: option.splits)
next
  case True
  then obtain pb0 where pb0: "cPlaybook c = Some pb0" by blast
  obtain ret pb pods where b: "reconcileBody A pb0 (cPods c) = (ret, pb, pods)" by (cases "reconcileBody A pb0 (cPods c)")
  obtain e pb' where s: "reconcileStatus A (recordFailure ret pb) pods = (e, pb')"
    by (cases "reconcileStatus A (recordFailure ret pb) pods")
  have "snd (Reconcile A c) = \<lparr>cPlaybook = snd (patchPlaybook A pb0 pb'), cPods = pods\<rparr>"
    using True pb0 s b [unfolded reconcileBody_def]
    by (simp add: Reconcile_def case_prod_beta)
  with True pb0 b s run show ?thesis by blast
qed

lemma ownedPod_new: "documented A \<Longrightarrow> setRef A pb (executorPod A pb) = Some pod \<Longrightarrow>
   podOf (PbName pb) (pod\<lparr>PodName := n\<rparr>) \<and> ownedPod (PbName pb) (PbUID pb) (pod\<lparr>PodName := n\<rparr>)"
proof -
  assume "documented A" "setRef A pb (executorPod A pb) = Some pod"
  then have "pod = (executorPod A pb)\<lparr>PodOwners := PodOwners (executorPod A pb) @ [ownerRef pb]\<rparr>"
    by (auto simp: documented_def)
  then show ?thesis by (simp add: executorPod_def Let_def podOf_def ownedPod_def ownerRef_def)
qed

lemma dealRunning_pods:
  assumes "dealRunningPlaybook A pb pods = (ret, pods')" "current A" "documented A"
    "pods_ok (PbName pb) (PbUID pb) pods"
  shows "pods_ok (PbName pb) (PbUID pb) pods'"
  using assms ownedPod_new [of A pb]
  by (cases "labelList A")
     (auto simp: dealRunningPlaybook_def current_def labelled_podOf pods_ok_def filter_empty_conv
      split: if_splits option.splits)

lemma reconcileDelete_effect:
  assumes "reconcileDelete A pb0 pods = (ret, pb, pods')" "current A"
    "wf_cluster (PbName pb0) (PbUID pb0) \<lparr>cPlaybook = Some pb0, cPods = pods\<rparr>"
  shows "profile (PbName pb0) (PbUID pb0) pods' = profile (PbName pb0) (PbUID pb0) pods"
    "pb = pb0 \<or> filter (podOf (PbName pb0)) pods = [] \<and> PbObjPhase pb = PbObjPhase pb0"
proof -
  have own: "filter (\<lambda>p. list_ex (ownedBy pb0) (PodOwners p)) pods = filter (podOf (PbName pb0)) pods"
    using assms(3) by (auto simp: wf_cluster_def pods_ok_def owned_ownedPod list_all_iff intro: filter_cong)
  show "profile (PbName pb0) (PbUID pb0) pods' = profile (PbName pb0) (PbUID pb0) pods"
    using assms(1) profile_deletePods
    by (auto simp: reconcileDelete_def split: sum.splits prod.splits option.splits if_splits) (metis snd_conv)+
  show "pb = pb0 \<or> filter (podOf (PbName pb0)) pods = [] \<and> PbObjPhase pb = PbObjPhase pb0"
    using assms(1, 2) own
    by (auto simp: reconcileDelete_def GetObjectListFromOwner_def current_def
        split: sum.splits prod.splits option.splits if_splits)
qed

lemma reconcileNormal_effect:
  assumes "reconcileNormal A pb0 pods = (ret, pb, pods')"
  shows "PbObjPhase pb0 = PlaybookPhaseRunning \<and> pb = pb0 \<and> dealRunningPlaybook A pb0 pods = (ret, pods') \<or>
     PbObjPhase pb0 \<noteq> PlaybookPhaseRunning \<and> pods' = pods \<and>
     (pb = pb0 \<or> \<not> started pb0) \<and> PbFinalizers pb = PbFinalizers pb0"
  using assms by (auto simp: reconcileNormal_def started_def split: PlaybookPhase.splits prod.splits)

lemma reconcileBody_wf:
  assumes body: "reconcileBody A pb0 pods = (ret, pb, pods')" and A: "current A" "documented A"
    and wf: "wf_cluster (PbName pb0) (PbUID pb0) \<lparr>cPlaybook = Some pb0, cPods = pods\<rparr>"
  shows "pods_ok (PbName pb0) (PbUID pb0) pods'"
    "filter (podOf (PbName pb0)) pods' = [] \<or>
       started pb0 \<and> PbFinalizers pb = PbFinalizers pb0 \<and> PbObjPhase pb = PbObjPhase pb0"
proof -
  let ?n = "PbName pb0" and ?u = "PbUID pb0"
  have ok: "pods_ok ?n ?u pods" and st: "filter (podOf ?n) pods = [] \<or> started pb0"
    using wf by (simp_all add: wf_cluster_def)
  consider (fin) "pods' = pods" "\<not> started pb0" | (del) "reconcileDelete A pb0 pods = (ret, pb, pods')"
    | (normal) "PlaybookCompletedFinalizer \<in> set (PbFinalizers pb0)" "reconcileNormal A pb0 pods = (ret, pb, pods')"
    using body by (auto simp: reconcileBody_def started_def split: if_splits)
  then show "pods_ok ?n ?u pods'"
    "filter (podOf ?n) pods' = [] \<or> started pb0 \<and> PbFinalizers pb = PbFinalizers pb0 \<and> PbObjPhase pb = PbObjPhase pb0"
  proof (atomize (full), cases)
    case fin
    then show "pods_ok ?n ?u pods' \<and> (filter (podOf ?n) pods' = [] \<or>
        started pb0 \<and> PbFinalizers pb = PbFinalizers pb0 \<and> PbObjPhase pb = PbObjPhase pb0)"
      using ok st by simp
  next
    case del
    from reconcileDelete_effect [OF del A(1) wf]
    show "pods_ok ?n ?u pods' \<and> (filter (podOf ?n) pods' = [] \<or>
        started pb0 \<and> PbFinalizers pb = PbFinalizers pb0 \<and> PbObjPhase pb = PbObjPhase pb0)"
      using ok st by (auto simp: pods_ok_profile no_pods_profile [of _ _ ?u])
  next
    case normal
    from reconcileNormal_effect [OF normal(2)]
    show "pods_ok ?n ?u pods' \<and> (filter (podOf ?n) pods' = [] \<or>
        started pb0 \<and> PbFinalizers pb = PbFinalizers pb0 \<and> PbObjPhase pb = PbObjPhase pb0)"
    proof (elim disjE conjE)
      assume "PbObjPhase pb0 = PlaybookPhaseRunning" "pb = pb0" "dealRunningPlaybook A pb0 pods = (ret, pods')"
      then show ?thesis using dealRunning_pods [OF _ A ok] normal(1) by (auto simp: started_def)
    qed (use ok st in auto)
  qed
qed

lemma patch_started:
  "started pb0 \<Longrightarrow> PbFinalizers pb = PbFinalizers pb0 \<Longrightarrow> PbObjPhase pb \<noteq> PbPhaseNone \<Longrightarrow>
   PbObjPhase pb \<noteq> PlaybookPhasePending \<Longrightarrow> \<exists>pb'. snd (patchPlaybook A pb0 pb) = Some pb' \<and> started pb'"
  by (auto simp: patchPlaybook_def started_def Let_def)

lemma patch_ident:
  "snd (patchPlaybook A pb0 pb) = Some pb' \<Longrightarrow>
   PbName pb' = PbName pb0 \<and> PbUID pb' = PbUID pb0 \<and> PbDeleted pb' = PbDeleted pb0"
  by (auto simp: patchPlaybook_def Let_def split: if_splits)

lemma Reconcile_wf:
  assumes "wf_cluster name uid c" "current A" "documented A"
  shows "wf_cluster name uid (snd (Reconcile A c))"
proof (cases rule: Reconcile_cases [of A c])
  case same
  with assms show ?thesis by simp
next
  case (run pb0 ret pb pods e pb')
  have id: "PbName pb0 = name" "PbUID pb0 = uid" using assms(1) run(3) by (auto simp: wf_cluster_def)
  then have "wf_cluster (PbName pb0) (PbUID pb0) \<lparr>cPlaybook = Some pb0, cPods = cPods c\<rparr>"
    using assms(1) run(3) by (simp add: wf_cluster_def)
  note body = reconcileBody_wf [OF run(4) assms(2, 3) this]
  have keep: "PbFinalizers pb' = PbFinalizers pb" "PbObjPhase pb' = PbObjPhase pb \<or> terminal (PbObjPhase pb')"
    using reconcileStatus_keeps(4, 5) [OF run(5)] by simp_all
  have "filter (podOf name) pods = [] \<or> (\<exists>q. snd (patchPlaybook A pb0 pb') = Some q \<and> started q)"
  proof (cases "filter (podOf name) pods = []")
    case False
    then have b: "started pb0" "PbFinalizers pb = PbFinalizers pb0" "PbObjPhase pb = PbObjPhase pb0"
      using body(2) id by auto
    then have "PbObjPhase pb' \<noteq> PbPhaseNone" "PbObjPhase pb' \<noteq> PlaybookPhasePending"
      using keep(2) by (auto simp: started_def)
    then show ?thesis using patch_started [OF b(1)] b keep(1) by simp
  qed simp
  then show ?thesis
    using patch_ident [of A pb0 pb'] body(1) id
    by (cases "snd (patchPlaybook A pb0 pb')") (auto simp: wf_cluster_def run(6))
qed

lemma calm_wf:
  assumes "calm G name uid c c'" "\<And>A. G A \<Longrightarrow> current A \<and> documented A" "wf_cluster name uid c"
  shows "wf_cluster name uid c'"
  using assms(1)
proof cases
  case (reconcile A)
  then show ?thesis using Reconcile_wf assms(2, 3) by blast
next
  case podChanges
  then show ?thesis
    by (intro wf_cluster_profile [OF _ _ assms(3)]) (simp_all add: profile_update podOf_def ownedPod_def)
next
  case podKilled
  then show ?thesis
    by (intro wf_cluster_profile [OF _ _ assms(3)]) (simp_all add: profile_update podOf_def ownedPod_def)
next
  case podGone
  then show ?thesis using wf_gone [OF assms(3)] by simp
next
  case podOther
  then show ?thesis using assms(3) by (auto simp: wf_cluster_def pods_ok_def foreign_def split: option.splits)
next
  case userDeletes
  then show ?thesis using assms(3) by (auto simp: wf_cluster_def started_def)
qed

text \<open>A pod of the playbook exists only once the playbook has started, so an executor that ends it
  finds it started.\<close>

lemma wf_pod_started:
  "wf_cluster name uid c \<Longrightarrow> cPlaybook c = Some pb \<Longrightarrow> p \<in> set (cPods c) \<Longrightarrow> podOf name p \<Longrightarrow> started pb"
  by (auto simp: wf_cluster_def filter_empty_conv)

lemma step_wf:
  assumes "step G name uid c c'" "\<And>A. G A \<Longrightarrow> current A \<and> documented A" "wf_cluster name uid c"
  shows "wf_cluster name uid c'"
  using assms(1)
proof cases
  case calmStep
  then show ?thesis using calm_wf assms(2, 3) by blast
next
  case (executorFails pb p m)
  then have "started pb" using wf_pod_started [OF assms(3)] by blast
  then show ?thesis using assms(3) executorFails by (auto simp: wf_cluster_def started_def)
next
  case (executorSucceeds pb p)
  then have "started pb" using wf_pod_started [OF assms(3)] by blast
  then show ?thesis using assms(3) executorSucceeds by (auto simp: wf_cluster_def started_def)
qed

definition distance :: "string \<Rightarrow> cluster \<Rightarrow> nat" where
  "distance name c =
     (case cPlaybook c of
        None \<Rightarrow> 0
      | Some pb \<Rightarrow>
          (if PbDeleted pb then 0
           else if PlaybookCompletedFinalizer \<notin> set (PbFinalizers pb) then
             (if terminal (PbObjPhase pb) then 0 else 4)
           else (case PbObjPhase pb of
                   PbPhaseNone \<Rightarrow> 3
                 | PlaybookPhasePending \<Rightarrow> 2
                 | PlaybookPhaseRunning \<Rightarrow> (if list_ex (podOf name) (cPods c) then 0 else 1)
                 | _ \<Rightarrow> 0)))"

definition named :: "string \<Rightarrow> cluster \<Rightarrow> bool" where
  "named name c \<longleftrightarrow> (\<forall>pb. cPlaybook c = Some pb \<longrightarrow> PbName pb = name)"

lemma distance_le4: "distance name c \<le> 4"
  by (auto simp: distance_def split: option.splits PlaybookPhase.splits)

lemma distance_pos:
  assumes "0 < distance name c"
  obtains pb where "cPlaybook c = Some pb" "\<not> PbDeleted pb" "\<not> terminal (PbObjPhase pb)"
  using assms by (auto simp: distance_def split: option.splits PlaybookPhase.splits if_splits)

lemma Reconcile_named: "named name c \<Longrightarrow> named name (snd (Reconcile A c))"
  by (cases rule: Reconcile_cases [of A c]) (auto simp: named_def dest: patch_ident)

lemma step_named: "step G name uid c c' \<Longrightarrow> named name c \<Longrightarrow> named name c'"
  by (elim stepE calmE) (auto simp: Reconcile_named, auto simp: named_def)

lemma patch_open:
  assumes "\<not> PbDeleted pb0" "PbFinalizers pb = PbFinalizers pb0"
  shows "\<exists>q. snd (patchPlaybook A pb0 pb) = Some q \<and> \<not> PbDeleted q \<and> PbFinalizers q = PbFinalizers pb0 \<and>
    PbObjPhase q = (if statusPatchOk A then PbObjPhase pb else PbObjPhase pb0)"
  using assms by (auto simp: patchPlaybook_def Let_def)

lemma distance_finalized:
  assumes "cPlaybook c = Some pb" "\<not> PbDeleted pb" "PlaybookCompletedFinalizer \<in> set (PbFinalizers pb)"
  shows "distance name c =
    (case PbObjPhase pb of PbPhaseNone \<Rightarrow> 3 | PlaybookPhasePending \<Rightarrow> 2
     | PlaybookPhaseRunning \<Rightarrow> (if list_ex (podOf name) (cPods c) then 0 else 1) | _ \<Rightarrow> 0)"
  using assms by (simp add: distance_def)

lemma Reconcile_run:
  assumes "getOk A" "helperOk A" "cPlaybook c = Some pb0" "reconcileBody A pb0 (cPods c) = (ret, pb, pods)"
    "reconcileStatus A (recordFailure ret pb) pods = (e, pb')"
  shows "snd (Reconcile A c) = \<lparr>cPlaybook = snd (patchPlaybook A pb0 pb'), cPods = pods\<rparr>"
  using assms(1, 2, 3, 5) assms(4) [unfolded reconcileBody_def]
  by (simp add: Reconcile_def case_prod_beta)

text \<open>What a reconciliation leaves of a playbook that has its finalizer and is not deleted.\<close>

lemma Reconcile_open:
  assumes c: "cPlaybook c = Some pb0" "\<not> PbDeleted pb0" "PlaybookCompletedFinalizer \<in> set (PbFinalizers pb0)"
    and ok: "getOk A" "helperOk A" and body: "reconcileNormal A pb0 (cPods c) = (ret, pb, pods)"
  obtains q where "cPlaybook (snd (Reconcile A c)) = Some q" "\<not> PbDeleted q"
    "PbFinalizers q = PbFinalizers pb0" "cPods (snd (Reconcile A c)) = pods"
    "PbObjPhase q = PbObjPhase pb \<or> terminal (PbObjPhase q) \<or> \<not> statusPatchOk A \<and> PbObjPhase q = PbObjPhase pb0"
proof -
  obtain e pb' where s: "reconcileStatus A (recordFailure ret pb) pods = (e, pb')"
    by (cases "reconcileStatus A (recordFailure ret pb) pods")
  have b: "reconcileBody A pb0 (cPods c) = (ret, pb, pods)" using c body by (simp add: reconcileBody_def)
  have "PbFinalizers pb = PbFinalizers pb0" using reconcileNormal_effect [OF body] by auto
  then have f: "PbFinalizers pb' = PbFinalizers pb0" using reconcileStatus_keeps(4) [OF s] by simp
  from patch_open [OF c(2) f, of A] obtain q where q: "snd (patchPlaybook A pb0 pb') = Some q"
    "\<not> PbDeleted q" "PbFinalizers q = PbFinalizers pb0"
    "PbObjPhase q = (if statusPatchOk A then PbObjPhase pb' else PbObjPhase pb0)" by blast
  show ?thesis
    by (rule that [of q])
       (use q reconcileStatus_keeps(5) [OF s] Reconcile_run [OF ok c(1) b s] in auto)
qed

lemma answering_creates:
  assumes "answering A" "current A" "documented A" "\<not> list_ex (podOf (PbName pb)) pods"
    "dealRunningPlaybook A pb pods = (ret, pods')"
  shows "list_ex (podOf (PbName pb)) pods'"
proof -
  have "setRef A pb (executorPod A pb) \<noteq> None" using assms(1) unfolding answering_def by blast
  then obtain pod where pod: "setRef A pb (executorPod A pb) = Some pod" by blast
  have "filter (labelled pb) pods = []"
    using assms(4) by (auto simp: labelled_podOf filter_empty_conv list_ex_iff)
  then have "pods' = pods @ [pod\<lparr>PodName := newName A pods\<rparr>]"
    using assms(1, 2, 5) pod by (simp add: dealRunningPlaybook_def answering_def current_def)
  then show ?thesis using ownedPod_new [OF assms(3) pod] by simp
qed

lemma Reconcile_distance_open:
  assumes c: "cPlaybook c = Some pb0" "\<not> PbDeleted pb0" "PlaybookCompletedFinalizer \<in> set (PbFinalizers pb0)"
    and ok: "getOk A" "helperOk A" and pos: "0 < distance (PbName pb0) c"
  shows "distance (PbName pb0) (snd (Reconcile A c)) \<le> distance (PbName pb0) c"
    "answering A \<Longrightarrow> current A \<Longrightarrow> documented A \<Longrightarrow>
     distance (PbName pb0) (snd (Reconcile A c)) < distance (PbName pb0) c"
proof -
  obtain ret pb pods where body: "reconcileNormal A pb0 (cPods c) = (ret, pb, pods)"
    by (cases "reconcileNormal A pb0 (cPods c)")
  obtain q where q: "cPlaybook (snd (Reconcile A c)) = Some q" "\<not> PbDeleted q"
    "PbFinalizers q = PbFinalizers pb0" "cPods (snd (Reconcile A c)) = pods"
    "PbObjPhase q = PbObjPhase pb \<or> terminal (PbObjPhase q) \<or> \<not> statusPatchOk A \<and> PbObjPhase q = PbObjPhase pb0"
    using Reconcile_open [OF c ok body] by metis
  note d = distance_finalized [OF c] distance_finalized [OF q(1, 2), unfolded q(3), OF c(3)]
  show "distance (PbName pb0) (snd (Reconcile A c)) \<le> distance (PbName pb0) c"
    using pos body q(5) unfolding d
    by (cases "PbObjPhase pb0")
       (auto simp: reconcileNormal_def split: prod.splits if_splits)
  assume A: "answering A" "current A" "documented A"
  then have "PbObjPhase q = PbObjPhase pb \<or> terminal (PbObjPhase q)" using q(5) by (auto simp: answering_def)
  then show "distance (PbName pb0) (snd (Reconcile A c)) < distance (PbName pb0) c"
    using pos body answering_creates [OF A, of pb0 "cPods c"] unfolding d q(4)
    by (cases "PbObjPhase pb0")
       (auto simp: reconcileNormal_def split: prod.splits if_splits)
qed

lemma Reconcile_distance_new:
  assumes "cPlaybook c = Some pb0" "\<not> PbDeleted pb0" "PlaybookCompletedFinalizer \<notin> set (PbFinalizers pb0)"
    "\<not> terminal (PbObjPhase pb0)" "answering A"
  shows "distance name (snd (Reconcile A c)) < distance name c"
proof -
  let ?pb = "pb0\<lparr>PbFinalizers := PbFinalizers pb0 @ [PlaybookCompletedFinalizer]\<rparr>"
  obtain e pb' where s: "reconcileStatus A (recordFailure None ?pb) (cPods c) = (e, pb')"
    by (cases "reconcileStatus A (recordFailure None ?pb) (cPods c)")
  have "snd (Reconcile A c) = \<lparr>cPlaybook = snd (patchPlaybook A pb0 pb'), cPods = cPods c\<rparr>"
    using assms by (intro Reconcile_run [OF _ _ _ _ s]) (auto simp: answering_def reconcileBody_def)
  moreover have "PlaybookCompletedFinalizer \<in> set (PbFinalizers pb')"
    using reconcileStatus_keeps(4) [OF s] by simp
  ultimately show ?thesis
    using assms by (auto simp: distance_def patchPlaybook_def answering_def Let_def split: PlaybookPhase.splits)
qed

lemma Reconcile_distance:
  assumes n: "named name c" and pos: "0 < distance name c"
  shows "distance name (snd (Reconcile A c)) \<le> distance name c"
    "answering A \<Longrightarrow> current A \<Longrightarrow> documented A \<Longrightarrow> distance name (snd (Reconcile A c)) < distance name c"
proof -
  obtain pb0 where pb0: "cPlaybook c = Some pb0" "\<not> PbDeleted pb0" "\<not> terminal (PbObjPhase pb0)"
    using distance_pos [OF pos] by blast
  then have name: "PbName pb0 = name" using n by (simp add: named_def)
  let ?fin = "PlaybookCompletedFinalizer \<in> set (PbFinalizers pb0)"
  have "distance name c = 4" if "\<not> ?fin" using pb0 that by (simp add: distance_def)
  moreover have "snd (Reconcile A c) = c" if "\<not> (getOk A \<and> helperOk A)"
    using that pb0 by (auto simp: Reconcile_def)
  ultimately show "distance name (snd (Reconcile A c)) \<le> distance name c"
    using distance_le4 [of name "snd (Reconcile A c)"] Reconcile_distance_open(1) [of c pb0 A] pb0 name pos
    by (cases ?fin; cases "getOk A \<and> helperOk A") auto
  assume A: "answering A" "current A" "documented A"
  then have "getOk A" "helperOk A" by (simp_all add: answering_def)
  then show "distance name (snd (Reconcile A c)) < distance name c"
    using Reconcile_distance_new [OF pb0(1, 2) _ pb0(3) A(1)] Reconcile_distance_open(2) [of c pb0 A] A pb0 name pos
    by (cases ?fin) auto
qed

lemma list_ex_update: "i < length xs \<Longrightarrow> P x = P (xs ! i) \<Longrightarrow> list_ex P (xs[i := x]) \<Longrightarrow> list_ex P xs"
  using set_update_subset_insert [of xs i x] by (auto simp: list_ex_iff)

lemma distance_pods:
  "cPlaybook c' = cPlaybook c \<Longrightarrow> (list_ex (podOf name) (cPods c') \<Longrightarrow> list_ex (podOf name) (cPods c)) \<Longrightarrow>
   0 < distance name c \<Longrightarrow> distance name c' \<le> distance name c"
  by (auto simp: distance_def split: option.splits PlaybookPhase.splits if_splits)

lemma distance_terminal:
  "cPlaybook c = Some pb \<Longrightarrow> terminal (PbObjPhase pb) \<or> PbDeleted pb \<Longrightarrow> distance name c = 0"
  by (auto simp: distance_def)

lemma calm_distance:
  assumes "calm G name uid c c'" "named name c" "0 < distance name c"
  shows "distance name c' \<le> distance name c"
  using assms(1)
proof cases
  case reconcile
  then show ?thesis using Reconcile_distance(1) [OF assms(2, 3)] by simp
next
  case podChanges
  then show ?thesis
    by (intro distance_pods [OF _ _ assms(3)]) (auto simp: podOf_def elim!: list_ex_update [rotated 2])
next
  case podKilled
  then show ?thesis
    by (intro distance_pods [OF _ _ assms(3)]) (auto simp: podOf_def elim!: list_ex_update [rotated 2])
next
  case podGone
  then show ?thesis
    by (intro distance_pods [OF _ _ assms(3)]) (auto simp: list_ex_iff dest: in_set_takeD in_set_dropD)
next
  case podOther
  then show ?thesis by (intro distance_pods [OF _ _ assms(3)]) (auto simp: foreign_def)
next
  case userDeletes
  then show ?thesis using distance_terminal [of c'] by (auto simp: distance_def)
qed

lemma step_distance:
  assumes "step G name uid c c'" "named name c" "0 < distance name c"
  shows "distance name c' \<le> distance name c"
  using assms(1)
proof cases
  case calmStep
  then show ?thesis using calm_distance assms(2, 3) by blast
qed (use distance_terminal [of c'] in simp_all)

text \<open>A run that is reconciled again and again without failures, whatever happens in between.\<close>

definition fair_run :: "(api \<Rightarrow> bool) \<Rightarrow> string \<Rightarrow> string \<Rightarrow> (nat \<Rightarrow> cluster) \<Rightarrow> bool" where
  "fair_run G name uid \<sigma> \<longleftrightarrow>
     (\<forall>i. step G name uid (\<sigma> i) (\<sigma> (Suc i))) \<and>
     (\<forall>i. \<exists>j\<ge>i. \<exists>A. answering A \<and> current A \<and> documented A \<and> \<sigma> (Suc j) = snd (Reconcile A (\<sigma> j)))"

lemma run_named: "fair_run G name uid \<sigma> \<Longrightarrow> named name (\<sigma> 0) \<Longrightarrow> named name (\<sigma> i)"
  by (induction i) (auto simp: fair_run_def dest: step_named)

lemma distance_until:
  assumes "fair_run G name uid \<sigma>" "named name (\<sigma> 0)" "i \<le> j" "\<forall>n. i \<le> n \<longrightarrow> n < j \<longrightarrow> 0 < distance name (\<sigma> n)"
  shows "distance name (\<sigma> j) \<le> distance name (\<sigma> i)"
  using assms(3, 4)
proof (induction j rule: dec_induct)
  case (step n)
  then have "0 < distance name (\<sigma> n)" by auto
  moreover have "step G name uid (\<sigma> n) (\<sigma> (Suc n))" using assms(1) by (simp add: fair_run_def)
  ultimately have "distance name (\<sigma> (Suc n)) \<le> distance name (\<sigma> n)"
    using step_distance run_named [OF assms(1, 2)] by blast
  with step show ?case by simp
qed simp

lemma distance_reaches_0:
  assumes "fair_run G name uid \<sigma>" "named name (\<sigma> 0)"
  shows "\<exists>n\<ge>i. distance name (\<sigma> n) = 0"
proof (induction "distance name (\<sigma> i)" arbitrary: i rule: less_induct)
  case less
  obtain j A where j: "i \<le> j" "answering A" "current A" "documented A" "\<sigma> (Suc j) = snd (Reconcile A (\<sigma> j))"
    using assms(1) unfolding fair_run_def by blast
  show ?case
  proof (cases "\<exists>n. i \<le> n \<and> n \<le> j \<and> distance name (\<sigma> n) = 0")
    case False
    then have "distance name (\<sigma> j) \<le> distance name (\<sigma> i)" "0 < distance name (\<sigma> j)"
      using distance_until [OF assms j(1)] j(1) by auto
    then have "distance name (\<sigma> (Suc j)) < distance name (\<sigma> i)"
      using Reconcile_distance(2) [OF run_named [OF assms] _ j(2, 3, 4), of j] j(5) by simp
    then obtain n where "Suc j \<le> n" "distance name (\<sigma> n) = 0" using less by blast
    then show ?thesis using j(1) by (meson Suc_leD le_trans)
  qed blast
qed

text \<open>
  Claim C6. Progress. A playbook that is reconciled again and again without failures comes to
  run: at some time its pod exists in phase Running, unless it has ended or has been deleted.
  Any failing or stale reconciliations, changes of pods and users may come in between.
\<close>

theorem playbook_gets_running:
  assumes "fair_run G name uid \<sigma>" "created name uid (\<sigma> 0)"
  shows "\<exists>n. case cPlaybook (\<sigma> n) of
            None \<Rightarrow> True
          | Some pb \<Rightarrow> PbDeleted pb \<or> terminal (PbObjPhase pb) \<or>
              (PbObjPhase pb = PlaybookPhaseRunning \<and> (\<exists>p\<in>set (cPods (\<sigma> n)). podOf name p))"
proof -
  have "named name (\<sigma> 0)" using assms(2) by (auto simp: created_def named_def)
  then obtain n where "distance name (\<sigma> n) = 0" using distance_reaches_0 assms(1) by blast
  then show ?thesis
    by (intro exI [of _ n])
       (auto simp: distance_def list_ex_iff split: option.splits PlaybookPhase.splits if_splits)
qed

lemma terminal_body:
  "reconcileBody A pb0 pods = (ret, pb, pods') \<Longrightarrow> terminal (PbObjPhase pb0) \<Longrightarrow> PbObjPhase pb = PbObjPhase pb0"
  by (auto simp: reconcileBody_def reconcileDelete_def reconcileNormal_def
      split: if_splits sum.splits prod.splits option.splits PlaybookPhase.splits)

lemma terminal_Reconcile:
  assumes "cPlaybook c = Some pb0" "terminal (PbObjPhase pb0)" "cPlaybook (snd (Reconcile A c)) = Some q"
  shows "PbObjPhase q = PbObjPhase pb0"
proof (cases rule: Reconcile_cases [of A c])
  case same
  with assms show ?thesis by simp
next
  case (run pb1 ret pb pods e pb')
  then have "PbObjPhase pb' = PbObjPhase pb0"
    using terminal_body [OF run(4)] reconcileStatus_keeps(6) [OF run(5)] assms(1, 2) by auto
  then show ?thesis using assms run(3, 6) by (auto simp: patchPlaybook_def Let_def split: if_splits)
qed

definition ended :: "PlaybookPhase \<Rightarrow> cluster \<Rightarrow> bool" where
  "ended ph c \<longleftrightarrow> (\<forall>pb. cPlaybook c = Some pb \<longrightarrow> PbObjPhase pb = ph)"

definition podCount :: "string \<Rightarrow> cluster \<Rightarrow> nat" where
  "podCount name c = length (filter (podOf name) (cPods c))"

lemma podCount_profile:
  "profile name uid (cPods c') = profile name uid (cPods c) \<Longrightarrow> podCount name c' = podCount name c"
proof -
  have "podCount name c = length (filter fst (profile name uid (cPods c)))" for c
    by (simp add: podCount_def profile_def filter_map comp_def)
  then show "profile name uid (cPods c') = profile name uid (cPods c) \<Longrightarrow> podCount name c' = podCount name c"
    by simp
qed

lemma podCount_gone: "podCount name (c\<lparr>cPods := take i (cPods c) @ drop (Suc i) (cPods c)\<rparr>) \<le> podCount name c"
proof -
  have "take i (cPods c) @ drop i (cPods c) = cPods c" by simp
  then have "podCount name c = length (filter (podOf name) (take i (cPods c))) +
      length (filter (podOf name) (drop i (cPods c)))"
    by (metis podCount_def filter_append length_append)
  moreover have "length (filter (podOf name) (drop (Suc i) (cPods c))) \<le>
      length (filter (podOf name) (drop i (cPods c)))"
    by (cases "drop i (cPods c)") (auto simp: drop_Suc drop_tl)
  ultimately show ?thesis by (simp add: podCount_def)
qed

text \<open>What a reconciliation does to the pods: it marks some as deleted, or creates one.\<close>

lemma reconcileBody_pods:
  assumes "reconcileBody A pb0 pods = (ret, pb, pods')"
  shows "profile name uid pods' = profile name uid pods \<or>
    PbObjPhase pb0 = PlaybookPhaseRunning \<and> \<not> PbDeleted pb0 \<and>
    (\<exists>pod. pods' = pods @ [pod]) \<and> (labelList A = ListNotFound \<or> filter (labelled pb0) (view A pods) = [])"
proof -
  consider (same) "pods' = pods" | (del) "reconcileDelete A pb0 pods = (ret, pb, pods')"
    | (normal) "reconcileNormal A pb0 pods = (ret, pb, pods')" "\<not> PbDeleted pb0"
    using assms by (auto simp: reconcileBody_def split: if_splits)
  then show ?thesis
  proof cases
    case del
    then show ?thesis using profile_deletePods
      by (auto simp: reconcileDelete_def split: sum.splits prod.splits option.splits if_splits) (metis snd_conv)+
  next
    case normal
    from reconcileNormal_effect [OF normal(1)] normal(2) show ?thesis
      by (cases "labelList A") (auto simp: dealRunningPlaybook_def split: if_splits option.splits)
  qed simp
qed

lemma Reconcile_podCount:
  shows "podCount name (snd (Reconcile A c)) \<le> Suc (podCount name c)"
    and "named name c \<Longrightarrow> current A \<Longrightarrow> podCount name (snd (Reconcile A c)) \<le> max 1 (podCount name c)"
    and "cPlaybook c = Some pb \<Longrightarrow> terminal (PbObjPhase pb) \<Longrightarrow>
      podCount name (snd (Reconcile A c)) = podCount name c"
    and "cPlaybook c = None \<Longrightarrow> podCount name (snd (Reconcile A c)) = podCount name c"
proof -
  have *: "podCount name (snd (Reconcile A c)) = podCount name c \<or>
      (\<exists>pb0 pod. cPlaybook c = Some pb0 \<and> PbObjPhase pb0 = PlaybookPhaseRunning \<and>
        cPods (snd (Reconcile A c)) = cPods c @ [pod] \<and>
        (labelList A = ListNotFound \<or> filter (labelled pb0) (view A (cPods c)) = []))"
  proof (cases rule: Reconcile_cases [of A c])
    case (run pb0 ret pb pods e pb')
    from reconcileBody_pods [OF run(4), of name "PbUID pb0"] show ?thesis
    proof
      assume "profile name (PbUID pb0) pods = profile name (PbUID pb0) (cPods c)"
      then show ?thesis using podCount_profile [of name _ "snd (Reconcile A c)" c] run(6) by simp
    qed (use run(3, 6) in auto)
  qed simp
  then show "podCount name (snd (Reconcile A c)) \<le> Suc (podCount name c)"
    by (auto simp: podCount_def)
  show "named name c \<Longrightarrow> current A \<Longrightarrow> podCount name (snd (Reconcile A c)) \<le> max 1 (podCount name c)"
    using * by (auto simp: podCount_def named_def current_def labelled_podOf)
  show "cPlaybook c = Some pb \<Longrightarrow> terminal (PbObjPhase pb) \<Longrightarrow>
      podCount name (snd (Reconcile A c)) = podCount name c"
    "cPlaybook c = None \<Longrightarrow> podCount name (snd (Reconcile A c)) = podCount name c"
    using * by auto
qed

text \<open>The steps that are not reconciliations create no pod of the playbook.\<close>

lemma calm_podCount:
  assumes "calm G name uid c c'"
  shows "podCount name c' \<le> podCount name c \<or> (\<exists>A. G A \<and> c' = snd (Reconcile A c))"
  using assms
proof cases
  case podGone
  then show ?thesis using podCount_gone by blast
next
  case (podChanges i)
  then show ?thesis
    using podCount_profile [of name uid c' c]
    by (simp add: profile_update podOf_def ownedPod_def)
next
  case (podKilled i)
  then show ?thesis
    using podCount_profile [of name uid c' c]
    by (simp add: profile_update podOf_def ownedPod_def)
qed (auto simp: podCount_def foreign_def)

lemma calm_ended:
  assumes "calm G name uid c c'" "terminal ph" "ended ph c"
  shows "ended ph c' \<and> podCount name c' \<le> podCount name c"
proof -
  have n: "podCount name (snd (Reconcile A c)) = podCount name c" for A
    using Reconcile_podCount(3, 4) assms(2, 3) by (cases "cPlaybook c") (auto simp: ended_def)
  have "ended ph c'"
  proof (cases "cPlaybook c")
    case None
    from assms(1) None show ?thesis by cases (simp_all add: ended_def Reconcile_def)
  next
    case (Some pb)
    then have ph: "PbObjPhase pb = ph" using assms(3) by (simp add: ended_def)
    from assms(1) show ?thesis
    proof cases
      case (reconcile A)
      then show ?thesis using terminal_Reconcile [OF Some] ph assms(2) by (auto simp: ended_def)
    qed (use Some ph assms(2) in \<open>simp_all add: ended_def\<close>)
  qed
  then show ?thesis using calm_podCount [OF assms(1)] n by auto
qed


text \<open>
  The lists of pods come from a cache that catches up eventually and without a bound. A run is
  counted by its stale reconciliations: those that were answered from a cache that may hold
  anything, or not to have the resource at all.
\<close>

inductive staleRun :: "string \<Rightarrow> string \<Rightarrow> cluster \<Rightarrow> nat \<Rightarrow> cluster \<Rightarrow> bool" for name uid c where
  start: "staleRun name uid c 0 c"
| fresh: "staleRun name uid c k d \<Longrightarrow> step (\<lambda>A. current A \<and> documented A) name uid d d' \<Longrightarrow>
     staleRun name uid c k d'"
| stale: "staleRun name uid c k d \<Longrightarrow> documented A \<Longrightarrow> staleRun name uid c (Suc k) (snd (Reconcile A d))"

lemma step_podCount:
  assumes "step (\<lambda>A. current A \<and> documented A) name uid c c'" "named name c"
  shows "podCount name c' \<le> max 1 (podCount name c)"
  using assms(1)
proof cases
  case calmStep
  then show ?thesis using calm_podCount Reconcile_podCount(2) [OF assms(2)] by fastforce
qed (simp_all add: podCount_def)

lemma staleRun_podCount:
  "staleRun name uid c k d \<Longrightarrow> created name uid c \<Longrightarrow> named name d \<and> podCount name d \<le> Suc k"
proof (induction rule: staleRun.induct)
  case start
  then show ?case
    by (auto simp: created_def named_def podCount_def foreign_def list_all_iff filter_empty_conv)
next
  case (fresh k d d')
  then have "named name d" "podCount name d \<le> Suc k" by simp_all
  moreover from this(1) have "podCount name d' \<le> max 1 (podCount name d)" "named name d'"
    using step_podCount [OF fresh(2)] step_named [OF fresh(2)] by simp_all
  ultimately show ?case by simp
next
  case (stale k d A)
  then show ?case using Reconcile_podCount(1) [of name A d] Reconcile_named by fastforce
qed

lemma staleRun_wf: "staleRun name uid c k d \<Longrightarrow> k = 0 \<Longrightarrow> created name uid c \<Longrightarrow> wf_cluster name uid d"
proof (induction rule: staleRun.induct)
  case start
  then show ?case by (simp add: wf_created)
next
  case (fresh k d d')
  then show ?case using step_wf by blast
qed simp

text \<open>
  Claim C5. The pods of a playbook. In every state that is reached from a created playbook there are
  at most as many of its pods beyond the first as reconciliations worked with a stale list of
  pods: an up-to-date reconciliation creates a pod only when there is none, a stale one at most one.
  As long as no reconciliation was stale there is at most one pod, and while there is one the
  playbook exists, is in a phase from Running on and holds its finalizer: it cannot be removed
  before its pod is gone.
\<close>

theorem pods_of_playbook:
  assumes "created name uid c" "staleRun name uid c k d"
  shows "length (filter (podOf name) (cPods d)) \<le> 1 + k \<and>
    (k = 0 \<longrightarrow> filter (podOf name) (cPods d) \<noteq> [] \<longrightarrow>
       (\<exists>pb. cPlaybook d = Some pb \<and> PlaybookCompletedFinalizer \<in> set (PbFinalizers pb) \<and>
          PbObjPhase pb \<in> {PlaybookPhaseRunning, PlaybookPhaseFailed, PlaybookPhaseSucceeded}))"
proof -
  have "length (filter (podOf name) (cPods d)) \<le> 1 + k"
    using staleRun_podCount [OF assms(2, 1)] by (simp add: podCount_def)
  moreover have "\<exists>pb. cPlaybook d = Some pb \<and> started pb"
    if "k = 0" "filter (podOf name) (cPods d) \<noteq> []"
    using staleRun_wf [OF assms(2) that(1) assms(1)] that(2)
    by (auto simp: wf_cluster_def split: option.splits)
  moreover have "PbObjPhase pb \<in> {PlaybookPhaseRunning, PlaybookPhaseFailed, PlaybookPhaseSucceeded}"
    if "started pb" for pb
    using that by (cases "PbObjPhase pb") (auto simp: started_def)
  ultimately show ?thesis by (auto simp: started_def)
qed

lemma only_pod:
  assumes "wf_cluster name uid c" "cPlaybook c = Some pb" "p \<in> set (cPods c)" "podOf name p"
  shows "filter (podOf name) (cPods c) = [p]" "PbName pb = name" "started pb"
    "filter (\<lambda>q. list_ex (ownedBy pb) (PodOwners q)) (cPods c) = [p]"
proof -
  have l: "length (filter (podOf name) (cPods c)) \<le> 1" "p \<in> set (filter (podOf name) (cPods c))"
    using assms by (auto simp: wf_cluster_def pods_ok_def)
  then show f: "filter (podOf name) (cPods c) = [p]"
    by (cases "filter (podOf name) (cPods c)") auto
  show "PbName pb = name" "started pb" using assms f by (auto simp: wf_cluster_def)
  have "filter (\<lambda>q. list_ex (ownedBy pb) (PodOwners q)) (cPods c) = filter (podOf name) (cPods c)"
    using assms(1, 2)
    by (intro filter_cong) (auto simp: wf_cluster_def pods_ok_def owned_ownedPod list_all_iff)
  then show "filter (\<lambda>q. list_ex (ownedBy pb) (PodOwners q)) (cPods c) = [p]" using f by simp
qed

text \<open>
  Claim C22. The end of the pod ends the playbook. In a well-formed state one reconciliation without
  failures records the end of the pod in the phase of the playbook, also when the playbook is being
  deleted; before the pod has ended the phase stays Running.
\<close>

theorem pod_end_recorded:
  assumes "wf_cluster name uid c" "cPlaybook c = Some pb" "\<not> terminal (PbObjPhase pb)"
    "p \<in> set (cPods c)" "podOf name p" "answering A" "current A"
  shows "\<exists>pb'. cPlaybook (snd (Reconcile A c)) = Some pb' \<and>
    PbObjPhase pb' = (case PPhase p of PodSucceeded \<Rightarrow> PlaybookPhaseSucceeded
                      | PodFailed \<Rightarrow> PlaybookPhaseFailed | _ \<Rightarrow> PlaybookPhaseRunning)"
proof -
  note pod = only_pod [OF assms(1, 2, 4, 5)]
  have run: "PbObjPhase pb = PlaybookPhaseRunning" "PlaybookCompletedFinalizer \<in> set (PbFinalizers pb)"
    using pod(3) assms(3) by (cases "PbObjPhase pb"; auto simp: started_def)+
  have A: "getOk A" "helperOk A" "deleteListOk A" "labelList A = ListOk" "statusListOk A"
      "metaPatchOk A" "statusPatchOk A" "\<And>ps. view A ps = ps"
    using assms(6, 7) by (simp_all add: answering_def current_def)
  have "reconcileBody A pb (cPods c) = (None, pb, cPods c)"
    using run A pod(1, 2, 4)
    by (simp add: reconcileBody_def reconcileDelete_def GetObjectListFromOwner_def reconcileNormal_def
        dealRunningPlaybook_def labelled_podOf)
  moreover obtain e pb' where s: "reconcileStatus A (recordFailure None pb) (cPods c) = (e, pb')"
    by (cases "reconcileStatus A (recordFailure None pb) (cPods c)")
  ultimately have R: "snd (Reconcile A c) = \<lparr>cPlaybook = snd (patchPlaybook A pb pb'), cPods = cPods c\<rparr>"
    using Reconcile_run A(1, 2) assms(2) by blast
  have "PbObjPhase pb' = (case PPhase p of PodSucceeded \<Rightarrow> PlaybookPhaseSucceeded
                      | PodFailed \<Rightarrow> PlaybookPhaseFailed | _ \<Rightarrow> PlaybookPhaseRunning)"
    using s run A(5, 8) pod(4)
    by (auto simp: reconcileStatus_def GetObjectListFromOwner_def recordFailure_def split: PodPhase.splits)
  moreover have "PbFinalizers pb' \<noteq> []" using reconcileStatus_keeps(4) [OF s] run(2) by auto
  ultimately show ?thesis using A(6, 7) by (simp add: R patchPlaybook_def)
qed

definition sample_api :: api where
  "sample_api =
     \<lparr>getOk = True, helperOk = True, view = (\<lambda>ps. ps), statusListOk = True, deleteListOk = True,
      labelList = ListOk, deleteOk = (\<lambda>_. True),
      setRef = (\<lambda>pb pod. Some (pod\<lparr>PodOwners := PodOwners pod @ [ownerRef pb]\<rparr>)),
      createOk = True, metaPatchOk = True, statusPatchOk = True,
      newName = (\<lambda>ps. ''site-abcde''), lookupEnv = (\<lambda>_. None)\<rparr>"

definition sample_playbook :: Playbook where
  "sample_playbook =
     \<lparr>PbName = ''site'', PbNamespace = ''default'', PbUID = ''u1'', PbDeleted = False, PbFinalizers = [],
      PbServiceAccountName = ''default'', PbObjPhase = PbPhaseNone, PbObjReason = NoReason,
      PbObjMessage = MsgText []\<rparr>"

definition sample_cluster :: cluster where
  "sample_cluster = \<lparr>cPlaybook = Some sample_playbook, cPods = []\<rparr>"

definition sample_run :: "nat \<Rightarrow> cluster" where
  "sample_run i = ((\<lambda>c. snd (Reconcile sample_api c)) ^^ i) sample_cluster"

lemma sample_api_ok: "answering sample_api" "current sample_api" "documented sample_api"
  by (simp_all add: sample_api_def answering_def current_def documented_def)

lemma sample_created: "created ''site'' ''u1'' sample_cluster"
  by (simp add: created_def sample_cluster_def sample_playbook_def)

lemma sample_run_step: "sample_run (Suc i) = snd (Reconcile sample_api (sample_run i))"
  by (simp add: sample_run_def)

theorem playbook_gets_running_witness:
  "\<exists>n. case cPlaybook (sample_run n) of
            None \<Rightarrow> True
          | Some pb \<Rightarrow> PbDeleted pb \<or> terminal (PbObjPhase pb) \<or>
              (PbObjPhase pb = PlaybookPhaseRunning \<and> (\<exists>p\<in>set (cPods (sample_run n)). podOf ''site'' p))"
proof (rule playbook_gets_running [of "\<lambda>A. A = sample_api" "''site''" "''u1''" sample_run])
  show "fair_run (\<lambda>A. A = sample_api) ''site'' ''u1'' sample_run"
    unfolding fair_run_def
  proof (intro conjI allI)
    fix i
    show "step (\<lambda>A. A = sample_api) ''site'' ''u1'' (sample_run i) (sample_run (Suc i))"
      unfolding sample_run_step by (rule step_reconcile) simp
    show "\<exists>j\<ge>i. \<exists>A. answering A \<and> current A \<and> documented A \<and>
        sample_run (Suc j) = snd (Reconcile A (sample_run j))"
      using sample_api_ok sample_run_step [of i] by (intro exI [of _ i]) auto
  qed
  show "created ''site'' ''u1'' (sample_run 0)" by (simp add: sample_run_def sample_created)
qed

text \<open>A reconciliation that finds an empty cache after the pod was created.\<close>

definition stale_api :: api where
  "stale_api = sample_api\<lparr>view := (\<lambda>_. [])\<rparr>"

lemma stale_api_documented: "documented stale_api"
  by (simp add: stale_api_def sample_api_def documented_def)

lemma sample_staleRun: "staleRun ''site'' ''u1'' sample_cluster 0 (sample_run i)"
proof (induction i)
  case 0
  show ?case by (simp add: sample_run_def staleRun.start)
next
  case (Suc i)
  then show ?case
    unfolding sample_run_step
    by (rule staleRun.fresh) (rule step_reconcile, simp add: sample_api_ok)
qed

theorem pods_of_playbook_witness:
  "length (filter (podOf ''site'') (cPods (snd (Reconcile stale_api (sample_run 4))))) \<le> 2 \<and>
   length (filter (podOf ''site'') (cPods (snd (Reconcile stale_api (sample_run 4))))) = 2 \<and>
   (\<exists>pb. cPlaybook (sample_run 4) = Some pb \<and> PlaybookCompletedFinalizer \<in> set (PbFinalizers pb))"
proof -
  have "filter (podOf ''site'') (cPods (sample_run 4)) \<noteq> []" by code_simp
  then have "\<exists>pb. cPlaybook (sample_run 4) = Some pb \<and> PlaybookCompletedFinalizer \<in> set (PbFinalizers pb)"
    using pods_of_playbook [OF sample_created sample_staleRun] by blast
  moreover have "length (filter (podOf ''site'') (cPods (snd (Reconcile stale_api (sample_run 4))))) \<le> 2"
    using pods_of_playbook [OF sample_created staleRun.stale [OF sample_staleRun stale_api_documented], of 4]
    by (simp add: numeral_2_eq_2)
  moreover have "length (filter (podOf ''site'') (cPods (snd (Reconcile stale_api (sample_run 4))))) = 2"
    by code_simp
  ultimately show ?thesis by blast
qed

definition sample_failed :: cluster where
  "sample_failed = (snd (Reconcile stale_api (sample_run 4)))
     \<lparr>cPlaybook := Some (the (cPlaybook (sample_run 4))\<lparr>PbObjPhase := PlaybookPhaseFailed,
        PbObjReason := PlaybookFailedReasonTaskFailed, PbObjMessage := MsgText ''task failed''\<rparr>)\<rparr>"


text \<open>
  A stale list leads to a second pod. The executor of one pod records the failure of the playbook,
  the executor of the other, which was started while the playbook was running, turns it into a
  success.
\<close>

lemma second_executor_revives:
  "step documented ''site'' ''u1'' (sample_run 4) (snd (Reconcile stale_api (sample_run 4)))"
  "step documented ''site'' ''u1'' (snd (Reconcile stale_api (sample_run 4))) sample_failed"
  "\<exists>c. step documented ''site'' ''u1'' sample_failed c \<and>
     map_option PbObjPhase (cPlaybook c) = Some PlaybookPhaseSucceeded"
proof -
  show "step documented ''site'' ''u1'' (sample_run 4) (snd (Reconcile stale_api (sample_run 4)))"
    by (rule step_reconcile) (rule stale_api_documented)
  let ?d = "snd (Reconcile stale_api (sample_run 4))"
  have d: "cPlaybook ?d = Some (the (cPlaybook (sample_run 4)))" "hd (cPods ?d) \<in> set (cPods ?d)"
    "podOf ''site'' (hd (cPods ?d))" by code_simp+
  show "step documented ''site'' ''u1'' ?d sample_failed"
    unfolding sample_failed_def by (rule step.executorFails [OF d])
  have f: "cPlaybook sample_failed = Some (the (cPlaybook sample_failed))"
    "last (cPods sample_failed) \<in> set (cPods sample_failed)"
    "podOf ''site'' (last (cPods sample_failed))" by code_simp+
  show "\<exists>c. step documented ''site'' ''u1'' sample_failed c \<and>
     map_option PbObjPhase (cPlaybook c) = Some PlaybookPhaseSucceeded"
    using step.executorSucceeds [OF f] by fastforce
qed

definition sample_ended :: cluster where
  "sample_ended = (sample_run 4)\<lparr>cPods := map (\<lambda>p. p\<lparr>PPhase := PodFailed\<rparr>) (cPods (sample_run 4))\<rparr>"

theorem pod_end_recorded_witness:
  "\<exists>pb'. cPlaybook (snd (Reconcile sample_api sample_ended)) = Some pb' \<and>
     PbObjPhase pb' = PlaybookPhaseFailed"
proof -
  have "wf_cluster ''site'' ''u1'' sample_ended" by code_simp
  moreover have "cPlaybook sample_ended = Some (the (cPlaybook sample_ended))" by code_simp
  moreover have "\<not> terminal (PbObjPhase (the (cPlaybook sample_ended)))" by code_simp
  moreover have "hd (cPods sample_ended) \<in> set (cPods sample_ended)" by code_simp
  moreover have "podOf ''site'' (hd (cPods sample_ended))" by code_simp
  moreover have "PPhase (hd (cPods sample_ended)) = PodFailed" by code_simp
  ultimately show ?thesis using pod_end_recorded [OF _ _ _ _ _ sample_api_ok(1, 2)] by fastforce
qed

text \<open>
  The failure reason of a reconciliation that was repeated with success stays in the status: the
  playbook below has succeeded and carries the reason \<^verbatim>\<open>unknown\<close>.
\<close>

lemma succeeded_with_failure_reason:
  "let c1 = snd (Reconcile (sample_api\<lparr>createOk := False\<rparr>) (sample_run 3));
       c2 = snd (Reconcile sample_api c1);
       c3 = c2\<lparr>cPods := map (\<lambda>p. p\<lparr>PPhase := PodSucceeded\<rparr>) (cPods c2)\<rparr>;
       c4 = snd (Reconcile sample_api c3)
   in map_option PbObjPhase (cPlaybook c4) = Some PlaybookPhaseSucceeded \<and>
      map_option PbObjReason (cPlaybook c4) = Some PlaybookFailedReasonUnknown"
  by code_simp

end
