(* ===== verification/Ip.thy ===== *)
theory Ip
  imports Template "HOL-Library.Word"
begin

unbundle bit_operations_syntax

text \<open>
  Address lists of \<^verbatim>\<open>pkg/utils/ip.go\<close>: a CIDR, a range or a single address becomes the list
  of its addresses. A \<^verbatim>\<open>byte\<close> is an \<open>8 word\<close>, a \<^verbatim>\<open>net.IP\<close> a list of bytes (\<open>None\<close> where
  the source has \<^verbatim>\<open>nil\<close>), a \<^verbatim>\<open>big.Int\<close> (never negative here) a \<open>nat\<close>. What the file uses of
  the standard packages \<^verbatim>\<open>net\<close>, \<^verbatim>\<open>net/netip\<close>, \<^verbatim>\<open>strconv\<close> and \<^verbatim>\<open>math/big\<close> is
  written out first: the text form of an address and its reader, prefix masks, and the bytes of
  a number. The network interfaces of the host are an argument of \<open>IsLocalhostIP\<close>.
\<close>

type_synonym byte = "8 word"
type_synonym IP = "byte list"

subsection \<open>Numbers as bytes\<close>

definition be_val :: "IP \<Rightarrow> nat" where
  "be_val bs = foldl (\<lambda>n b. 256 * n + unat b) 0 bs"

text \<open>\<^verbatim>\<open>big.Int.Bytes\<close>: the big-endian bytes of a number, without leading zeros.\<close>

fun Bytes :: "nat \<Rightarrow> IP" where
  "Bytes n = (if n = 0 then [] else Bytes (n div 256) @ [word_of_nat n])"

declare Bytes.simps [simp del]

subsection \<open>The text form of an address\<close>

definition v4InV6Prefix :: IP where
  "v4InV6Prefix = replicate 10 0 @ [0xff, 0xff]"

definition To4 :: "IP \<Rightarrow> IP option" where
  "To4 ip =
     (if length ip = 4 then Some ip
      else if length ip = 16 \<and> take 12 ip = v4InV6Prefix then Some (drop 12 ip)
      else None)"

definition To16 :: "IP \<Rightarrow> IP option" where
  "To16 ip =
     (if length ip = 4 then Some (v4InV6Prefix @ ip)
      else if length ip = 16 then Some ip
      else None)"

definition octet :: "string \<Rightarrow> nat option" where
  "octet s =
     (if s \<noteq> [] \<and> list_all is_digit s \<and> (length s = 1 \<or> hd s \<noteq> CHR ''0'') \<and> digits_val s \<le> 255
      then Some (digits_val s) else None)"

definition parseIPv4Fields :: "string \<Rightarrow> IP option" where
  "parseIPv4Fields s =
     (case map octet (Split (CHR ''.'') s) of
        [Some a, Some b, Some c, Some d] \<Rightarrow> Some (map word_of_nat [a, b, c, d])
      | _ \<Rightarrow> None)"

definition hex_val :: "char \<Rightarrow> nat option" where
  "hex_val c =
     (let v = (of_char c :: nat)
      in if 48 \<le> v \<and> v \<le> 57 then Some (v - 48)
         else if 97 \<le> v \<and> v \<le> 102 then Some (v - 87)
         else if 65 \<le> v \<and> v \<le> 70 then Some (v - 55)
         else None)"

definition is_hex :: "char \<Rightarrow> bool" where
  "is_hex c \<longleftrightarrow> hex_val c \<noteq> None"

definition hexs_val :: "string \<Rightarrow> nat" where
  "hexs_val s = foldl (\<lambda>n c. 16 * n + the (hex_val c)) 0 s"

text \<open>
  The loop of the reader of IPv6 texts. \<open>acc\<close> holds the bytes read so far, \<open>ell\<close> the position of
  the ellipsis; the result is the bytes read, the ellipsis and the unread rest of the text.
\<close>

function parseIPv6Loop :: "nat option \<Rightarrow> IP \<Rightarrow> string \<Rightarrow> (IP \<times> nat option \<times> string) option" where
  "parseIPv6Loop ell acc s =
     (if 16 \<le> length acc then Some (acc, ell, s)
      else
        (let ds = takeWhile is_hex s; r = dropWhile is_hex s
         in if ds = [] \<or> 4 < length ds then None
            else if r \<noteq> [] \<and> hd r = CHR ''.'' then
              (if (ell = None \<and> length acc \<noteq> 12) \<or> 16 < length acc + 4 then None
               else (case parseIPv4Fields s of
                       None \<Rightarrow> None
                     | Some f \<Rightarrow> Some (acc @ f, ell, [])))
            else
              (let acc' = acc @ [word_of_nat (hexs_val ds div 256), word_of_nat (hexs_val ds)]
               in if r = [] then Some (acc', ell, [])
                  else if hd r \<noteq> CHR '':'' \<or> length r = 1 then None
                  else
                    (let s' = tl r
                     in if hd s' = CHR '':'' then
                          (if ell \<noteq> None then None
                           else if tl s' = [] then Some (acc', Some (length acc'), [])
                           else parseIPv6Loop (Some (length acc')) acc' (tl s'))
                        else parseIPv6Loop ell acc' s'))))"
  by pat_completeness auto
termination
  by (relation "measure (\<lambda>(ell, acc, s). 16 - length acc)") auto

declare parseIPv6Loop.simps [simp del]

definition parseIPv6 :: "string \<Rightarrow> IP option" where
  "parseIPv6 t =
     (let lead = (take 2 t = ''::''); s = (if lead then drop 2 t else t)
      in if lead \<and> s = [] then Some (replicate 16 0)
         else (case parseIPv6Loop (if lead then Some 0 else None) [] s of
                 None \<Rightarrow> None
               | Some (acc, ell, r) \<Rightarrow>
                   (if r \<noteq> [] then None
                    else if length acc < 16 then
                      (case ell of
                         None \<Rightarrow> None
                       | Some e \<Rightarrow> Some (take e acc @ replicate (16 - length acc) 0 @ drop e acc))
                    else if ell \<noteq> None then None
                    else Some acc)))"

text \<open>
  \<^verbatim>\<open>netip.ParseAddr\<close> without a zone (both callers refuse one): an address of 4 or of 16
  bytes, decided by the first dot, colon or percent sign of the text.
\<close>

definition ParseAddr :: "string \<Rightarrow> IP option" where
  "ParseAddr s =
     (case dropWhile (\<lambda>c. c \<notin> {CHR ''.'', CHR '':'', CHR ''%''}) s of
        [] \<Rightarrow> None
      | c # _ \<Rightarrow> (if CHR ''%'' \<in> set s then None
                  else if c = CHR ''.'' then parseIPv4Fields s
                  else parseIPv6 s))"

definition net_ParseIP :: "string \<Rightarrow> IP option" where
  "net_ParseIP s = (case ParseAddr s of None \<Rightarrow> None | Some ip \<Rightarrow> To16 ip)"

definition hex_char :: "nat \<Rightarrow> char" where
  "hex_char d = (if d < 10 then char_of (48 + d) else char_of (87 + d))"

fun hex_nat :: "nat \<Rightarrow> string" where
  "hex_nat n = (if n < 16 then [hex_char n] else hex_nat (n div 16) @ [hex_char (n mod 16)])"

declare hex_nat.simps [simp del]

definition hexString :: "IP \<Rightarrow> string" where
  "hexString bs = concat (map (\<lambda>b. [hex_char (unat b div 16), hex_char (unat b mod 16)]) bs)"

fun groups :: "IP \<Rightarrow> nat list" where
  "groups (a # b # bs) = (256 * unat a + unat b) # groups bs"
| "groups bs = []"

definition zero_run :: "nat list \<Rightarrow> nat" where
  "zero_run gs = length (takeWhile (\<lambda>g. g = 0) gs)"

text \<open>The first longest run of at least two zero groups.\<close>

fun best_run :: "nat \<Rightarrow> nat list \<Rightarrow> (nat \<times> nat) option \<Rightarrow> (nat \<times> nat) option" where
  "best_run i [] best = best"
| "best_run i (g # gs) best =
     (let l = zero_run (g # gs)
      in best_run (Suc i) gs
           (if 2 \<le> l \<and> (case best of None \<Rightarrow> True | Some (s, m) \<Rightarrow> m < l) then Some (i, l) else best))"

definition IPv6String :: "IP \<Rightarrow> string" where
  "IPv6String ip =
     (let gs = groups ip; part = (\<lambda>xs. join (CHR '':'') (map hex_nat xs))
      in case best_run 0 gs None of
           None \<Rightarrow> part gs
         | Some (s, l) \<Rightarrow> part (take s gs) @ ''::'' @ part (drop (s + l) gs))"

definition IPv4String :: "IP \<Rightarrow> string" where
  "IPv4String ip = join (CHR ''.'') (map (\<lambda>b. itoa_nat (unat b)) ip)"

definition IPString :: "IP \<Rightarrow> string" where
  "IPString ip =
     (if ip = [] then ''<nil>''
      else if length ip \<noteq> 4 \<and> length ip \<noteq> 16 then CHR ''?'' # hexString ip
      else (case To4 ip of Some p4 \<Rightarrow> IPv4String p4 | None \<Rightarrow> IPv6String ip))"

subsection \<open>Masks and networks\<close>

fun cidr_bytes :: "nat \<Rightarrow> nat \<Rightarrow> IP" where
  "cidr_bytes 0 n = []"
| "cidr_bytes (Suc l) n =
     (if 8 \<le> n then 0xff # cidr_bytes l (n - 8)
      else NOT (drop_bit n 0xff) # cidr_bytes l 0)"

definition mask_bytes :: "IP \<Rightarrow> IP \<Rightarrow> IP" where
  "mask_bytes ip m = map2 (AND) ip m"

text \<open>\<^verbatim>\<open>IP.Mask\<close>, with the two conversions between the 4- and the 16-byte forms.\<close>

definition IPMaskWith :: "IP \<Rightarrow> IP \<Rightarrow> IP option" where
  "IPMaskWith ip0 m0 =
     (let m = (if length m0 = 16 \<and> length ip0 = 4 \<and> list_all (\<lambda>b. b = 0xff) (take 12 m0)
               then drop 12 m0 else m0);
          ip = (if length m = 4 \<and> length ip0 = 16 \<and> take 12 ip0 = v4InV6Prefix
                then drop 12 ip0 else ip0)
      in if length ip \<noteq> length m then None else Some (mask_bytes ip m))"

record IPNet =
  NetIP :: "IP option"
  NetMask :: "IP option"

definition prefix_len :: "nat \<Rightarrow> string \<Rightarrow> nat option" where
  "prefix_len bits s =
     (if s \<noteq> [] \<and> list_all is_digit s \<and> digits_val s < 0xFFFFFF \<and> digits_val s \<le> bits
      then Some (digits_val s) else None)"

definition net_ParseCIDR :: "string \<Rightarrow> IPNet option" where
  "net_ParseCIDR s =
     (if CHR ''/'' \<notin> set s then None
      else
        (case ParseAddr (takeWhile (\<lambda>c. c \<noteq> CHR ''/'') s) of
           None \<Rightarrow> None
         | Some a \<Rightarrow>
             (case prefix_len (8 * length a) (tl (dropWhile (\<lambda>c. c \<noteq> CHR ''/'') s)) of
                None \<Rightarrow> None
              | Some n \<Rightarrow>
                  (let m = cidr_bytes (length a) n
                   in Some \<lparr>NetIP = IPMaskWith (the (To16 a)) m, NetMask = Some m\<rparr>))))"

text \<open>\<^verbatim>\<open>IPMask.Size\<close>: the number of leading ones, 0 if a one follows a zero.\<close>

fun ones_count :: "nat \<Rightarrow> byte \<Rightarrow> nat \<times> byte" where
  "ones_count 0 v = (0, v)"
| "ones_count (Suc k) v =
     (if v AND 0x80 \<noteq> 0 then (case ones_count k (push_bit 1 v) of (n, v') \<Rightarrow> (Suc n, v')) else (0, v))"

fun simpleMaskLength :: "IP \<Rightarrow> nat option" where
  "simpleMaskLength [] = Some 0"
| "simpleMaskLength (v # vs) =
     (if v = 0xff then map_option (\<lambda>n. 8 + n) (simpleMaskLength vs)
      else (case ones_count 8 v of
              (n, v') \<Rightarrow> if v' \<noteq> 0 \<or> \<not> list_all (\<lambda>b. b = 0) vs then None else Some n))"

definition MaskOnes :: "IP \<Rightarrow> nat" where
  "MaskOnes m = (case simpleMaskLength m of None \<Rightarrow> 0 | Some n \<Rightarrow> n)"

subsection \<open>Address lists\<close>

definition ip4ToInt :: "IP \<Rightarrow> nat" where
  "ip4ToInt ip = (case To4 ip of None \<Rightarrow> 0 | Some p \<Rightarrow> be_val p)"

definition intToIP4 :: "nat \<Rightarrow> IP" where
  "intToIP4 n0 =
     (let maxIPv4 = 2 ^ 32 - 1;
          n = (if maxIPv4 < n0 then maxIPv4 else n0);
          b = Bytes n
      in if length b < 4 then replicate (4 - length b) 0 @ b
         else if 4 < length b then drop (length b - 4) b
         else b)"

definition ip6ToInt :: "IP \<Rightarrow> nat" where
  "ip6ToInt ip = (case To16 ip of None \<Rightarrow> 0 | Some p \<Rightarrow> be_val p)"

text \<open>
  The source pads with \<^verbatim>\<open>make([]byte, 0, 16-len(b))\<close>, a slice of length 0 (only its capacity
  is \<^verbatim>\<open>16-len(b)\<close>): nothing is put in front of the bytes.
\<close>

definition intToIP6 :: "nat \<Rightarrow> IP" where
  "intToIP6 n =
     (let b = Bytes n in if length b < 16 then (let pad = replicate 0 0 in pad @ b) else b)"

definition iPMaskStringToCIDR :: "string \<Rightarrow> string" where
  "iPMaskStringToCIDR netmask =
     (let parts = Split (CHR ''.'') netmask
      in if length parts \<noteq> 4 then ''0''
         else (let maskBytes = map (\<lambda>p. word_of_int (AtoiValue p)) parts
               in Itoa (int (MaskOnes maskBytes))))"

definition iPAddressToCIDR :: "string \<Rightarrow> string" where
  "iPAddressToCIDR ipAddress =
     (if Contains ipAddress ''/'' then
        (let parts = Split (CHR ''/'') ipAddress; ip = parts ! 0; m = parts ! 1;
             m' = (if Contains m ''.'' then iPMaskStringToCIDR m else m)
         in ip @ ''/'' @ m')
      else ipAddress)"

text \<open>
  The first and the last address of a network. A mask that is shorter than the address makes the
  source panic; the left summand is that panic, carried through to the exported function.
\<close>

definition networkRange :: "IPNet \<Rightarrow> string + (IP \<times> IP) option" where
  "networkRange network =
     (case (NetIP network, NetMask network) of
        (Some ip0, Some m) \<Rightarrow>
          (case (if length ip0 = 4 then To4 ip0 else if length ip0 = 16 then To16 ip0 else Some ip0) of
             None \<Rightarrow> Inr None
           | Some netIP \<Rightarrow>
               (let masked = (case IPMaskWith netIP m of None \<Rightarrow> [] | Some x \<Rightarrow> x);
                    startIP = take (length netIP) (masked @ replicate (length netIP) 0)
                in if length m < length startIP then Inl ''index out of range''
                   else Inr (Some (startIP, map2 (\<lambda>s x. s OR NOT x) startIP m))))
      | _ \<Rightarrow> Inr None)"

definition getAvailableIPRange :: "string \<Rightarrow> string \<Rightarrow> string list" where
  "getAvailableIPRange ipStart ipEnd =
     (case (net_ParseIP ipStart, net_ParseIP ipEnd) of
        (Some startIP, Some endIP) \<Rightarrow>
          (case (To4 startIP, To4 endIP) of
             (Some s, Some e) \<Rightarrow>
               map (\<lambda>n. IPString (intToIP4 n)) [ip4ToInt s ..< Suc (ip4ToInt e)]
           | _ \<Rightarrow>
               (case (To16 startIP, To16 endIP) of
                  (Some s, Some e) \<Rightarrow>
                    map (\<lambda>n. IPString (intToIP6 n)) [ip6ToInt s ..< Suc (ip6ToInt e)]
                | _ \<Rightarrow> []))
      | _ \<Rightarrow> [])"

definition getAvailableIP :: "string \<Rightarrow> string + string list" where
  "getAvailableIP ipAndMask =
     (case net_ParseCIDR (iPAddressToCIDR (TrimSpace ipAndMask)) of
        None \<Rightarrow> Inr []
      | Some ipnet \<Rightarrow>
          bind_res (networkRange ipnet) (\<lambda>range.
            Inr (case range of
                   None \<Rightarrow> []
                 | Some (firstIP, lastIP) \<Rightarrow>
                     (if To4 firstIP \<noteq> None then
                        map (\<lambda>n. IPString (intToIP4 n)) [ip4ToInt firstIP + 1 ..< ip4ToInt lastIP]
                      else if To16 firstIP \<noteq> None then
                        map (\<lambda>n. IPString (intToIP6 n)) [ip6ToInt firstIP ..< Suc (ip6ToInt lastIP)]
                      else []))))"

definition ParseIP :: "string \<Rightarrow> string + string list" where
  "ParseIP ip0 =
     (let ip = TrimRight (CHR ''/'') ip0
      in if Contains ip ''/'' then
           (if HasSuffix ip ''/32'' \<or> HasSuffix ip ''/128'' then Inr [Split (CHR ''/'') ip ! 0]
            else getAvailableIP ip)
         else if Contains ip ''-'' then
           (case SplitN 2 (CHR ''-'') ip of
              [a, b] \<Rightarrow> Inr (getAvailableIPRange a b)
            | _ \<Rightarrow> Inr [])
         else Inr [ip])"

subsection \<open>Addresses of the host\<close>

datatype Addr = IPNetAddr IP | IPAddrAddr IP | OtherAddr

definition IPEqual :: "IP \<Rightarrow> IP \<Rightarrow> bool" where
  "IPEqual ip x =
     (if length ip = length x then ip = x
      else if length ip = 4 \<and> length x = 16 then take 12 x = v4InV6Prefix \<and> ip = drop 12 x
      else if length ip = 16 \<and> length x = 4 then take 12 ip = v4InV6Prefix \<and> drop 12 ip = x
      else False)"

fun addrMatches :: "IP \<Rightarrow> Addr \<Rightarrow> bool" where
  "addrMatches target (IPNetAddr ip) = IPEqual ip target"
| "addrMatches target (IPAddrAddr ip) = IPEqual ip target"
| "addrMatches target OtherAddr = False"

text \<open>
  \<open>interfaces\<close> is what \<^verbatim>\<open>net.Interfaces\<close> answers (\<open>None\<close>: an error), each interface with
  what its \<^verbatim>\<open>Addrs\<close> answers.
\<close>

fun anyIface :: "IP \<Rightarrow> Addr list option list \<Rightarrow> bool" where
  "anyIface target [] = False"
| "anyIface target (None # ifaces) = anyIface target ifaces"
| "anyIface target (Some addrs # ifaces) =
     (if list_ex (addrMatches target) addrs then True else anyIface target ifaces)"

definition IsLocalhostIP :: "Addr list option list option \<Rightarrow> string \<Rightarrow> bool" where
  "IsLocalhostIP interfaces ipStr =
     (case net_ParseIP ipStr of
        None \<Rightarrow> False
      | Some targetIP \<Rightarrow> (case interfaces of None \<Rightarrow> False | Some ifaces \<Rightarrow> anyIface targetIP ifaces))"

subsection \<open>Reference readings\<close>

text \<open>The number a dotted text stands for, and the characters such a text may have.\<close>

definition ip4Number :: "string \<Rightarrow> nat option" where
  "ip4Number s = map_option be_val (parseIPv4Fields s)"

definition dotted :: "string \<Rightarrow> bool" where
  "dotted s \<longleftrightarrow> list_all (\<lambda>c. c = CHR ''.'' \<or> is_digit c) s"

subsection \<open>Bytes and numbers\<close>

lemma byte_bound: "unat (b :: byte) < 256"
  using unsigned_less [of b] by simp

lemma be_val_simps [simp]:
  "be_val [] = 0" "be_val (bs @ [b]) = 256 * be_val bs + unat b"
  by (simp_all add: be_val_def)

lemma be_val_append: "be_val (bs @ cs) = be_val bs * 256 ^ length cs + be_val cs"
proof (induction cs rule: rev_induct)
  case (snoc c cs)
  then show ?case by (simp del: append_assoc add: append_assoc [symmetric] algebra_simps)
qed simp

lemma be_val_Cons: "be_val (b # bs) = unat b * 256 ^ length bs + be_val bs"
  using be_val_append [of "[b]" bs] by (simp add: be_val_def)

lemma be_val_bound: "be_val bs < 256 ^ length bs"
proof (induction bs rule: rev_induct)
  case (snoc b bs)
  then show ?case using byte_bound [of b] by simp
qed simp

lemma be_val_zeros [simp]: "be_val (replicate k 0) = 0"
  by (induction k) (simp_all add: be_val_Cons)

lemma Bytes_0 [simp]: "Bytes 0 = []"
  by (simp add: Bytes.simps)

lemma Bytes_pos: "0 < n \<Longrightarrow> Bytes n = Bytes (n div 256) @ [word_of_nat n]"
  by (subst Bytes.simps) simp

lemma unat_byte [simp]: "unat (word_of_nat n :: byte) = n mod 256"
  by (simp add: unat_of_nat)

lemma be_val_Bytes [simp]: "be_val (Bytes n) = n"
proof (induction n rule: Bytes.induct)
  case (1 n)
  then show ?case by (cases "n = 0") (simp_all add: Bytes_pos)
qed

lemma length_Bytes: "length (Bytes n) \<le> k \<longleftrightarrow> n < 256 ^ k"
proof (induction n arbitrary: k rule: Bytes.induct)
  case (1 n)
  show ?case
  proof (cases "n = 0")
    case False
    show ?thesis
    proof (cases k)
      case 0
      with False show ?thesis by (simp add: Bytes_pos)
    next
      case (Suc j)
      with False 1 [of j] show ?thesis
        by (simp add: Bytes_pos less_mult_imp_div_less div_less_iff_less_mult mult.commute)
    qed
  qed simp
qed

lemma word_byte_val: "word_of_nat (256 * n + unat b) = (b :: byte)"
  by (rule unsigned_word_eqI [where 'a = nat]) (simp del: of_nat_add of_nat_mult add: byte_bound)

lemma Bytes_be_val: "Bytes (be_val bs) = dropWhile (\<lambda>b. b = 0) bs"
proof (induction bs rule: rev_induct)
  case (snoc b bs)
  note b = byte_bound [of b]
  show ?case
  proof (cases "256 * be_val bs + unat b = 0")
    case True
    then have "b = 0" "dropWhile (\<lambda>b. b = 0) bs = []" using snoc by (auto simp: unat_eq_0)
    then show ?thesis using True by (simp add: dropWhile_append)
  next
    case False
    have "Bytes (256 * be_val bs + unat b) = Bytes (be_val bs) @ [b]"
      using False b by (simp del: of_nat_add of_nat_mult add: Bytes_pos word_byte_val)
    moreover have "dropWhile (\<lambda>b. b = 0) (bs @ [b]) = dropWhile (\<lambda>b. b = 0) bs @ [b]"
    proof (cases "dropWhile (\<lambda>b. b = 0) bs = []")
      case True
      then have "be_val bs = 0" using snoc by (metis be_val_Bytes be_val_simps(1))
      with False have "b \<noteq> 0" by auto
      with True show ?thesis by (simp add: dropWhile_append)
    next
      case False
      then show ?thesis by (auto simp: dropWhile_append)
    qed
    ultimately show ?thesis by (simp add: snoc)
  qed
qed simp

lemma digit_unique:
  assumes "256 * a + b = 256 * c + (d :: nat)" "b < 256" "d < 256"
  shows "a = c" "b = d"
proof -
  have "(256 * a + b) div 256 = a" "(256 * c + d) div 256 = c" using assms(2, 3) by simp_all
  then show "a = c" using assms(1) by simp
  with assms(1) show "b = d" by simp
qed

lemma be_val_inj: "length bs = length cs \<Longrightarrow> be_val bs = be_val cs \<Longrightarrow> bs = cs"
proof (induction bs arbitrary: cs rule: rev_induct)
  case (snoc b bs)
  then obtain ds d where cs: "cs = ds @ [d]" by (cases cs rule: rev_exhaust) auto
  have "256 * be_val bs + unat b = 256 * be_val ds + unat d" using snoc.prems cs by simp
  then have "be_val bs = be_val ds" "unat b = unat d"
    using digit_unique byte_bound by blast+
  then have "b = d" by (simp add: unsigned_word_eqI [where 'a = nat])
  with snoc cs \<open>be_val bs = be_val ds\<close> show ?case by simp
qed simp

lemma length_intToIP4 [simp]: "length (intToIP4 n) = 4"
  by (simp add: intToIP4_def Let_def)

lemma be_val_intToIP4 [simp]: "be_val (intToIP4 n) = min n (2 ^ 32 - 1)"
proof -
  have "length (Bytes (min n (2 ^ 32 - 1))) \<le> 4" by (simp add: length_Bytes)
  then show ?thesis
    by (auto simp: intToIP4_def Let_def min_def be_val_append)
qed

lemma To4_len4 [simp]: "length ip = 4 \<Longrightarrow> To4 ip = Some ip"
  by (simp add: To4_def)

lemma ip4ToInt_len4 [simp]: "length ip = 4 \<Longrightarrow> ip4ToInt ip = be_val ip"
  by (simp add: ip4ToInt_def)

lemma ip4ToInt_intToIP4: "ip4ToInt (intToIP4 n) = min n (2 ^ 32 - 1)"
  by (simp add: ip4ToInt_def)

lemma intToIP4_ip4ToInt:
  assumes "length ip = 4"
  shows "intToIP4 (ip4ToInt ip) = ip"
proof (rule be_val_inj)
  have "be_val ip \<le> 2 ^ 32 - 1" using be_val_bound [of ip] assms by simp
  then show "be_val (intToIP4 (ip4ToInt ip)) = be_val ip" using assms by simp
qed (simp add: assms)

lemma intToIP6_Bytes: "intToIP6 n = Bytes n"
  by (simp add: intToIP6_def Let_def)

subsection \<open>Text form of IPv4 addresses\<close>

lemma octet_itoa: "n \<le> 255 \<Longrightarrow> octet (itoa_nat n) = Some n"
  using itoa_hd [of n] itoa_short [of n] by (cases "n = 0") (auto simp: octet_def itoa_simps)

lemma Split_join:
  "xs \<noteq> [] \<Longrightarrow> \<forall>x\<in>set xs. c \<notin> set x \<Longrightarrow> Split c (join c xs) = xs"
proof (induction xs)
  case (Cons x xs)
  then show ?case by (cases xs) (simp_all add: join_def Split_append)
qed simp

lemma nondigits [simp]:
  "\<not> is_digit (CHR ''.'')" "\<not> is_digit (CHR ''/'')" "\<not> is_digit (CHR ''-'')"
  "\<not> is_digit (CHR ''%'')" "\<not> is_digit (CHR '':'')"
  by (simp_all add: is_digit_def)

lemma octet_byte: "octet (itoa_nat (unat (b :: byte))) = Some (unat b)"
  using byte_bound [of b] by (simp add: octet_itoa)

lemma len4: "length ip = 4 \<longleftrightarrow> (\<exists>a b c d. ip = [a, b, c, d])"
  by (auto simp: length_Suc_conv numeral_eq_Suc)

lemma parse_IPv4String: "length ip = 4 \<Longrightarrow> parseIPv4Fields (IPv4String ip) = Some ip"
  by (auto simp: len4 parseIPv4Fields_def IPv4String_def Split_join itoa_notin octet_byte)

lemma set_Split: "set s \<subseteq> insert c (\<Union> (set ` set (Split c s)))"
  by (induction s) (auto split: list.splits, blast)

lemma octet_digits: "octet s = Some n \<Longrightarrow> list_all is_digit s \<and> s \<noteq> [] \<and> n \<le> 255"
  by (auto simp: octet_def split: if_splits)

lemma parseIPv4_shape:
  assumes "parseIPv4Fields s = Some ip"
  obtains a b c d p q r t where "Split (CHR ''.'') s = [p, q, r, t]"
    "octet p = Some a" "octet q = Some b" "octet r = Some c" "octet t = Some d"
    "ip = map word_of_nat [a, b, c, d]"
  using assms unfolding parseIPv4Fields_def
  by (auto split: list.splits option.splits simp: map_eq_Cons_conv)

lemma parseIPv4_len: "parseIPv4Fields s = Some ip \<Longrightarrow> length ip = 4"
  by (elim parseIPv4_shape) simp

lemma parseIPv4_chars:
  assumes "parseIPv4Fields s = Some ip" "c \<in> set s"
  shows "c = CHR ''.'' \<or> is_digit c"
  using assms set_Split [of s "CHR ''.''"]
  by (elim parseIPv4_shape) (auto dest!: octet_digits simp: list_all_iff)

lemma parseIPv4_dot: "parseIPv4Fields s = Some ip \<Longrightarrow> CHR ''.'' \<in> set s"
  by (rule ccontr, elim parseIPv4_shape) simp

lemma ParseAddr_IPv4:
  assumes "parseIPv4Fields s = Some ip"
  shows "ParseAddr s = Some ip"
proof -
  let ?P = "\<lambda>c. c \<notin> {CHR ''.'', CHR '':'', CHR ''%''}"
  have chars: "c \<in> set s \<Longrightarrow> c = CHR ''.'' \<or> is_digit c" for c
    using parseIPv4_chars [OF assms] .
  have no: "CHR ''%'' \<notin> set s" "CHR '':'' \<notin> set s" using chars by fastforce+
  have "dropWhile ?P s \<noteq> []" using parseIPv4_dot [OF assms] by (auto simp: dropWhile_eq_Nil_conv)
  then obtain c t where ct: "dropWhile ?P s = c # t" by (cases "dropWhile ?P s") auto
  then have "\<not> ?P c" "c \<in> set s" using hd_dropWhile [of ?P s] set_dropWhileD [of c ?P s] by auto
  then have "c = CHR ''.''" using no by auto
  then show ?thesis using ct no assms by (simp add: ParseAddr_def)
qed

lemma net_ParseIP_IPv4:
  "parseIPv4Fields s = Some ip \<Longrightarrow> net_ParseIP s = Some (v4InV6Prefix @ ip)"
  using parseIPv4_len [of s ip] by (simp add: net_ParseIP_def ParseAddr_IPv4 To16_def)

lemma To4_mapped [simp]: "length ip = 4 \<Longrightarrow> To4 (v4InV6Prefix @ ip) = Some ip"
  by (simp add: To4_def v4InV6Prefix_def)

lemma IPString_IPv4: "length ip = 4 \<Longrightarrow> IPString ip = IPv4String ip"
  by (auto simp: IPString_def)

lemma ip4Number_print: "n < 2 ^ 32 \<Longrightarrow> ip4Number (IPString (intToIP4 n)) = Some n"
  by (simp add: ip4Number_def IPString_IPv4 parse_IPv4String)

lemma numbers_print:
  "e \<le> 2 ^ 32 \<Longrightarrow> map ip4Number (map (\<lambda>n. IPString (intToIP4 n)) [s ..< e]) = map Some [s ..< e]"
  by (simp add: ip4Number_print)

subsection \<open>Prefix masks\<close>

lemma byte_ones: "(0xff :: byte) = - 1" "(- 256 :: byte) = 0"
  by simp_all

lemma byte_full: "(b :: byte) AND 0xff = b" "(b :: byte) OR - 256 = b"
  unfolding byte_ones by simp_all

lemma byte_mask: "drop_bit n (0xff :: byte) = mask (8 - n)"
  unfolding byte_ones by (auto intro!: bit_eqI simp: bit_simps)

lemma unat_high: "unat ((b :: byte) AND NOT (mask k)) = unat b div 2 ^ k * 2 ^ k"
proof -
  have "unat (b AND NOT (mask k)) = push_bit k (drop_bit k (unat b))"
    by (rule bit_eqI) (auto simp: bit_simps dest: bit_imp_possible_bit)
  then show ?thesis by (simp add: push_bit_eq_mult drop_bit_eq_div)
qed

lemma unat_high_ones:
  assumes "k \<le> 8"
  shows "unat (((b :: byte) AND NOT (mask k)) OR mask k) = unat b div 2 ^ k * 2 ^ k + (2 ^ k - 1)"
proof -
  have "unat ((b AND NOT (mask k)) OR mask k) = push_bit k (drop_bit k (unat b)) OR mask k"
    using assms by (intro bit_eqI) (auto simp: bit_simps dest: bit_imp_possible_bit)
  also have "\<dots> = push_bit k (drop_bit k (unat b)) + mask k"
    by (rule disjunctive_add_eq_or [symmetric], rule bit_eqI) (auto simp: bit_simps)
  finally show ?thesis by (simp add: push_bit_eq_mult drop_bit_eq_div mask_eq_exp_minus_1)
qed

lemma length_cidr_bytes [simp]: "length (cidr_bytes l n) = l"
  by (induction l n rule: cidr_bytes.induct) auto

lemma mask_zeros: "length ip = l \<Longrightarrow> mask_bytes ip (cidr_bytes l 0) = replicate l 0"
proof (induction ip arbitrary: l)
  case (Cons b ip)
  then show ?case by (cases l) (auto simp: mask_bytes_def byte_ones(2))
qed (simp add: mask_bytes_def)

lemma end_zeros:
  "map2 (\<lambda>s x. s OR NOT x) (replicate l 0) (cidr_bytes l 0) = replicate l (0xff :: byte)"
  by (induction l) simp_all

lemma be_val_ones: "be_val (replicate l 0xff) = 256 ^ l - 1"
  by (induction l) (simp_all add: be_val_Cons)


lemma floor_low: "k \<le> 8 * l \<Longrightarrow> (a * 256 ^ l + r) div 2 ^ k * 2 ^ k = a * 256 ^ l + r div 2 ^ k * (2 ^ k :: nat)"
proof -
  assume "k \<le> 8 * l"
  then have "(256 :: nat) ^ l = 2 ^ k * 2 ^ (8 * l - k)"
    by (simp add: power_mult flip: power_add)
  then have a: "a * 256 ^ l = (a * 2 ^ (8 * l - k)) * 2 ^ k" by simp
  have "(m * 2 ^ k + r) div 2 ^ k * 2 ^ k = m * 2 ^ k + r div 2 ^ k * (2 ^ k :: nat)" for m
    by (simp add: add_mult_distrib)
  then show ?thesis unfolding a .
qed

lemma floor_high:
  assumes "r < 256 ^ l"
  shows "(a * 256 ^ l + r) div 2 ^ (8 * l + j) * 2 ^ (8 * l + j) = (a div 2 ^ j * 2 ^ j) * (256 :: nat) ^ l"
proof -
  have p: "(2 :: nat) ^ (8 * l + j) = 256 ^ l * 2 ^ j"
    by (simp add: power_add power_mult)
  have "(a * 256 ^ l + r) div 256 ^ l = a" using assms by simp
  then show ?thesis by (simp add: p div_mult2_eq)
qed

lemma ones_shift:
  "(x + (2 ^ j - 1)) * 256 ^ l + (256 ^ l - 1) = x * 256 ^ l + (2 ^ (8 * l + j) - 1 :: nat)"
proof -
  have p: "(2 :: nat) ^ (8 * l + j) = 2 ^ j * 256 ^ l" by (simp add: power_add power_mult)
  have "(2 ^ j - 1) * 256 ^ l + (256 ^ l - 1) = 2 ^ j * 256 ^ l - (1 :: nat)"
    by (simp add: diff_mult_distrib)
  then show ?thesis by (simp only: p add_mult_distrib add.assoc)
qed

lemma mask_val:
  "n \<le> 8 * length ip \<Longrightarrow>
   be_val (mask_bytes ip (cidr_bytes (length ip) n)) =
     be_val ip div 2 ^ (8 * length ip - n) * 2 ^ (8 * length ip - n)"
proof (induction ip arbitrary: n)
  case (Cons b ip)
  show ?case
  proof (cases "8 \<le> n")
    case True
    have "8 + 8 * length ip - n = 8 * length ip - (n - 8)" using True by simp
    then show ?thesis
      using True Cons.IH [of "n - 8"] Cons.prems
      by (simp add: mask_bytes_def be_val_Cons floor_low byte_full)
  next
    case False
    then have k: "8 * length (b # ip) - n = 8 * length ip + (8 - n)" by simp
    have "mask_bytes (b # ip) (cidr_bytes (length (b # ip)) n) =
        (b AND NOT (mask (8 - n))) # replicate (length ip) 0"
      using False mask_zeros [of ip] by (simp add: mask_bytes_def byte_mask)
    then show ?thesis
      unfolding k by (simp add: be_val_Cons unat_high floor_high be_val_bound)
  qed
qed (simp add: mask_bytes_def)

lemma end_val:
  "n \<le> 8 * length ip \<Longrightarrow>
   be_val (map2 (\<lambda>s x. s OR NOT x) (mask_bytes ip (cidr_bytes (length ip) n)) (cidr_bytes (length ip) n)) =
     be_val ip div 2 ^ (8 * length ip - n) * 2 ^ (8 * length ip - n) + (2 ^ (8 * length ip - n) - 1)"
proof (induction ip arbitrary: n)
  case (Cons b ip)
  show ?case
  proof (cases "8 \<le> n")
    case True
    have "8 + 8 * length ip - n = 8 * length ip - (n - 8)" using True by simp
    then show ?thesis
      using True Cons.IH [of "n - 8"] Cons.prems
      by (simp add: mask_bytes_def be_val_Cons floor_low byte_full add.assoc Nat.add_diff_assoc)
  next
    case False
    then have k: "8 * length (b # ip) - n = 8 * length ip + (8 - n)" by simp
    have "map2 (\<lambda>s x. s OR NOT x) (mask_bytes (b # ip) (cidr_bytes (length (b # ip)) n)) (cidr_bytes (length (b # ip)) n) =
        ((b AND NOT (mask (8 - n))) OR mask (8 - n)) # replicate (length ip) 0xff"
      using False mask_zeros [of ip] end_zeros [of "length ip"] by (simp add: mask_bytes_def byte_mask)
    then show ?thesis
      unfolding k
      by (simp only: be_val_Cons unat_high_ones [OF diff_le_self] floor_high [OF be_val_bound]
          be_val_ones length_replicate ones_shift)
  qed
qed (simp add: mask_bytes_def)

subsection \<open>Address lists\<close>

lemma Contains_char [simp]: "Contains s [c] \<longleftrightarrow> c \<in> set s"
  by (induction s) auto

lemma TrimRight_tail: "d \<noteq> [] \<Longrightarrow> c \<notin> set d \<Longrightarrow> TrimRight c (a @ x # d) = a @ x # d"
  by (cases d rule: rev_cases) (auto simp: TrimRight_def)

lemma TrimSpace_none: "\<forall>c\<in>set s. \<not> is_space c \<Longrightarrow> TrimSpace s = s"
proof -
  assume s: "\<forall>c\<in>set s. \<not> is_space c"
  have "dropWhile is_space t = t" if "set t = set s" for t
    using s that by (cases t) auto
  then show ?thesis by (simp add: TrimSpace_def)
qed

lemma HasSuffix_sep:
  assumes "c \<notin> set d" "c \<notin> set q"
  shows "HasSuffix (a @ c # d) (c # q) \<longleftrightarrow> d = q"
proof
  assume "HasSuffix (a @ c # d) (c # q)"
  then obtain u where "a @ c # d = u @ c # q"
    unfolding HasSuffix_def by (metis append_take_drop_id)
  then have "takeWhile (\<lambda>x. x \<noteq> c) (rev (a @ c # d)) = takeWhile (\<lambda>x. x \<noteq> c) (rev (u @ c # q))" by simp
  moreover have "takeWhile (\<lambda>x. x \<noteq> c) (rev (y @ c # z)) = rev z" if "c \<notin> set z" for y z
    using that by (auto simp: takeWhile_append)
  ultimately show "d = q" using assms by simp
qed (simp add: HasSuffix_def)

lemma dotted_chars: "c \<in> set (IPv4String ip) \<Longrightarrow> c = CHR ''.'' \<or> is_digit c"
  using itoa_notin [of c] by (cases ip) (auto simp: IPv4String_def join_def split: if_splits)

lemma AtoiValue_itoa: "n < 2 ^ 63 \<Longrightarrow> AtoiValue (itoa_nat n) = int n"
  using Atoi_digits [of "itoa_nat n"] by (simp add: AtoiValue_def itoa_simps)

lemma ones_count_numeral:
  "ones_count (numeral k) v =
     (if v AND 0x80 \<noteq> 0
      then (case ones_count (pred_numeral k) (push_bit 1 v) of (n, v') \<Rightarrow> (Suc n, v')) else (0, v))"
  by (simp add: numeral_eq_Suc)

lemma prefix_byte:
  assumes "n < 8"
  shows "ones_count 8 (NOT (drop_bit n 0xff)) = (n, 0)" "NOT (drop_bit n 0xff) \<noteq> (0xff :: byte)"
proof -
  have "n = 0 \<or> n = 1 \<or> n = 2 \<or> n = 3 \<or> n = 4 \<or> n = 5 \<or> n = 6 \<or> n = 7" using assms by linarith
  then show "ones_count 8 (NOT (drop_bit n 0xff)) = (n, 0)" "NOT (drop_bit n 0xff) \<noteq> (0xff :: byte)"
    by (elim disjE; simp add: ones_count_numeral)+
qed

lemma cidr_bytes_0: "list_all (\<lambda>b. b = 0) (cidr_bytes l 0)"
  by (induction l) (simp_all add: byte_ones(2))

lemma simpleMaskLength_cidr: "n \<le> 8 * l \<Longrightarrow> simpleMaskLength (cidr_bytes l n) = Some n"
  by (induction l n rule: cidr_bytes.induct)
     (auto simp: prefix_byte cidr_bytes_0)

lemma mask_notation: "n \<le> 32 \<Longrightarrow> iPMaskStringToCIDR (IPv4String (cidr_bytes 4 n)) = itoa_nat n"
proof -
  assume n: "n \<le> 32"
  obtain a b c d where m: "cidr_bytes 4 n = [a, b, c, d]" using len4 [of "cidr_bytes 4 n"] by auto
  have w: "word_of_int (AtoiValue (itoa_nat (unat x))) = (x :: byte)" for x
    using byte_bound [of x] by (simp add: AtoiValue_itoa)
  have "MaskOnes [a, b, c, d] = n"
    using simpleMaskLength_cidr [of n 4] n m by (simp add: MaskOnes_def)
  then show ?thesis
    using w by (simp add: iPMaskStringToCIDR_def m IPv4String_def Split_join itoa_notin Itoa_def)
qed

lemma dotted_itoa [simp]: "dotted (itoa_nat n)"
  using itoa_simps(1) [of n] by (simp add: dotted_def list_all_iff)

lemma dotted_IPv4String [simp]: "dotted (IPv4String ip)"
  using dotted_chars by (auto simp: dotted_def list_all_iff)

lemma dotted_parse: "parseIPv4Fields s = Some ip \<Longrightarrow> dotted s"
  using parseIPv4_chars by (auto simp: dotted_def list_all_iff)

lemma digit_not_space: "is_digit c \<Longrightarrow> \<not> is_space c"
  by (auto simp: is_digit_def is_space_def)

lemma dotted_clean:
  assumes "dotted s"
  shows "CHR ''/'' \<notin> set s" "CHR ''-'' \<notin> set s" "\<forall>c\<in>set s. \<not> is_space c"
proof -
  have c: "c \<in> set s \<Longrightarrow> c = CHR ''.'' \<or> is_digit c" for c
    using assms by (auto simp: dotted_def list_all_iff)
  show "CHR ''/'' \<notin> set s" "CHR ''-'' \<notin> set s"
    using c [of "CHR ''/''"] c [of "CHR ''-''"] by auto
  have "\<not> is_space (CHR ''.'')" by (simp add: is_space_def)
  then show "\<forall>c\<in>set s. \<not> is_space c" using c digit_not_space by metis
qed

lemma ip4Number_parse: "ip4Number s = Some a \<longleftrightarrow> (\<exists>ip. parseIPv4Fields s = Some ip \<and> a = be_val ip)"
  by (auto simp: ip4Number_def)

lemma iPAddressToCIDR_parts:
  assumes "CHR ''/'' \<notin> set ip" "CHR ''/'' \<notin> set m"
  shows "iPAddressToCIDR (ip @ CHR ''/'' # m) =
     ip @ CHR ''/'' # (if CHR ''.'' \<in> set m then iPMaskStringToCIDR m else m)"
  using assms by (simp add: iPAddressToCIDR_def Split_append Let_def)

lemma net_ParseCIDR_IPv4:
  assumes a: "parseIPv4Fields s = Some a" and n: "n \<le> 32"
  shows "net_ParseCIDR (s @ CHR ''/'' # itoa_nat n) =
     Some \<lparr>NetIP = Some (mask_bytes a (cidr_bytes 4 n)), NetMask = Some (cidr_bytes 4 n)\<rparr>"
proof -
  have s: "takeWhile (\<lambda>c. c \<noteq> CHR ''/'') (s @ CHR ''/'' # itoa_nat n) = s"
    "dropWhile (\<lambda>c. c \<noteq> CHR ''/'') (s @ CHR ''/'' # itoa_nat n) = CHR ''/'' # itoa_nat n"
    using dotted_clean(1) [OF dotted_parse [OF a]] by (auto simp: takeWhile_append dropWhile_append)
  have l: "length a = 4" using parseIPv4_len [OF a] .
  have "prefix_len 32 (itoa_nat n) = Some n" using n by (simp add: prefix_len_def itoa_simps)
  moreover have "IPMaskWith (v4InV6Prefix @ a) (cidr_bytes 4 n) = Some (mask_bytes a (cidr_bytes 4 n))"
    using l by (simp add: IPMaskWith_def v4InV6Prefix_def)
  ultimately show ?thesis
    using l by (simp add: net_ParseCIDR_def s ParseAddr_IPv4 [OF a] To16_def Let_def)
qed

lemma mask_bytes_idem: "mask_bytes (mask_bytes ip m) m = mask_bytes ip m"
  by (induction ip m rule: list_induct2') (simp_all add: mask_bytes_def and.assoc)

lemma length_mask_bytes [simp]: "length (mask_bytes ip m) = min (length ip) (length m)"
  by (simp add: mask_bytes_def)

lemma networkRange_IPv4:
  assumes "length a = 4"
  shows "networkRange \<lparr>NetIP = Some (mask_bytes a (cidr_bytes 4 n)), NetMask = Some (cidr_bytes 4 n)\<rparr> =
     Inr (Some (mask_bytes a (cidr_bytes 4 n),
       map2 (\<lambda>s x. s OR NOT x) (mask_bytes a (cidr_bytes 4 n)) (cidr_bytes 4 n)))"
  using assms by (simp add: networkRange_def IPMaskWith_def mask_bytes_idem Let_def)

lemma getAvailableIP_IPv4:
  assumes a: "parseIPv4Fields s = Some a" and n: "n \<le> 32"
    and m: "m = itoa_nat n \<or> m = IPv4String (cidr_bytes 4 n)"
    and k: "k = 2 ^ (32 - n)" and net: "net = be_val a div k * k"
  shows "getAvailableIP (s @ CHR ''/'' # m) =
     Inr (map (\<lambda>n. IPString (intToIP4 n)) [net + 1 ..< net + k - 1])"
proof -
  have l: "length a = 4" using parseIPv4_len [OF a] .
  have d: "dotted s" "dotted m" using dotted_parse [OF a] m by auto
  have "TrimSpace (s @ CHR ''/'' # m) = s @ CHR ''/'' # m"
    using dotted_clean(3) [OF d(1)] dotted_clean(3) [OF d(2)]
    by (intro TrimSpace_none) (auto simp: is_space_def)
  note t = this and slash = dotted_clean(1) [OF d(1)] dotted_clean(1) [OF d(2)]
  have "CHR ''.'' \<in> set (IPv4String (cidr_bytes 4 n))"
    by (rule parseIPv4_dot [OF parse_IPv4String]) simp
  then have c: "iPAddressToCIDR (s @ CHR ''/'' # m) = s @ CHR ''/'' # itoa_nat n"
    using m slash n itoa_notin [of "CHR ''.''" n] by (auto simp: iPAddressToCIDR_parts mask_notation)
  have p: "1 \<le> k" using k by simp
  show ?thesis
    using l n p mask_val [of n a] end_val [of n a]
    by (simp add: getAvailableIP_def t c net_ParseCIDR_IPv4 [OF a n] networkRange_IPv4 [OF l] k net)
qed

lemmas ip4Number_eval =
  ip4Number_def parseIPv4Fields_def octet_def is_digit_def digits_val_def digit_val_def be_val_def

text \<open>
  The range \<open>s-e\<close> of two IPv4 addresses is the list of all addresses from the first
  to the second, both included, in order (none when the first is the larger).
\<close>

theorem ParseIP_range:
  assumes "ip4Number s = Some a" "ip4Number e = Some b"
  shows "\<exists>xs. ParseIP (s @ ''-'' @ e) = Inr xs \<and> map ip4Number xs = map Some [a ..< Suc b]"
proof -
  obtain x y where x: "parseIPv4Fields s = Some x" "a = be_val x"
    and y: "parseIPv4Fields e = Some y" "b = be_val y"
    using assms by (auto simp: ip4Number_parse)
  have l: "length x = 4" "length y = 4" using x y parseIPv4_len by auto
  note no = dotted_clean(1, 2) [OF dotted_parse [OF x(1)]] dotted_clean(1, 2) [OF dotted_parse [OF y(1)]]
  have "e \<noteq> []" using parseIPv4_dot [OF y(1)] by auto
  then have "TrimRight (CHR ''/'') (s @ CHR ''-'' # e) = s @ CHR ''-'' # e"
    using no by (intro TrimRight_tail)
  moreover have "SplitN 2 (CHR ''-'') (s @ CHR ''-'' # e) = [s, e]"
    using no by (auto simp: numeral_eq_Suc takeWhile_append dropWhile_append)
  ultimately have "ParseIP (s @ ''-'' @ e) =
      Inr (map (\<lambda>n. IPString (intToIP4 n)) [a ..< Suc b])"
    using no l x y by (simp add: ParseIP_def getAvailableIPRange_def net_ParseIP_IPv4 del: upt_Suc)
  moreover have "Suc b \<le> 2 ^ 32" using be_val_bound [of y] l y by simp
  ultimately show ?thesis using numbers_print by blast
qed

theorem ParseIP_range_witness:
  "\<exists>xs. ParseIP (''10.0.0.254'' @ ''-'' @ ''10.0.1.1'') = Inr xs \<and>
     map ip4Number xs = map Some [167772414 ..< Suc 167772417]"
  by (rule ParseIP_range; simp add: ip4Number_eval)

text \<open>
  Claim C7. An IPv4 network, written with a prefix length or with the netmask of that length, is the
  list of its addresses in order, without the first (network) and the last (broadcast) one: with
  \<open>n\<close> prefix bits, \<open>2 ^ (32 - n) - 2\<close> of them, none for \<open>n \<ge> 31\<close>. The prefix \<^verbatim>\<open>/32\<close> alone stands for
  the address itself; the netmask \<^verbatim>\<open>255.255.255.255\<close> does not.
\<close>

theorem ParseIP_network:
  assumes "ip4Number s = Some a" "n \<le> 32" "m = itoa_nat n \<or> m = IPv4String (cidr_bytes 4 n)"
  shows "\<exists>xs. ParseIP (s @ ''/'' @ m) = Inr xs \<and>
     (if m = ''32'' then xs = [s]
      else map ip4Number xs =
        map Some [a div 2 ^ (32 - n) * 2 ^ (32 - n) + 1 ..< a div 2 ^ (32 - n) * 2 ^ (32 - n) + 2 ^ (32 - n) - 1])"
proof -
  obtain x where x: "parseIPv4Fields s = Some x" "a = be_val x"
    using assms by (auto simp: ip4Number_parse)
  have d: "dotted s" "dotted m" using dotted_parse [OF x(1)] assms(3) by auto
  note slash = dotted_clean(1) [OF d(1)] dotted_clean(1) [OF d(2)]
  have dot: "CHR ''.'' \<in> set (IPv4String (cidr_bytes 4 n))"
    by (rule parseIPv4_dot [OF parse_IPv4String]) simp
  then have "m \<noteq> []" using assms(3) itoa_simps(2) [of n] by auto
  then have t: "TrimRight (CHR ''/'') (s @ CHR ''/'' # m) = s @ CHR ''/'' # m"
    using slash by (intro TrimRight_tail)
  have "digits_val ''128'' = 128" "CHR ''.'' \<notin> set ''128''" by (simp_all add: digits_val_def digit_val_def)
  then have "m \<noteq> ''128''" using assms(2, 3) itoa_simps(3) [of n] dot by fastforce
  then have P: "ParseIP (s @ ''/'' @ m) =
      (if m = ''32'' then Inr [s] else getAvailableIP (s @ CHR ''/'' # m))"
    using slash HasSuffix_sep [of "CHR ''/''" m "''32''" s] HasSuffix_sep [of "CHR ''/''" m "''128''" s]
    by (simp add: ParseIP_def t Split_append)
  show ?thesis
  proof (cases "m = ''32''")
    case False
    have "be_val x div 2 ^ (32 - n) * 2 ^ (32 - n) + 2 ^ (32 - n) - 1 \<le> 2 ^ 32"
      using end_val [of n x] parseIPv4_len [OF x(1)] assms(2)
        be_val_bound [of "map2 (\<lambda>s x. s OR NOT x) (mask_bytes x (cidr_bytes 4 n)) (cidr_bytes 4 n)"]
      by simp
    then show ?thesis
      using False P getAvailableIP_IPv4 [OF x(1) assms(2, 3) refl refl] x(2) numbers_print by auto
  qed (use P in simp)
qed


theorem ParseIP_network_witness:
  "\<exists>xs. ParseIP (''10.0.0.9'' @ ''/'' @ ''255.255.255.248'') = Inr xs \<and>
     map ip4Number xs = map Some [167772169 ..< 167772175]"
proof -
  have m: "''255.255.255.248'' = IPv4String (cidr_bytes 4 29)" by code_simp
  have "ip4Number ''10.0.0.9'' = Some 167772169" by (simp add: ip4Number_eval)
  from ParseIP_network [OF this _ disjI2 [OF m]] show ?thesis by simp
qed

text \<open>
  Addresses and numbers. The IPv4 conversions are inverse to each other within the
  \<^verbatim>\<open>uint32\<close> range, and larger numbers are clamped to the last address. The IPv6 conversion back
  from a number drops the leading zero bytes: it gives an address only for numbers of the full
  16 bytes.
\<close>

theorem address_numbers:
  assumes "length ip = 4" "length ip6 = 16"
  shows "length (intToIP4 n) = 4 \<and> ip4ToInt (intToIP4 n) = min n (2 ^ 32 - 1) \<and>
     ip4ToInt ip < 2 ^ 32 \<and> intToIP4 (ip4ToInt ip) = ip \<and>
     ip6ToInt ip6 < 2 ^ 128 \<and> intToIP6 (ip6ToInt ip6) = dropWhile (\<lambda>b. b = 0) ip6 \<and>
     (length (intToIP6 n) = 16 \<longleftrightarrow> 2 ^ 120 \<le> n \<and> n < 2 ^ 128)"
proof -
  have "length (intToIP6 n) = 16 \<longleftrightarrow> length (Bytes n) \<le> 16 \<and> \<not> length (Bytes n) \<le> 15"
    by (auto simp: intToIP6_Bytes)
  then have "length (intToIP6 n) = 16 \<longleftrightarrow> 2 ^ 120 \<le> n \<and> n < 2 ^ 128"
    by (auto simp: length_Bytes)
  moreover have "ip6ToInt ip6 = be_val ip6" using assms by (simp add: ip6ToInt_def To16_def)
  ultimately show ?thesis
    using assms be_val_bound [of ip] be_val_bound [of ip6] intToIP4_ip4ToInt [of ip]
    by (simp add: ip4ToInt_intToIP4 intToIP6_Bytes Bytes_be_val)
qed

theorem address_numbers_witness:
  "intToIP4 (ip4ToInt [192, 168, 0, 1]) = [192, 168, 0, 1] \<and>
   intToIP6 (ip6ToInt (replicate 15 0 @ [1])) = [1]"
  using address_numbers [of "[192, 168, 0, 1]" "replicate 15 0 @ [1]" 0]
  by (simp add: dropWhile_append)

lemma ipv6_range_unpadded: "ParseIP ''::1-::3'' = Inr [''?01'', ''?02'', ''?03'']"
  by code_simp

lemma ipv6_network_32: "ParseIP ''2001:db8::/32'' = Inr [''2001:db8::'']"
  by code_simp

subsection \<open>Addresses of the host\<close>

lemma anyIface_iff:
  "anyIface t ifaces \<longleftrightarrow> (\<exists>addrs a. Some addrs \<in> set ifaces \<and> a \<in> set addrs \<and> addrMatches t a)"
  by (induction t ifaces rule: anyIface.induct) (auto simp: list_ex_iff)

lemma IPEqual_To16:
  assumes "length a \<in> {4, 16}" "length b \<in> {4, 16}"
  shows "IPEqual a b \<longleftrightarrow> To16 a = To16 b"
proof -
  have l: "length v4InV6Prefix = 12" by (simp add: v4InV6Prefix_def)
  then have "v4InV6Prefix @ x = y \<longleftrightarrow> take 12 y = v4InV6Prefix \<and> x = drop 12 y"
    "y = v4InV6Prefix @ x \<longleftrightarrow> take 12 y = v4InV6Prefix \<and> x = drop 12 y" for x y
    by (auto simp: append_eq_conv_conj eq_commute [of y])
  with l show ?thesis using assms by (auto simp: IPEqual_def To16_def)
qed

lemma IsLocalhostIP_iff:
  "IsLocalhostIP (Some ifaces) s \<longleftrightarrow>
     (\<exists>t addrs a. net_ParseIP s = Some t \<and> Some addrs \<in> set ifaces \<and> a \<in> set addrs \<and> addrMatches t a)"
  by (auto simp: IsLocalhostIP_def anyIface_iff split: option.splits)

subsection \<open>No panic\<close>

text \<open>
  The index expression of \<^verbatim>\<open>networkRange\<close> is safe because every network that
  \<^verbatim>\<open>net.ParseCIDR\<close> returns has an address and a mask of the same length.
\<close>

lemma parseIPv6Loop_length:
  "parseIPv6Loop ell acc s = Some (acc', ell', r) \<Longrightarrow> even (length acc) \<Longrightarrow> length acc \<le> 16 \<Longrightarrow>
   length acc' \<le> 16"
proof (induction "16 - length acc" arbitrary: ell acc s rule: less_induct)
  case less
  show ?case
  proof (cases "16 \<le> length acc")
    case True
    with less.prems show ?thesis by (simp add: parseIPv6Loop.simps [of ell acc s])
  next
    case False
    then have l: "length acc + 2 \<le> 16" using less.prems(2) by presburger
    have IH: "length acc' \<le> 16" if "parseIPv6Loop e (acc @ [x, y]) t = Some (acc', ell', r)" for e x y t
      using less.hyps [OF _ that] less.prems(2) l False by simp
    show ?thesis
      using less.prems(1) False l parseIPv4_len [of s]
      by (simp only: parseIPv6Loop.simps [of ell acc s])
         (simp only: Let_def split: if_splits option.splits;
          auto dest: IH simp: parseIPv4_len)
  qed
qed

lemma parseIPv6_length:
  assumes "parseIPv6 t = Some ip"
  shows "length ip = 16"
proof -
  have run: "length acc \<le> 16" if "parseIPv6Loop ell [] s = Some (acc, ell', r)" for ell s acc ell' r
    using parseIPv6Loop_length [OF that] by simp
  show ?thesis
    using assms unfolding parseIPv6_def Let_def
    by (auto split: if_splits option.splits prod.splits dest!: run simp: not_less)
qed

lemma ParseAddr_length: "ParseAddr s = Some ip \<Longrightarrow> length ip = 4 \<or> length ip = 16"
  using parseIPv4_len parseIPv6_length
  by (auto simp: ParseAddr_def split: list.splits if_splits)

lemma IPMaskWith_length:
  "length a = 4 \<or> length a = 16 \<Longrightarrow> length m = length a \<Longrightarrow>
   \<exists>ip. IPMaskWith (the (To16 a)) m = Some ip \<and> length ip = length m"
  by (auto simp: IPMaskWith_def To16_def v4InV6Prefix_def Let_def)

lemma net_ParseCIDR_length:
  assumes "net_ParseCIDR s = Some ipnet"
  shows "\<exists>ip m. ipnet = \<lparr>NetIP = Some ip, NetMask = Some m\<rparr> \<and> length ip = length m \<and>
     (length m = 4 \<or> length m = 16)"
proof -
  obtain a n where a: "ParseAddr (takeWhile (\<lambda>c. c \<noteq> CHR ''/'') s) = Some a"
    and net: "ipnet = \<lparr>NetIP = IPMaskWith (the (To16 a)) (cidr_bytes (length a) n),
                      NetMask = Some (cidr_bytes (length a) n)\<rparr>"
    using assms by (auto simp: net_ParseCIDR_def Let_def split: if_splits option.splits)
  show ?thesis
    using ParseAddr_length [OF a] IPMaskWith_length [of a "cidr_bytes (length a) n"] net by auto
qed

lemma networkRange_no_panic:
  "length ip = length m \<Longrightarrow> length m = 4 \<or> length m = 16 \<Longrightarrow>
   \<exists>res. networkRange \<lparr>NetIP = Some ip, NetMask = Some m\<rparr> = Inr res"
  by (auto simp: networkRange_def To4_def To16_def Let_def)

text \<open>
  Reading an address list never panics, whatever the text: no index runs out of range.
\<close>

theorem ParseIP_total: "\<exists>xs. ParseIP s = Inr xs"
proof -
  have "\<exists>xs. getAvailableIP t = Inr xs" for t
    using networkRange_no_panic
    by (auto simp: getAvailableIP_def bind_res_Inr_conv split: option.splits dest!: net_ParseCIDR_length)
  then show ?thesis
    by (auto simp: ParseIP_def Let_def split: list.splits)
qed

end
