(* ===== verification/Upgrade.thy ===== *)
theory Upgrade
  imports Merge "HOL-Library.Sublist"
begin

text \<open>
  Upgrades in single-minor steps (\<^verbatim>\<open>builtin/core/upgrade_path.go\<close>): the upgrade path of the
  configuration, the steps from the current to the target version, the configuration of every
  step and the check of pinned component versions. The record \<open>uenv\<close> holds what lies outside:
  the accessors of nested maps (\<^verbatim>\<open>unstructured\<close> of \<^verbatim>\<open>k8s.io/apimachinery\<close>), the embedded files,
  the YAML decoder and the semantic-version library. What the accessors document is the
  predicate \<open>accessors_ok\<close>. An upgrade path maps minor numbers to versions; a Go map of
  integers is an association list too.
\<close>

type_synonym KubeUpgradePath = "(int \<times> string) list"

record uenv =
  NestedFieldNoCopy :: "val gomap \<Rightarrow> string list \<Rightarrow> string + val option"
  NestedString :: "val gomap \<Rightarrow> string list \<Rightarrow> string + string option"
  NestedStringMap :: "val gomap \<Rightarrow> string list \<Rightarrow> string + string gomap option"
  SetNestedField :: "val gomap \<Rightarrow> val \<Rightarrow> string list \<Rightarrow> string + val gomap"
  SetNestedStringMap :: "val gomap \<Rightarrow> string gomap \<Rightarrow> string list \<Rightarrow> string + val gomap"
  readFile :: "string \<Rightarrow> string + string"
  unmarshalYAML :: "string \<Rightarrow> string + val gomap"
  semverCompare :: "string \<Rightarrow> string \<Rightarrow> int option"
  urange :: range_oracle

datatype upgrade_error =
    ReadConfig string | InvalidMinorKey string | NotMajorMinor string | BadNumber string
  | Downgrade int int | NoEntry int | SetFailed string | ReadVars string | PinnedTooLow "string list list"

subsection \<open>Versions\<close>

definition version_parts :: "string \<Rightarrow> string list" where
  "version_parts s = SplitN 3 (CHR ''.'') (TrimPrefix s ''v'')"

definition parseMinor :: "string \<Rightarrow> upgrade_error + int" where
  "parseMinor s =
     (let parts = version_parts s
      in if length parts < 2 then Inl (NotMajorMinor s)
         else case Atoi (parts ! 1) of None \<Rightarrow> Inl (BadNumber s) | Some m \<Rightarrow> Inr m)"

definition MinorOfVersion :: "string \<Rightarrow> upgrade_error + int" where
  "MinorOfVersion s =
     (let parts = version_parts s
      in if length parts < 2 then Inl (NotMajorMinor s)
         else let minorStr = filter is_digit (parts ! 1)
              in if minorStr = [] then Inl (NotMajorMinor s)
                 else case Atoi minorStr of None \<Rightarrow> Inl (BadNumber s) | Some m \<Rightarrow> Inr m)"

subsection \<open>The upgrade path\<close>

definition path_field :: "string list" where
  "path_field = [''cluster_require'', ''kube_upgrade_path'']"

definition minor_key :: "int \<Rightarrow> string" where
  "minor_key minor = ''v1.'' @ Itoa minor"

definition fill_default :: "KubeUpgradePath \<Rightarrow> string gomap \<Rightarrow> string gomap" where
  "fill_default def merged =
     foldl (\<lambda>m (minor, patch). if get m (minor_key minor) = None then put (minor_key minor) patch m else m)
       merged def"

definition MergeKubeUpgradePathDefaults ::
  "uenv \<Rightarrow> val gomap \<Rightarrow> KubeUpgradePath \<Rightarrow> upgrade_error + val gomap" where
  "MergeKubeUpgradePathDefaults U cfg def =
     (case NestedStringMap U cfg path_field of
        Inl e \<Rightarrow> Inl (ReadConfig e)
      | Inr found \<Rightarrow>
          (case SetNestedStringMap U cfg
                  (fill_default def (case found of None \<Rightarrow> [] | Some cur \<Rightarrow> cur)) path_field of
             Inl e \<Rightarrow> Inl (SetFailed e)
           | Inr cfg' \<Rightarrow> Inr cfg'))"

fun path_of_keys :: "string gomap \<Rightarrow> string list \<Rightarrow> KubeUpgradePath \<Rightarrow> upgrade_error + KubeUpgradePath" where
  "path_of_keys m [] path = Inr path"
| "path_of_keys m (k # ks) path =
     (case parseMinor k of
        Inl e \<Rightarrow> Inl (InvalidMinorKey k)
      | Inr minor \<Rightarrow>
          path_of_keys m ks
            (AList.update minor (case get m k of None \<Rightarrow> [] | Some patch \<Rightarrow> patch) path))"

definition EffectiveKubeUpgradePath :: "uenv \<Rightarrow> val gomap \<Rightarrow> upgrade_error + KubeUpgradePath" where
  "EffectiveKubeUpgradePath U cfg =
     (case NestedStringMap U cfg path_field of
        Inl e \<Rightarrow> Inl (ReadConfig e)
      | Inr found \<Rightarrow>
          (let m = (case found of None \<Rightarrow> [] | Some m \<Rightarrow> m)
           in path_of_keys m (range_keys (urange U) m) []))"

subsection \<open>Steps\<close>

function step_loop :: "KubeUpgradePath \<Rightarrow> int \<Rightarrow> int \<Rightarrow> string list \<Rightarrow> upgrade_error + string list" where
  "step_loop path m targetMinor steps =
     (if m < targetMinor then
        (case map_of path m of
           None \<Rightarrow> Inl (NoEntry m)
         | Some patch \<Rightarrow> step_loop path (m + 1) targetMinor (steps @ [patch]))
      else Inr steps)"
  by pat_completeness auto
termination by (relation "measure (\<lambda>(path, m, t, steps). nat (t - m))") auto

declare step_loop.simps [simp del]

definition ComputeUpgradeSteps ::
  "int \<Rightarrow> int \<Rightarrow> string \<Rightarrow> KubeUpgradePath \<Rightarrow> upgrade_error + string list" where
  "ComputeUpgradeSteps currentMinor targetMinor requestedTarget path =
     (if targetMinor < currentMinor then Inl (Downgrade currentMinor targetMinor)
      else if targetMinor = currentMinor then Inr [requestedTarget]
      else bind_res (step_loop path (currentMinor + 1) targetMinor [])
             (\<lambda>steps. Inr (steps @ [requestedTarget])))"

subsection \<open>Configuration of a step\<close>

definition upgradeVersionFieldPaths :: "string list list" where
  "upgradeVersionFieldPaths =
    [[''kubernetes'', ''helm_version''],
     [''kubernetes'', ''sandbox_image'', ''tag''],
     [''kubernetes'', ''control_plane_endpoint'', ''kube_vip'', ''image'', ''tag''],
     [''kubernetes'', ''control_plane_endpoint'', ''haproxy'', ''image'', ''tag''],
     [''etcd'', ''etcd_version''],
     [''image_registry'', ''keepalived_version''],
     [''image_registry'', ''harbor_version''],
     [''image_registry'', ''dockercompose_version''],
     [''image_registry'', ''docker_registry_version''],
     [''cri'', ''crictl_version''],
     [''cri'', ''docker_version''],
     [''cri'', ''cridockerd_version''],
     [''cri'', ''containerd_version''],
     [''cri'', ''runc_version''],
     [''cni'', ''cni_plugins_version''],
     [''cni'', ''calico_version''],
     [''cni'', ''cilium_version''],
     [''cni'', ''flannel_version''],
     [''cni'', ''kubeovn_version''],
     [''cni'', ''hybridnet_version''],
     [''cni'', ''multus'', ''image'', ''tag''],
     [''cni'', ''spiderpool_version''],
     [''storage_class'', ''localpv_provisioner_version''],
     [''storage_class'', ''nfs_provisioner_version''],
     [''dns'', ''coredns'', ''image'', ''tag''],
     [''dns'', ''nodelocaldns'', ''image'', ''tag'']]"

definition kube_version_path :: "string list" where
  "kube_version_path = [''kubernetes'', ''kube_version'']"

fun overlay_loop :: "uenv \<Rightarrow> val gomap \<Rightarrow> string list list \<Rightarrow> val gomap \<Rightarrow> upgrade_error + val gomap" where
  "overlay_loop U vars [] overlay = Inr overlay"
| "overlay_loop U vars (p # ps) overlay =
     (case NestedFieldNoCopy U vars p of
        Inl e \<Rightarrow> Inl (ReadVars e)
      | Inr None \<Rightarrow> overlay_loop U vars ps overlay
      | Inr (Some v) \<Rightarrow>
          (case SetNestedField U overlay v p of
             Inl e \<Rightarrow> Inl (SetFailed e)
           | Inr overlay' \<Rightarrow> overlay_loop U vars ps overlay'))"

definition minorVars :: "uenv \<Rightarrow> int \<Rightarrow> upgrade_error + val gomap" where
  "minorVars U minor =
     (case readFile U (''roles/defaults/vars/v1.'' @ Itoa minor @ ''.yaml'') of
        Inl e \<Rightarrow> Inl (ReadVars e)
      | Inr data \<Rightarrow> (case unmarshalYAML U data of Inl e \<Rightarrow> Inl (ReadVars e) | Inr vars \<Rightarrow> Inr vars))"

definition UpgradeVersionOverlay :: "uenv \<Rightarrow> int \<Rightarrow> upgrade_error + val gomap" where
  "UpgradeVersionOverlay U minor =
     bind_res (minorVars U minor) (\<lambda>vars. overlay_loop U vars upgradeVersionFieldPaths [])"

definition BuildUpgradeStepConfig ::
  "uenv \<Rightarrow> val gomap \<Rightarrow> string \<Rightarrow> bool \<Rightarrow> upgrade_error + val gomap" where
  "BuildUpgradeStepConfig U base kubeVersion isFinal =
     (case SetNestedField U base (VStr kubeVersion) kube_version_path of
        Inl e \<Rightarrow> Inl (SetFailed e)
      | Inr cfg \<Rightarrow>
          (if isFinal then Inr cfg
           else bind_res (MinorOfVersion kubeVersion) (\<lambda>minor.
                bind_res (UpgradeVersionOverlay U minor) (\<lambda>overlay.
                  Inr (combineConfigMaps cfg overlay)))))"

subsection \<open>Pinned versions\<close>

fun compareStrings :: "string \<Rightarrow> string \<Rightarrow> int" where
  "compareStrings [] [] = 0"
| "compareStrings [] (y # ys) = - 1"
| "compareStrings (x # xs) [] = 1"
| "compareStrings (x # xs) (y # ys) =
     (if (of_char x :: nat) < of_char y then - 1
      else if (of_char y :: nat) < of_char x then 1 else compareStrings xs ys)"

definition compareVersionNumbers :: "uenv \<Rightarrow> string \<Rightarrow> string \<Rightarrow> int" where
  "compareVersionNumbers U a b =
     (case semverCompare U a b of Some c \<Rightarrow> c | None \<Rightarrow> compareStrings a b)"

fun hop_problems ::
  "uenv \<Rightarrow> string list \<Rightarrow> string \<Rightarrow> string list \<Rightarrow> string list list \<Rightarrow> upgrade_error + string list list" where
  "hop_problems U p termVal [] problems = Inr problems"
| "hop_problems U p termVal (step # steps) problems =
     bind_res (MinorOfVersion step) (\<lambda>minor.
     bind_res (UpgradeVersionOverlay U minor) (\<lambda>overlay.
       case NestedString U overlay p of
         Inl e \<Rightarrow> Inl (ReadVars e)
       | Inr found \<Rightarrow>
           (let hopVal = (case found of None \<Rightarrow> [] | Some v \<Rightarrow> v)
            in hop_problems U p termVal steps
                 (if hopVal \<noteq> [] \<and> compareVersionNumbers U termVal hopVal < 0
                  then problems @ [p] else problems))))"

fun field_problems ::
  "uenv \<Rightarrow> val gomap \<Rightarrow> string list \<Rightarrow> string list list \<Rightarrow> string list list \<Rightarrow>
   upgrade_error + string list list" where
  "field_problems U base hops [] problems = Inr problems"
| "field_problems U base hops (p # ps) problems =
     (case NestedString U base p of
        Inl e \<Rightarrow> Inl (ReadConfig e)
      | Inr found \<Rightarrow>
          (let termVal = (case found of None \<Rightarrow> [] | Some v \<Rightarrow> v)
           in if termVal = [] then field_problems U base hops ps problems
              else bind_res (hop_problems U p termVal hops problems)
                     (field_problems U base hops ps)))"

definition ValidateTerminalVersions :: "uenv \<Rightarrow> val gomap \<Rightarrow> string list \<Rightarrow> upgrade_error option" where
  "ValidateTerminalVersions U base steps =
     (if length steps \<le> 1 then None
      else case field_problems U base (butlast steps) upgradeVersionFieldPaths [] of
             Inl e \<Rightarrow> Some e
           | Inr problems \<Rightarrow>
               (if problems = [] then None else Some (PinnedTooLow problems)))"

subsection \<open>Numbers in version strings\<close>

lemma version_parts_key: "0 \<le> n \<Longrightarrow> version_parts (minor_key n) = [''1'', Itoa n]"
proof -
  assume "0 \<le> n"
  then have "CHR ''.'' \<notin> set (Itoa n)"
    using itoa_digits [of "nat n"] digit_not by (auto simp: Itoa_nat list_all_iff)
  then show ?thesis
    by (simp add: version_parts_def minor_key_def TrimPrefix_def numeral_eq_Suc)
qed

lemma minor_key_parse: "0 \<le> n \<Longrightarrow> n < 2 ^ 63 \<Longrightarrow> parseMinor (minor_key n) = Inr n"
  using itoa_digits [of "nat n"] Atoi_digits [of "itoa_nat (nat n)"]
  by (simp add: parseMinor_def version_parts_key Let_def Itoa_nat)

text \<open>
  Keys of the upgrade path round-trip: the key that the defaults are stored under for
  a minor version is read back as that minor version, for every minor an \<^verbatim>\<open>int\<close> can hold.
\<close>

theorem parseMinor_minor_key:
  assumes "0 \<le> n" "n < 2 ^ 63"
  shows "parseMinor (minor_key n) = Inr n"
  using assms by (rule minor_key_parse)

theorem parseMinor_minor_key_witness: "parseMinor (minor_key 34) = Inr 34"
  by (rule parseMinor_minor_key) simp_all

subsection \<open>Steps are single minors\<close>

lemma step_loop_ok:
  "{m..<t} \<subseteq> dom (map_of path) \<Longrightarrow>
   step_loop path m t acc = Inr (acc @ map (\<lambda>k. the (map_of path k)) [m..t - 1])"
proof (induction path m t acc rule: step_loop.induct)
  case (1 path m t acc)
  show ?case
  proof (cases "m < t")
    case True
    then obtain p where p: "map_of path m = Some p" using 1(2) by (auto simp: subset_iff dom_def)
    have "{m + 1..<t} \<subseteq> dom (map_of path)" by (rule order_trans [OF _ 1(2)]) auto
    from 1(1) [OF True p this] show ?thesis
      using True p by (subst step_loop.simps) (simp add: upto_rec1)
  next
    case False
    then show ?thesis by (subst step_loop.simps) simp
  qed
qed

lemma step_loop_missing:
  "m \<le> k \<Longrightarrow> k < t \<Longrightarrow> map_of path k = None \<Longrightarrow> {m..<k} \<subseteq> dom (map_of path) \<Longrightarrow>
   step_loop path m t acc = Inl (NoEntry k)"
proof (induction path m t acc rule: step_loop.induct)
  case (1 path m t acc)
  show ?case
  proof (cases "m = k")
    case True
    then show ?thesis using 1(3,4) by (subst step_loop.simps) simp
  next
    case False
    then obtain p where p: "map_of path m = Some p"
      using 1(2,5) by (auto simp: subset_iff dom_def)
    have "{m + 1..<k} \<subseteq> dom (map_of path)" by (rule order_trans [OF _ 1(5)]) auto
    moreover have "m < t" "m + 1 \<le> k" using False 1(2,3) by auto
    ultimately show ?thesis using 1(1) [OF _ p] 1(3,4) p by (subst step_loop.simps) simp
  qed
qed

text \<open>
  The steps of an upgrade, in every case: a downgrade is refused; otherwise, when the
  path knows every minor strictly between the current and the target one, the steps are those
  entries in ascending order followed by the requested version; otherwise the smallest unknown
  minor is reported.
\<close>

theorem ComputeUpgradeSteps_spec:
  "ComputeUpgradeSteps c t r path =
     (if t < c then Inl (Downgrade c t)
      else if {c<..<t} \<subseteq> dom (map_of path)
      then Inr (map (\<lambda>m. the (map_of path m)) [c + 1..t - 1] @ [r])
      else Inl (NoEntry (Min ({c<..<t} - dom (map_of path)))))"
proof -
  consider "t < c" | "c = t" | "c < t" by linarith
  then show ?thesis
  proof cases
    case 3
    have iv: "{c<..<t} = {c + 1..<t}" by auto
    show ?thesis
    proof (cases "{c<..<t} \<subseteq> dom (map_of path)")
      case True
      then show ?thesis using 3 step_loop_ok [of "c + 1" t path "[]"] by (simp add: ComputeUpgradeSteps_def iv)
    next
      case False
      define k where "k = Min ({c<..<t} - dom (map_of path))"
      have fin: "finite ({c<..<t} - dom (map_of path))" "{c<..<t} - dom (map_of path) \<noteq> {}"
        using False by auto
      have k: "k \<in> {c<..<t} - dom (map_of path)" unfolding k_def using Min_in [OF fin] .
      have least: "{c + 1..<k} \<subseteq> dom (map_of path)"
      proof
        fix x assume x: "x \<in> {c + 1..<k}"
        then have "x \<in> {c<..<t}" using k by auto
        then show "x \<in> dom (map_of path)"
          using Min_le [OF fin(1), of x] x unfolding k_def [symmetric] by auto
      qed
      have "step_loop path (c + 1) t [] = Inl (NoEntry k)"
        using k least by (intro step_loop_missing) auto
      then show ?thesis using 3 False by (simp add: ComputeUpgradeSteps_def k_def)
    qed
  qed (simp_all add: ComputeUpgradeSteps_def)
qed

text \<open>
  Claim C30. Never more than one minor at a time. When every entry of the path is a version of
  the minor it is filed under and the requested version is one of the target minor, the minors
  of the computed steps are exactly current+1, current+2, ..., target.
\<close>

theorem ComputeUpgradeSteps_single_minor:
  assumes "ComputeUpgradeSteps c t r path = Inr steps" "c < t"
    and "\<And>m p. map_of path m = Some p \<Longrightarrow> MinorOfVersion p = Inr m" "MinorOfVersion r = Inr t"
  shows "map MinorOfVersion steps = map Inr [c + 1..t]"
proof -
  have sub: "{c<..<t} \<subseteq> dom (map_of path)"
    and steps: "steps = map (\<lambda>m. the (map_of path m)) [c + 1..t - 1] @ [r]"
    using assms(1,2) by (auto simp: ComputeUpgradeSteps_spec split: if_splits)
  have "MinorOfVersion (the (map_of path m)) = Inr m" if "m \<in> set [c + 1..t - 1]" for m
    using sub that assms(3) by (force simp: subset_iff dom_def)
  then have "map MinorOfVersion steps = map Inr ([c + 1..t - 1] @ [t])"
    by (simp add: steps assms(4))
  also have "[c + 1..t - 1] @ [t] = [c + 1..t]"
    using upto_rec2 [of "c + 1" t] assms(2) by simp
  finally show ?thesis .
qed

definition sample_path :: KubeUpgradePath where
  "sample_path = [(29, ''v1.29.14''), (30, ''v1.30.14''), (31, ''v1.31.13'')]"

theorem ComputeUpgradeSteps_single_minor_witness:
  "ComputeUpgradeSteps 29 32 ''v1.32.9'' sample_path = Inr [''v1.30.14'', ''v1.31.13'', ''v1.32.9''] \<and>
   map MinorOfVersion [''v1.30.14'', ''v1.31.13'', ''v1.32.9''] = map Inr [30..32]"
proof -
  have steps: "ComputeUpgradeSteps 29 32 ''v1.32.9'' sample_path =
      Inr [''v1.30.14'', ''v1.31.13'', ''v1.32.9'']" by code_simp
  have "MinorOfVersion ''v1.29.14'' = Inr 29" "MinorOfVersion ''v1.30.14'' = Inr 30"
    "MinorOfVersion ''v1.31.13'' = Inr 31" "MinorOfVersion ''v1.32.9'' = Inr 32"
    by code_simp+
  then have "map MinorOfVersion [''v1.30.14'', ''v1.31.13'', ''v1.32.9''] = map Inr [29 + 1..32]"
    by (intro ComputeUpgradeSteps_single_minor [OF steps]) (auto simp: sample_path_def split: if_splits)
  with steps show ?thesis by simp
qed

subsection \<open>The configuration of a step\<close>

text \<open>What \<^verbatim>\<open>unstructured\<close> documents: a field is found exactly when the path leads to it, a
  string exactly when a string is there; setting a field puts the value there and leaves every
  field that is neither above nor below it as it was.\<close>

definition accessors_ok :: "uenv \<Rightarrow> bool" where
  "accessors_ok U \<longleftrightarrow>
     (\<forall>m p v. NestedFieldNoCopy U m p = Inr (Some v) \<longleftrightarrow> get_path m p = Some v) \<and>
     (\<forall>m p s. NestedString U m p = Inr (Some s) \<longleftrightarrow> get_path m p = Some (VStr s)) \<and>
     (\<forall>m v p m'. SetNestedField U m v p = Inr m' \<longrightarrow> wf_vars m \<longrightarrow> wf_val v \<longrightarrow>
        wf_vars m' \<and> get_path m' p = Some v \<and>
        (\<forall>q. q \<parallel> p \<longrightarrow> get_path m' q = get_path m q \<and> silent m' q = silent m q))"

lemma accessors_field: "accessors_ok U \<Longrightarrow> NestedFieldNoCopy U m p = Inr (Some v) \<longleftrightarrow> get_path m p = Some v"
  by (simp add: accessors_ok_def)

lemma accessors_set:
  assumes "accessors_ok U" "SetNestedField U m v p = Inr m'" "wf_vars m" "wf_val v"
  shows "wf_vars m'" "get_path m' p = Some v"
    "q \<parallel> p \<Longrightarrow> get_path m' q = get_path m q" "q \<parallel> p \<Longrightarrow> silent m' q = silent m q"
  using assms by (simp_all add: accessors_ok_def)

lemma wf_get_path: "wf_vars m \<Longrightarrow> get_path m p = Some v \<Longrightarrow> wf_val v"
proof (induction m p rule: get_path.induct)
  case (2 m k ks)
  then show ?case
    using wf_vars_get [of m k] wf_vars_get_map [of m k]
    by (auto split: option.splits if_splits val.splits)
qed (auto simp: wf_vars_def)

fun apart :: "string list list \<Rightarrow> bool" where
  "apart [] = True"
| "apart (p # ps) = (list_all (\<lambda>q. p \<parallel> q) ps \<and> apart ps)"

lemma overlay_loop_frame:
  assumes "accessors_ok U" "wf_vars vars" "overlay_loop U vars ps ov = Inr ov'" "wf_vars ov"
    and "\<forall>p\<in>set ps. q \<parallel> p \<or> get_path vars p = None"
  shows "wf_vars ov' \<and> get_path ov' q = get_path ov q \<and> silent ov' q = silent ov q"
  using assms
proof (induction ps arbitrary: ov)
  case (Cons p ps)
  show ?case
  proof (cases "get_path vars p")
    case None
    then have "NestedFieldNoCopy U vars p \<noteq> Inr (Some v)" for v
      by (simp add: accessors_field [OF assms(1)])
    then have "overlay_loop U vars ps ov = Inr ov'"
      using Cons.prems(3) by (auto split: sum.splits option.splits)
    with Cons show ?thesis by simp
  next
    case (Some v)
    then have f: "NestedFieldNoCopy U vars p = Inr (Some v)" by (simp add: accessors_field [OF assms(1)])
    then obtain ov1 where s: "SetNestedField U ov v p = Inr ov1" "overlay_loop U vars ps ov1 = Inr ov'"
      using Cons.prems(3) by (auto split: sum.splits)
    note set1 = accessors_set [OF assms(1) s(1) Cons.prems(4) wf_get_path [OF assms(2) Some]]
    have "q \<parallel> p" using Cons.prems(5) Some by simp
    with set1(3,4) Cons.IH [OF assms(1,2) s(2) set1(1)] Cons.prems(5) show ?thesis by simp
  qed
qed simp

lemma overlay_loop_gives:
  assumes "accessors_ok U" "wf_vars vars" "overlay_loop U vars ps ov = Inr ov'" "wf_vars ov"
    and "apart ps" "p \<in> set ps" "get_path vars p = Some v"
  shows "get_path ov' p = Some v"
  using assms(3-6)
proof (induction ps arbitrary: ov)
  case (Cons q ps)
  have par: "apart ps" "\<forall>p\<in>set ps. q \<parallel> p" using Cons.prems(3) by (auto simp: list_all_iff)
  show ?case
  proof (cases "get_path vars q")
    case None
    then have "NestedFieldNoCopy U vars q \<noteq> Inr (Some u)" for u
      by (simp add: accessors_field [OF assms(1)])
    then have "overlay_loop U vars ps ov = Inr ov'"
      using Cons.prems(1) by (auto split: sum.splits option.splits)
    then show ?thesis using Cons.IH Cons.prems(2,4) par(1) None assms(7) by auto
  next
    case (Some u)
    then have f: "NestedFieldNoCopy U vars q = Inr (Some u)" by (simp add: accessors_field [OF assms(1)])
    then obtain ov1 where s: "SetNestedField U ov u q = Inr ov1" "overlay_loop U vars ps ov1 = Inr ov'"
      using Cons.prems(1) by (auto split: sum.splits)
    note set1 = accessors_set [OF assms(1) s(1) Cons.prems(2) wf_get_path [OF assms(2) Some]]
    show ?thesis
    proof (cases "p = q")
      case True
      then have "get_path ov' p = get_path ov1 p"
        using overlay_loop_frame [OF assms(1,2) s(2) set1(1)] par(2) by simp
      then show ?thesis using True set1(2) Some assms(7) by simp
    next
      case False
      then show ?thesis using Cons.IH [OF s(2) set1(1) par(1)] Cons.prems(4) by simp
    qed
  qed
qed simp

lemma apart_pairwise: "apart ps \<Longrightarrow> p \<in> set ps \<Longrightarrow> q \<in> set ps \<Longrightarrow> p = q \<or> p \<parallel> q"
  by (induction ps) (auto simp: list_all_iff parallel_commute)

lemma paths_apart: "apart (kube_version_path # upgradeVersionFieldPaths)"
  unfolding kube_version_path_def upgradeVersionFieldPaths_def
  by (simp add: parallel_def)

text \<open>
  Claim C28. The configuration of an upgrade step. It always asks for the step's own version. On
  an intermediate step every allow-listed component version that the embedded file of that
  minor defines takes that value; on the last step none of them changes. Everything else,
  that is every field neither above nor below one of those paths, is what the terminal
  configuration says.
\<close>

theorem BuildUpgradeStepConfig_spec:
  assumes "accessors_ok U" "wf_vars base" "BuildUpgradeStepConfig U base kv isFinal = Inr cfg"
    and "\<not> isFinal \<Longrightarrow> MinorOfVersion kv = Inr minor \<and> minorVars U minor = Inr vars \<and> wf_vars vars"
  shows "get_path cfg kube_version_path = Some (VStr kv) \<and>
    (\<forall>p v. \<not> isFinal \<longrightarrow> p \<in> set upgradeVersionFieldPaths \<longrightarrow> get_path vars p = Some v \<longrightarrow>
       \<not> is_map v \<longrightarrow> get_path cfg p = Some v) \<and>
    (\<forall>q. q \<parallel> kube_version_path \<longrightarrow>
       isFinal \<or> (\<forall>p\<in>set upgradeVersionFieldPaths. q \<parallel> p) \<longrightarrow> get_path cfg q = get_path base q)"
proof -
  obtain c where c: "SetNestedField U base (VStr kv) kube_version_path = Inr c"
    using assms(3) by (auto simp: BuildUpgradeStepConfig_def split: sum.splits)
  note set1 = accessors_set [OF assms(1) c assms(2), simplified]
  show ?thesis
  proof (cases isFinal)
    case True
    then show ?thesis using assms(3) c set1 by (simp add: BuildUpgradeStepConfig_def)
  next
    case False
    obtain ov where ov: "overlay_loop U vars upgradeVersionFieldPaths [] = Inr ov"
        "cfg = combineConfigMaps c ov"
      using assms(3,4) False c
      by (auto simp: BuildUpgradeStepConfig_def UpgradeVersionOverlay_def bind_res_Inr_conv)
    have wf: "wf_vars vars" using assms(4) False by blast
    have apart: "apart upgradeVersionFieldPaths" "\<forall>p\<in>set upgradeVersionFieldPaths. kube_version_path \<parallel> p"
      using paths_apart by (auto simp: list_all_iff)
    note frame = overlay_loop_frame [OF assms(1) wf ov(1)]
    have wov: "wf_vars ov" using frame [of kube_version_path] apart(2) by simp
    have quiet: "silent ov q" if "\<forall>p\<in>set upgradeVersionFieldPaths. q \<parallel> p" for q
    proof -
      have "q \<noteq> []" using that by (auto simp: upgradeVersionFieldPaths_def parallel_def)
      then show ?thesis using frame [of q] that by (cases q) auto
    qed
    have "get_path cfg p = Some v"
      if "p \<in> set upgradeVersionFieldPaths" "get_path vars p = Some v" "\<not> is_map v" for p v
      unfolding ov(2)
      using overlay_loop_gives [OF assms(1) wf ov(1) _ apart(1) that(1,2)] wov that(3)
      by (intro cfg.path_override) simp_all
    moreover have "get_path cfg q = get_path c q" if "\<forall>p\<in>set upgradeVersionFieldPaths. q \<parallel> p" for q
      unfolding ov(2) using cfg.path_frame [OF wov quiet [OF that]] .
    ultimately show ?thesis using False set1 apart(2) by simp
  qed
qed

subsection \<open>Accessors that keep the documented behaviour exist\<close>

fun nestedGet :: "val gomap \<Rightarrow> string list \<Rightarrow> string + val option" where
  "nestedGet m [] = Inr (Some (VMap m))"
| "nestedGet m (k # ks) =
     (case get m k of
        None \<Rightarrow> Inr None
      | Some v \<Rightarrow>
          (if ks = [] then Inr (Some v)
           else case v of VMap m' \<Rightarrow> nestedGet m' ks | VNil \<Rightarrow> Inr None | _ \<Rightarrow> Inl ''accessor error''))"

definition nestedStr :: "val gomap \<Rightarrow> string list \<Rightarrow> string + string option" where
  "nestedStr m p =
     (case nestedGet m p of
        Inl e \<Rightarrow> Inl e
      | Inr None \<Rightarrow> Inr None
      | Inr (Some (VStr s)) \<Rightarrow> Inr (Some s)
      | Inr (Some _) \<Rightarrow> Inl ''accessor error'')"

fun nestedSet :: "val gomap \<Rightarrow> val \<Rightarrow> string list \<Rightarrow> string + val gomap" where
  "nestedSet m v [] = Inl ''no field''"
| "nestedSet m v (k # ks) =
     (if ks = [] then Inr (put k v m)
      else case get m k of
             None \<Rightarrow> (case nestedSet [] v ks of Inl e \<Rightarrow> Inl e | Inr m' \<Rightarrow> Inr (put k (VMap m') m))
           | Some (VMap m0) \<Rightarrow> (case nestedSet m0 v ks of Inl e \<Rightarrow> Inl e | Inr m' \<Rightarrow> Inr (put k (VMap m') m))
           | Some _ \<Rightarrow> Inl ''not a map'')"

lemma nestedGet_iff: "nestedGet m p = Inr (Some v) \<longleftrightarrow> get_path m p = Some v"
  by (induction m p rule: nestedGet.induct) (auto split: option.splits val.splits)

lemma nestedStr_iff: "nestedStr m p = Inr (Some s) \<longleftrightarrow> get_path m p = Some (VStr s)"
  by (auto simp: nestedStr_def nestedGet_iff [symmetric] split: sum.splits option.splits val.splits)

lemma silent_Nil [simp]: "p \<noteq> [] \<Longrightarrow> silent [] p"
  by (cases p) auto

lemma nestedSet_ok:
  assumes "nestedSet m v p = Inr m'" "wf_vars m" "wf_val v"
  shows "wf_vars m' \<and> get_path m' p = Some v \<and>
    (\<forall>q. q \<parallel> p \<longrightarrow> get_path m' q = get_path m q \<and> silent m' q = silent m q)"
  using assms
proof (induction m v p arbitrary: m' rule: nestedSet.induct)
  case (2 m v k ks)
  show ?case
  proof (cases "ks = []")
    case True
    then have m': "m' = put k v m" using 2(3) by simp
    have "get_path m' q = get_path m q \<and> silent m' q = silent m q" if "q \<parallel> [k]" for q
      using that by (cases q) (auto simp: m' parallel_def)
    then show ?thesis using True 2(4,5) by (simp add: m' wf_vars_put)
  next
    case False
    define m0 where "m0 = (case get m k of Some (VMap m0) \<Rightarrow> m0 | _ \<Rightarrow> [])"
    obtain m1 where m1: "nestedSet m0 v ks = Inr m1" "m' = put k (VMap m1) m"
        "get m k = None \<or> get m k = Some (VMap m0)"
      using 2(3) False by (auto simp: m0_def split: option.splits val.splits sum.splits)
    have wf0: "wf_vars m0"
      using m1(3) wf_vars_get_map [OF 2(4)] by (auto simp: m0_def)
    have ih: "wf_vars m1 \<and> get_path m1 ks = Some v \<and>
        (\<forall>q. q \<parallel> ks \<longrightarrow> get_path m1 q = get_path m0 q \<and> silent m1 q = silent m0 q)"
      using m1(3) 2(1) [OF False, of m1] 2(2) [OF False, of "VMap m0" m0 m1] m1(1) wf0 2(5)
      by (auto simp: m0_def)
    have "get_path m' q = get_path m q \<and> silent m' q = silent m q" if "q \<parallel> k # ks" for q
    proof (cases q)
      case Nil
      then show ?thesis using that by (auto simp: parallel_def)
    next
      case (Cons j js)
      show ?thesis
      proof (cases "j = k")
        case True
        then have js: "js \<parallel> ks" "js \<noteq> []" using that Cons by (auto simp: parallel_def)
        then have "get_path m1 js = get_path m0 js" "silent m1 js = silent m0 js" using ih by auto
        moreover have "get m k = None \<Longrightarrow> get_path m0 js = None \<and> silent m0 js"
          using js(2) by (auto simp: m0_def neq_Nil_conv)
        moreover have "get m' k = Some (VMap m1)" by (simp add: m1(2))
        ultimately show ?thesis
          using Cons True js(2) m1(3) by (elim disjE) simp_all
      next
        case False
        then show ?thesis using Cons by (simp add: m1(2))
      qed
    qed
    moreover have "wf_val (VMap m1)" using ih unfolding wf_vars_def by blast
    then have "wf_vars (put k (VMap m1) m)" by (rule wf_vars_put [OF 2(4)])
    ultimately show ?thesis using ih False by (simp add: m1(2))
  qed
qed simp

fun stringsOf :: "val gomap \<Rightarrow> string + string gomap" where
  "stringsOf [] = Inr []"
| "stringsOf ((k, v) # m) =
     (case v of
        VStr s \<Rightarrow> (case stringsOf m of Inl e \<Rightarrow> Inl e | Inr sm \<Rightarrow> Inr ((k, s) # sm))
      | _ \<Rightarrow> Inl ''accessor error'')"

definition nestedStrMap :: "val gomap \<Rightarrow> string list \<Rightarrow> string + string gomap option" where
  "nestedStrMap m p =
     (case nestedGet m p of
        Inl e \<Rightarrow> Inl e
      | Inr None \<Rightarrow> Inr None
      | Inr (Some (VMap m')) \<Rightarrow> (case stringsOf m' of Inl e \<Rightarrow> Inl e | Inr sm \<Rightarrow> Inr (Some sm))
      | Inr (Some _) \<Rightarrow> Inl ''accessor error'')"

definition sample_uenv :: uenv where
  "sample_uenv =
     \<lparr>NestedFieldNoCopy = nestedGet, NestedString = nestedStr,
      NestedStringMap = nestedStrMap, SetNestedField = nestedSet,
      SetNestedStringMap = (\<lambda>m sm p. nestedSet m (VMap (map (\<lambda>(k, s). (k, VStr s)) sm)) p),
      readFile = (\<lambda>name. Inr name),
      unmarshalYAML = (\<lambda>data. Inr [(''etcd'', VMap [(''etcd_version'', VStr ''v3.5.15'')]),
                                  (''cri'', VMap [(''container_manager'', VStr ''docker'')])]),
      semverCompare = (\<lambda>a b. Some (compareStrings a b)), urange = (\<lambda>ks. ks)\<rparr>"

lemma sample_accessors: "accessors_ok sample_uenv"
  unfolding accessors_ok_def using nestedSet_ok
  by (auto simp: sample_uenv_def nestedGet_iff nestedStr_iff)

definition sample_config :: "val gomap" where
  "sample_config =
     [(''kubernetes'', VMap [(''kube_version'', VStr ''v1.32.9'')]),
      (''etcd'', VMap [(''etcd_version'', VStr ''v3.6.5'')]),
      (''cri'', VMap [(''container_manager'', VStr ''containerd'')])]"

theorem BuildUpgradeStepConfig_spec_witness:
  "\<exists>cfg. BuildUpgradeStepConfig sample_uenv sample_config ''v1.30.14'' False = Inr cfg \<and>
     get_path cfg [''kubernetes'', ''kube_version''] = Some (VStr ''v1.30.14'') \<and>
     get_path cfg [''etcd'', ''etcd_version''] = Some (VStr ''v3.5.15'') \<and>
     get_path cfg [''cri'', ''container_manager''] = Some (VStr ''containerd'')"
proof -
  have "isl (BuildUpgradeStepConfig sample_uenv sample_config ''v1.30.14'' False) = False" by code_simp
  then obtain cfg where cfg: "BuildUpgradeStepConfig sample_uenv sample_config ''v1.30.14'' False = Inr cfg"
    by (cases "BuildUpgradeStepConfig sample_uenv sample_config ''v1.30.14'' False") auto
  define vars where "vars = [(''etcd'', VMap [(''etcd_version'', VStr ''v3.5.15'')]),
      (''cri'', VMap [(''container_manager'', VStr ''docker'')])]"
  have "MinorOfVersion ''v1.30.14'' = Inr 30" by code_simp
  moreover have "minorVars sample_uenv 30 = Inr vars"
    by (simp add: minorVars_def sample_uenv_def vars_def)
  moreover have "wf_vars sample_config" "wf_vars vars"
    by (simp_all add: wf_vars_def sample_config_def vars_def)
  ultimately have spec: "get_path cfg kube_version_path = Some (VStr ''v1.30.14'') \<and>
    (\<forall>p v. \<not> False \<longrightarrow> p \<in> set upgradeVersionFieldPaths \<longrightarrow> get_path vars p = Some v \<longrightarrow>
       \<not> is_map v \<longrightarrow> get_path cfg p = Some v) \<and>
    (\<forall>q. q \<parallel> kube_version_path \<longrightarrow>
       False \<or> (\<forall>p\<in>set upgradeVersionFieldPaths. q \<parallel> p) \<longrightarrow>
       get_path cfg q = get_path sample_config q)"
    using BuildUpgradeStepConfig_spec [OF sample_accessors _ cfg, of 30 vars] by blast
  have kv: "get_path cfg kube_version_path = Some (VStr ''v1.30.14'')" using spec by blast
  have "[''etcd'', ''etcd_version''] \<in> set upgradeVersionFieldPaths"
    by (simp add: upgradeVersionFieldPaths_def)
  moreover have "get_path vars [''etcd'', ''etcd_version''] = Some (VStr ''v3.5.15'')"
    by (simp add: vars_def)
  ultimately have etcd: "get_path cfg [''etcd'', ''etcd_version''] = Some (VStr ''v3.5.15'')"
    using spec by fastforce
  have "[''cri'', ''container_manager''] \<parallel> kube_version_path"
    "\<forall>p\<in>set upgradeVersionFieldPaths. [''cri'', ''container_manager''] \<parallel> p"
    by (simp_all add: upgradeVersionFieldPaths_def kube_version_path_def parallel_def)
  then have "get_path cfg [''cri'', ''container_manager''] = get_path sample_config [''cri'', ''container_manager'']"
    using spec by blast
  then have "get_path cfg [''cri'', ''container_manager''] = Some (VStr ''containerd'')"
    by (simp add: sample_config_def)
  then show ?thesis using kv etcd cfg unfolding kube_version_path_def by blast
qed

subsection \<open>Validation of pinned versions\<close>

lemma hop_problems_ConsE:
  assumes "hop_problems U p tv (h # hops) acc = Inr pr"
  obtains acc' where "hop_problems U p tv hops acc' = Inr pr" "set acc \<subseteq> set acc'"
proof -
  obtain minor where m: "MinorOfVersion h = Inr minor" using assms by (cases "MinorOfVersion h") auto
  obtain ov where ov: "UpgradeVersionOverlay U minor = Inr ov"
    using assms m by (cases "UpgradeVersionOverlay U minor") auto
  obtain f where f: "NestedString U ov p = Inr f" using assms m ov by (cases "NestedString U ov p") auto
  define hv where "hv = (case f of None \<Rightarrow> [] | Some v \<Rightarrow> v)"
  have "hop_problems U p tv hops
      (if hv \<noteq> [] \<and> compareVersionNumbers U tv hv < 0 then acc @ [p] else acc) = Inr pr"
    using assms m ov f by (simp add: Let_def hv_def)
  then show thesis by (rule that) auto
qed

lemma hop_problems_grow:
  "hop_problems U p tv hops acc = Inr problems \<Longrightarrow> set acc \<subseteq> set problems"
  by (induction hops arbitrary: acc) (simp, blast elim: hop_problems_ConsE)

lemma field_problems_ConsE:
  assumes "field_problems U base hops (p # ps) acc = Inr pr"
  obtains acc' where "field_problems U base hops ps acc' = Inr pr" "set acc \<subseteq> set acc'"
    "\<And>tv. NestedString U base p = Inr (Some tv) \<Longrightarrow> tv \<noteq> [] \<Longrightarrow> hop_problems U p tv hops acc = Inr acc'"
proof -
  obtain f where f: "NestedString U base p = Inr f" using assms by (cases "NestedString U base p") auto
  define tv where "tv = (case f of None \<Rightarrow> [] | Some v \<Rightarrow> v)"
  show thesis
  proof (cases "tv = []")
    case True
    then show ?thesis using assms f by (intro that [of acc]) (auto simp: Let_def tv_def)
  next
    case False
    then obtain acc' where "hop_problems U p tv hops acc = Inr acc'" "field_problems U base hops ps acc' = Inr pr"
      using assms f by (auto simp: Let_def tv_def bind_res_Inr_conv)
    then show ?thesis using f hop_problems_grow by (intro that [of acc']) (auto simp: tv_def)
  qed
qed

lemma field_problems_grow:
  "field_problems U base hops ps acc = Inr problems \<Longrightarrow> set acc \<subseteq> set problems"
  by (induction ps arbitrary: acc) (simp, blast elim: field_problems_ConsE)

lemma hop_problems_ok:
  assumes "hop_problems U p tv hops acc = Inr []" "hop \<in> set hops"
    and "MinorOfVersion hop = Inr minor" "UpgradeVersionOverlay U minor = Inr overlay"
    and "NestedString U overlay p = Inr (Some hv)" "hv \<noteq> []"
  shows "0 \<le> compareVersionNumbers U tv hv"
  using assms(1,2)
proof (induction hops arbitrary: acc)
  case (Cons h hops)
  show ?case
  proof (cases "hop = h")
    case True
    then have "hop_problems U p tv hops
        (if compareVersionNumbers U tv hv < 0 then acc @ [p] else acc) = Inr []"
      using Cons.prems(1) assms(3-6) by (simp add: Let_def)
    from hop_problems_grow [OF this] show ?thesis by (auto split: if_splits)
  next
    case False
    obtain acc' where "hop_problems U p tv hops acc' = Inr []"
      using hop_problems_ConsE [OF Cons.prems(1)] by metis
    then show ?thesis using Cons.IH Cons.prems(2) False by auto
  qed
qed simp

lemma field_problems_ok:
  assumes "field_problems U base hops ps acc = Inr []" "p \<in> set ps"
    and "NestedString U base p = Inr (Some tv)" "tv \<noteq> []"
  shows "\<exists>acc'. hop_problems U p tv hops acc' = Inr []"
  using assms(1,2)
proof (induction ps arbitrary: acc)
  case (Cons q ps)
  show ?case
  proof (cases "p = q")
    case True
    then obtain pr where "hop_problems U p tv hops acc = Inr pr" "field_problems U base hops ps pr = Inr []"
      using field_problems_ConsE [OF Cons.prems(1)] assms(3,4) by metis
    with field_problems_grow [OF this(2)] show ?thesis by auto
  next
    case False
    obtain acc' where "field_problems U base hops ps acc' = Inr []"
      using field_problems_ConsE [OF Cons.prems(1)] by metis
    then show ?thesis using Cons.IH Cons.prems(2) False by auto
  qed
qed simp

text \<open>
  Claim C29. Validation protects components from being rolled back. When the pinned versions of
  a terminal configuration pass the check for a list of steps, then for every intermediate
  step and every allow-listed component whose version is a string in both the configuration of
  that step and the configuration of the last step, the version of the last step is not lower,
  as the semantic-version library orders versions.
\<close>

theorem ValidateTerminalVersions_sound:
  assumes "accessors_ok U" "wf_vars base" "\<And>s. compareVersionNumbers U s s = 0"
    and "ValidateTerminalVersions U base steps = None" "hop \<in> set (butlast steps)"
    and "BuildUpgradeStepConfig U base hop False = Inr cfg"
    and "\<And>minor vars. minorVars U minor = Inr vars \<Longrightarrow> wf_vars vars"
    and "BuildUpgradeStepConfig U base (last steps) True = Inr final"
    and "p \<in> set upgradeVersionFieldPaths"
    and "get_path final p = Some (VStr tv)" "tv \<noteq> []" "get_path cfg p = Some (VStr hv)" "hv \<noteq> []"
  shows "0 \<le> compareVersionNumbers U tv hv"
proof -
  have par: "kube_version_path \<parallel> p" "apart upgradeVersionFieldPaths"
    using paths_apart assms(9) by (auto simp: list_all_iff)
  obtain c where c: "SetNestedField U base (VStr hop) kube_version_path = Inr c"
    using assms(6) by (auto simp: BuildUpgradeStepConfig_def split: sum.splits)
  obtain minor vars ov where m: "MinorOfVersion hop = Inr minor" "minorVars U minor = Inr vars"
      and o: "overlay_loop U vars upgradeVersionFieldPaths [] = Inr ov" "cfg = combineConfigMaps c ov"
    using assms(6) c
    by (auto simp: BuildUpgradeStepConfig_def UpgradeVersionOverlay_def bind_res_Inr_conv)
  have wf: "wf_vars vars" by (rule assms(7) [OF m(2)])
  have tv: "get_path base p = Some (VStr tv)"
    using assms(8,10) accessors_set(3) [OF assms(1) _ assms(2), of "VStr (last steps)" kube_version_path _ p] par(1)
    by (auto simp: BuildUpgradeStepConfig_def parallel_commute split: sum.splits)
  have cp: "get_path c p = Some (VStr tv)"
    using accessors_set(3) [OF assms(1) c assms(2), of p] par(1) tv by (simp add: parallel_commute)
  have wov: "wf_vars ov"
    using overlay_loop_frame [OF assms(1) wf o(1), of kube_version_path] paths_apart by (simp add: list_all_iff)
  show ?thesis
  proof (cases "get_path vars p")
    case None
    have "\<forall>q\<in>set upgradeVersionFieldPaths. p \<parallel> q \<or> get_path vars q = None"
      using None apart_pairwise [OF par(2) assms(9)] by metis
    moreover have "p \<noteq> []" using par(1) by (auto simp: parallel_def)
    ultimately have "silent ov p"
      using overlay_loop_frame [OF assms(1) wf o(1), of p] by simp
    then show ?thesis using cfg.path_frame [OF wov] cp assms(3,12) o(2) by simp
  next
    case (Some v)
    have ov: "get_path ov p = Some v"
      using overlay_loop_gives [OF assms(1) wf o(1) _ par(2) assms(9) Some] by simp
    have "\<not> is_map v" using cfg.path_map [OF wov ov, of c] assms(12) o(2) by auto
    from cfg.path_override [OF wov ov this, of c] have "v = VStr hv" using assms(12) o(2) by simp
    then have hv: "NestedString U ov p = Inr (Some hv)"
      using ov assms(1) by (simp add: accessors_ok_def)
    have "1 < length steps" using assms(5) by (cases steps rule: rev_cases) auto
    then have "field_problems U base (butlast steps) upgradeVersionFieldPaths [] = Inr []"
      using assms(4) by (auto simp: ValidateTerminalVersions_def split: sum.splits if_splits)
    moreover have "NestedString U base p = Inr (Some tv)"
      using tv assms(1) by (simp add: accessors_ok_def)
    ultimately obtain acc where "hop_problems U p tv (butlast steps) acc = Inr []"
      using field_problems_ok assms(9,11) by metis
    moreover have "UpgradeVersionOverlay U minor = Inr ov"
      by (simp add: UpgradeVersionOverlay_def m(2) o(1))
    ultimately show ?thesis
      using hop_problems_ok [OF _ assms(5) m(1) _ hv assms(13)] by blast
  qed
qed

lemma compareStrings_refl: "compareStrings s s = 0"
  by (induction s) simp_all

theorem ValidateTerminalVersions_sound_witness:
  "ValidateTerminalVersions sample_uenv sample_config [''v1.30.14'', ''v1.32.9''] = None \<and>
   0 \<le> compareVersionNumbers sample_uenv ''v3.6.5'' ''v3.5.15''"
proof -
  let ?step = "\<lambda>v f. BuildUpgradeStepConfig sample_uenv sample_config v f"
  let ?p = "[''etcd'', ''etcd_version'']"
  have valid: "ValidateTerminalVersions sample_uenv sample_config [''v1.30.14'', ''v1.32.9''] = None"
    by code_simp
  have "\<not> isl (?step ''v1.30.14'' False)" "\<not> isl (?step ''v1.32.9'' True)" by code_simp+
  then obtain cfg final where cfg: "?step ''v1.30.14'' False = Inr cfg" "?step ''v1.32.9'' True = Inr final"
    by (metis sum.collapse(2))
  have "get_path (projr (?step ''v1.30.14'' False)) ?p = Some (VStr ''v3.5.15'')"
    "get_path (projr (?step ''v1.32.9'' True)) ?p = Some (VStr ''v3.6.5'')" by code_simp+
  then have vals: "get_path cfg ?p = Some (VStr ''v3.5.15'')" "get_path final ?p = Some (VStr ''v3.6.5'')"
    by (simp_all only: cfg sum.sel)
  have wf: "wf_vars sample_config" by (simp add: wf_vars_def sample_config_def)
  have cmp: "compareVersionNumbers sample_uenv s s = 0" for s
    by (simp add: compareVersionNumbers_def sample_uenv_def compareStrings_refl)
  have vars: "wf_vars vars" if "minorVars sample_uenv minor = Inr vars" for minor vars
    using that by (auto simp: minorVars_def sample_uenv_def wf_vars_def)
  have hop: "''v1.30.14'' \<in> set (butlast [''v1.30.14'', ''v1.32.9''])" by simp
  have p: "?p \<in> set upgradeVersionFieldPaths" by (simp add: upgradeVersionFieldPaths_def)
  have "?step (last [''v1.30.14'', ''v1.32.9'']) True = Inr final" using cfg(2) by simp
  from ValidateTerminalVersions_sound [OF sample_accessors wf cmp valid hop cfg(1) vars this p vals(2) _ vals(1)]
  show ?thesis using valid by simp
qed

subsection \<open>Which entry of the upgrade path counts\<close>

lemma path_of_keys_spec:
  assumes "path_of_keys m ks acc = Inr path"
  shows "(\<forall>k\<in>set ks. \<exists>n. parseMinor k = Inr n) \<and>
    (\<forall>n. map_of path n =
       (case filter (\<lambda>k. parseMinor k = Inr n) ks of
          [] \<Rightarrow> map_of acc n
        | k # ks' \<Rightarrow> Some (case get m (last (k # ks')) of None \<Rightarrow> [] | Some p \<Rightarrow> p)))"
  using assms
proof (induction ks arbitrary: acc)
  case (Cons k ks)
  obtain n where n: "parseMinor k = Inr n" using Cons.prems by (cases "parseMinor k") auto
  let ?acc = "AList.update n (case get m k of None \<Rightarrow> [] | Some patch \<Rightarrow> patch) acc"
  have "path_of_keys m ks ?acc = Inr path" using Cons.prems n by simp
  from Cons.IH [OF this] n show ?case
    by (auto simp: update_conv' split: list.split)
qed simp

lemma get_fill_default:
  "get (fill_default def cur) k =
    (case get cur k of
       Some p \<Rightarrow> Some p
     | None \<Rightarrow> map_of (map (\<lambda>(n, p). (minor_key n, p)) def) k)"
proof (induction "def" arbitrary: cur)
  case Nil
  then show ?case by (simp add: fill_default_def split: option.split)
next
  case (Cons np "def")
  obtain n p where np: "np = (n, p)" by (cases np) auto
  have step: "fill_default (np # def) cur =
      fill_default def (if get cur (minor_key n) = None then put (minor_key n) p cur else cur)"
    by (simp add: fill_default_def np)
  show ?case
    by (cases "minor_key n = k") (simp_all add: step [unfolded np] Cons.IH np split: option.split)
qed

text \<open>What \<^verbatim>\<open>unstructured\<close> documents for maps of strings: a copy of the map that was set is
  read back.\<close>

definition string_maps_ok :: "uenv \<Rightarrow> bool" where
  "string_maps_ok U \<longleftrightarrow>
     (\<forall>cfg m p cfg'. SetNestedStringMap U cfg m p = Inr cfg' \<longrightarrow>
        (\<exists>m'. NestedStringMap U cfg' p = Inr (Some m') \<and> map_of m' = map_of m \<and> wf_map m'))"

lemma filter_single:
  "distinct ks \<Longrightarrow> (\<And>k. k \<in> set ks \<Longrightarrow> P k \<Longrightarrow> k = a) \<Longrightarrow>
   filter P ks = (if a \<in> set ks \<and> P a then [a] else [])"
  by (induction ks) (auto simp: filter_empty_conv)

lemma minor_key_inj:
  "0 \<le> n \<Longrightarrow> n < 2 ^ 63 \<Longrightarrow> 0 \<le> n' \<Longrightarrow> n' < 2 ^ 63 \<Longrightarrow> minor_key n = minor_key n' \<Longrightarrow> n = n'"
  using version_parts_key [of n] version_parts_key [of n'] itoa_digits [of "nat n"] itoa_digits [of "nat n'"]
  by (simp add: Itoa_nat)

lemma map_of_minor_keys:
  assumes "\<forall>m\<in>fst ` set def. 0 \<le> m \<and> m < 2 ^ 63" "0 \<le> n" "n < 2 ^ 63"
  shows "map_of (map (\<lambda>(m, p). (minor_key m, p)) def) (minor_key n) = map_of def n"
  using assms(1)
proof (induction "def")
  case (Cons mp "def")
  then show ?case using minor_key_inj [OF _ _ assms(2,3)] by (cases mp) auto
qed simp

text \<open>
  Overriding the upgrade path. After the defaults are filled in, the effective entry of
  a minor is the user's when the user gave one under the canonical key (\<^verbatim>\<open>v1.30\<close>), and the
  default otherwise, provided that no other key of the user reads as the same minor.
\<close>

theorem EffectiveKubeUpgradePath_override:
  assumes "string_maps_ok U" "NestedStringMap U cfg path_field = Inr (Some cur)"
    and "MergeKubeUpgradePathDefaults U cfg def = Inr cfg'"
    and "EffectiveKubeUpgradePath U cfg' = Inr path"
    and "\<forall>m\<in>fst ` set def. 0 \<le> m \<and> m < 2 ^ 63" "0 \<le> n" "n < 2 ^ 63"
    and "\<forall>k\<in>fst ` set cur. parseMinor k = Inr n \<longrightarrow> k = minor_key n"
  shows "map_of path n = (case get cur (minor_key n) of Some p \<Rightarrow> Some p | None \<Rightarrow> map_of def n)"
proof -
  let ?merged = "fill_default def cur"
  have "SetNestedStringMap U cfg ?merged path_field = Inr cfg'"
    using assms(2,3) by (simp add: MergeKubeUpgradePathDefaults_def split: sum.splits)
  then obtain m where m: "NestedStringMap U cfg' path_field = Inr (Some m)" "get m = get ?merged" "wf_map m"
    using assms(1) unfolding string_maps_ok_def by blast
  let ?ks = "range_keys (urange U) m"
  have run: "path_of_keys m ?ks [] = Inr path"
    using assms(4) m(1) by (simp add: EffectiveKubeUpgradePath_def)
  have only: "k = minor_key n" if "k \<in> set ?ks" "parseMinor k = Inr n" for k
  proof (cases "k \<in> fst ` set cur")
    case True
    then show ?thesis using assms(8) that(2) by blast
  next
    case False
    then have "get cur k = None" by (simp add: get_None_iff)
    moreover have "get ?merged k \<noteq> None" using that(1) m(2) by (simp add: get_None_iff flip: m(2))
    ultimately obtain p where "map_of (map (\<lambda>(m, p). (minor_key m, p)) def) k = Some p"
      by (auto simp: get_fill_default)
    from map_of_SomeD [OF this] obtain j where "j \<in> fst ` set def" "k = minor_key j" by force
    then show ?thesis using minor_key_parse assms(5) that(2) by fastforce
  qed
  have key: "minor_key n \<in> set ?ks \<longleftrightarrow> get ?merged (minor_key n) \<noteq> None"
    using get_None_iff [of m "minor_key n"] m(2) by simp
  have filt: "filter (\<lambda>k. parseMinor k = Inr n) ?ks = (if minor_key n \<in> set ?ks then [minor_key n] else [])"
    using filter_single [of ?ks "\<lambda>k. parseMinor k = Inr n" "minor_key n"] only
      distinct_range_keys [OF m(3)] minor_key_parse [OF assms(6,7)] by simp
  have path: "map_of path n =
      (case filter (\<lambda>k. parseMinor k = Inr n) ?ks of
         [] \<Rightarrow> map_of [] n
       | k # ks' \<Rightarrow> Some (case get m (last (k # ks')) of None \<Rightarrow> [] | Some p \<Rightarrow> p))"
    using path_of_keys_spec [OF run] by blast
  have "map_of path n = (if minor_key n \<in> set ?ks then get m (minor_key n) else None)"
  proof (cases "minor_key n \<in> set ?ks")
    case True
    then obtain p where "get m (minor_key n) = Some p" using key m(2) by auto
    then show ?thesis using True by (simp only: path filt if_True list.case) simp
  next
    case False
    then show ?thesis by (simp only: path filt if_False list.case map_of.simps)
  qed
  also have "\<dots> = get ?merged (minor_key n)" unfolding key m(2) by (cases "get ?merged (minor_key n)") simp_all
  also have "\<dots> = (case get cur (minor_key n) of Some p \<Rightarrow> Some p | None \<Rightarrow> map_of def n)"
    by (simp add: get_fill_default map_of_minor_keys [OF assms(5-7)] split: option.split)
  finally show ?thesis .
qed

definition alias_config :: "val gomap" where
  "alias_config =
     [(''cluster_require'', VMap [(''kube_upgrade_path'', VMap [(''1.30'', VStr ''v1.30.5'')])])]"

text \<open>An accessor that stores string maps as they are, on one field.\<close>

definition map_uenv :: uenv where
  "map_uenv = sample_uenv
     \<lparr>NestedStringMap := (\<lambda>m p. Inr (Some (case get m ''p'' of Some (VMap sm) \<Rightarrow>
          map (\<lambda>(k, v). (k, case v of VStr s \<Rightarrow> s | _ \<Rightarrow> [])) sm | _ \<Rightarrow> []))),
      SetNestedStringMap := (\<lambda>m sm p. if wf_map sm
          then Inr [(''p'', VMap (map (\<lambda>(k, s). (k, VStr s)) sm))] else Inl ''duplicate key'')\<rparr>"

lemma map_uenv_ok: "string_maps_ok map_uenv"
proof -
  have id: "map (\<lambda>(k, v). (k, case v of VStr s \<Rightarrow> s | _ \<Rightarrow> [])) (map (\<lambda>(k, s). (k, VStr s)) sm) = sm"
    for sm :: "string gomap" by (induction sm) auto
  then show ?thesis by (auto simp: string_maps_ok_def map_uenv_def comp_def split: if_splits)
qed

theorem EffectiveKubeUpgradePath_override_witness:
  "\<exists>cfg' path. MergeKubeUpgradePathDefaults map_uenv [(''p'', VMap [(''v1.30'', VStr ''v1.30.5'')])]
       [(30, ''v1.30.14''), (31, ''v1.31.13'')] = Inr cfg' \<and>
     EffectiveKubeUpgradePath map_uenv cfg' = Inr path \<and> map_of path 30 = Some ''v1.30.5'' \<and>
     map_of path 31 = Some ''v1.31.13''"
proof -
  let ?cfg = "[(''p'', VMap [(''v1.30'', VStr ''v1.30.5'')])]"
  let ?def = "[(30, ''v1.30.14''), (31, ''v1.31.13'')] :: KubeUpgradePath"
  let ?merge = "MergeKubeUpgradePathDefaults map_uenv ?cfg ?def"
  have "\<not> isl ?merge" "\<not> isl (EffectiveKubeUpgradePath map_uenv (projr ?merge))" by code_simp+
  then obtain cfg' path where c: "?merge = Inr cfg'" "EffectiveKubeUpgradePath map_uenv cfg' = Inr path"
    by (metis sum.collapse(2) sum.sel(2))
  have cur: "NestedStringMap map_uenv ?cfg path_field = Inr (Some [(''v1.30'', ''v1.30.5'')])"
    by (simp add: map_uenv_def)
  have keys: "minor_key 30 = ''v1.30''" "minor_key 31 = ''v1.31''"
    "parseMinor ''v1.30'' = Inr 30" by code_simp+
  have "map_of path 30 = Some ''v1.30.5''" "map_of path 31 = Some ''v1.31.13''"
    using EffectiveKubeUpgradePath_override [OF map_uenv_ok cur c, of 30]
      EffectiveKubeUpgradePath_override [OF map_uenv_ok cur c, of 31] keys by simp_all
  with c show ?thesis by blast
qed

text \<open>
  A key that is read but not canonical does not override. A user who writes the minor
  without its \<^verbatim>\<open>v\<close> adds a second entry beside the default, and which of the two counts depends
  on the order in which Go visits the map.
\<close>

theorem EffectiveKubeUpgradePath_order_dependent:
  "let run = (\<lambda>U. bind_res (bind_res
       (MergeKubeUpgradePathDefaults U alias_config [(30, ''v1.30.14'')])
       (EffectiveKubeUpgradePath U)) (\<lambda>path. Inr (map_of path 30)))
   in run sample_uenv = Inr (Some ''v1.30.14'') \<and> run (sample_uenv\<lparr>urange := rev\<rparr>) = Inr (Some ''v1.30.5'')"
  by code_simp

end
