(* ===== verification/Swagger.thy ===== *)
theory Swagger
  imports Prelude
begin

text \<open>
  The API documentation page. The script \<^verbatim>\<open>config/swagger-ui/swagger-initializer.js\<close> runs in the
  page \<^verbatim>\<open>config/swagger-ui/index.html\<close>, after the two scripts of the Swagger UI distribution; the
  page, its scripts and the document it shows are answers of the web service of
  \<^verbatim>\<open>pkg/web/service.go\<close>. The model has three layers: \<open>serve\<close> answers a path
  (\<^verbatim>\<open>NewSwaggerUIService\<close>, \<^verbatim>\<open>NewAPIService\<close> and \<^verbatim>\<open>NewUIService\<close> behind the dispatch by
  root path), \<open>loadPage\<close> builds the elements of the page in a window, fetches and runs its
  scripts and fires the load event, and \<open>visit\<close> follows redirects to what a visitor of a path
  sees. Two things are not under \<^verbatim>\<open>src\<close> in readable form or not in the repository at all and are
  parameters: the Swagger UI distribution (\<open>uilib\<close>), whose documented contract is
  \<open>swagger_ui_contract\<close>, and the directory of the web interface that the operator names on the
  command line (\<open>assets\<close>: the scripts found there).
\<close>

subsection \<open>The script \<^verbatim>\<open>swagger-initializer.js\<close>\<close>

record 'p SwaggerConfig =
  url :: string
  dom_id :: string
  deepLinking :: bool
  presets :: "'p list"
  plugins :: "'p list"
  layout :: string

text \<open>The function \<^verbatim>\<open>SwaggerUIBundle\<close> with its properties. What it does depends on the elements
  that the page has.\<close>

record ('p, 'ui) uibundle =
  bundle_call :: "string list \<Rightarrow> 'p SwaggerConfig \<Rightarrow> 'ui"
  presets_apis :: 'p
  plugins_DownloadUrl :: 'p

datatype handler = InitializeUI

record ('p, 'ui) window =
  elements :: "string list"
  SwaggerUIBundle :: "('p, 'ui) uibundle option"
  SwaggerUIStandalonePreset :: "'p option"
  onload :: "handler option"
  ui :: "'ui option"

datatype js_error = ReferenceError string

definition initial_config :: "('p, 'ui) uibundle \<Rightarrow> 'p \<Rightarrow> 'p SwaggerConfig" where
  "initial_config b standalone =
     \<lparr>url = ''/apidocs.json'', dom_id = ''#swagger-ui'', deepLinking = True,
      presets = [presets_apis b, standalone], plugins = [plugins_DownloadUrl b],
      layout = ''StandaloneLayout''\<rparr>"

text \<open>Reading a global that no script has defined is a reference error. The callee is
  evaluated before its argument.\<close>

definition initializeUI :: "('p, 'ui) window \<Rightarrow> js_error + ('p, 'ui) window" where
  "initializeUI w =
     (case SwaggerUIBundle w of
        None \<Rightarrow> Inl (ReferenceError ''SwaggerUIBundle'')
      | Some b \<Rightarrow>
          (case SwaggerUIStandalonePreset w of
             None \<Rightarrow> Inl (ReferenceError ''SwaggerUIStandalonePreset'')
           | Some standalone \<Rightarrow>
               Inr (w\<lparr>ui := Some (bundle_call b (elements w) (initial_config b standalone))\<rparr>)))"

definition swagger_initializer :: "('p, 'ui) window \<Rightarrow> ('p, 'ui) window" where
  "swagger_initializer w = w\<lparr>onload := Some InitializeUI\<rparr>"

definition fire_load :: "('p, 'ui) window \<Rightarrow> js_error + ('p, 'ui) window" where
  "fire_load w = (case onload w of None \<Rightarrow> Inr w | Some InitializeUI \<Rightarrow> initializeUI w)"

subsection \<open>The web service\<close>

definition SwaggerAPIPath :: string where "SwaggerAPIPath = ''/swagger-ui/''"

definition CoreAPIPath :: string where "CoreAPIPath = ''/kapis/''"

definition ResourcesAPIPath :: string where "ResourcesAPIPath = ''/resources/''"

definition APIPath :: string where "APIPath = ''/apidocs.json''"

text \<open>The files that \<^verbatim>\<open>go:embed swagger-ui\<close> puts into the binary. They lie in one directory.\<close>

definition swaggerFiles :: "string list" where
  "swaggerFiles =
     [''favicon-16x16.png'', ''favicon-32x32.png'', ''index.css'', ''index.html'',
      ''oauth2-redirect.html'', ''swagger-initializer.js'', ''swagger-ui-bundle.js'',
      ''swagger-ui-bundle.js.map'', ''swagger-ui-es-bundle-core.js'',
      ''swagger-ui-es-bundle-core.js.map'', ''swagger-ui-es-bundle.js'',
      ''swagger-ui-es-bundle.js.map'', ''swagger-ui-standalone-preset.js'',
      ''swagger-ui-standalone-preset.js.map'', ''swagger-ui.css'', ''swagger-ui.css.map'',
      ''swagger-ui.js'', ''swagger-ui.js.map'']"

datatype answer =
    Embedded string
  | OpenAPI
  | Asset string
  | WebUI
  | Redirect string
  | NotFound
  | ServerError
  | OtherService

text \<open>\<^verbatim>\<open>http.StripPrefix\<close> answers 404 to a path without the prefix.\<close>

definition StripPrefix :: "string \<Rightarrow> string \<Rightarrow> string option" where
  "StripPrefix p path = (if HasPrefix path p then Some (drop (length p) path) else None)"

definition clean_names :: "string \<Rightarrow> string list" where
  "clean_names p =
     foldl (\<lambda>out s. if s = ''..'' then butlast out else out @ [s]) []
       (filter (\<lambda>s. s \<noteq> [] \<and> s \<noteq> ''.'') (Split (CHR ''/'') p))"

text \<open>
  \<^verbatim>\<open>http.FileServer\<close> over one directory: a path that ends in \<^verbatim>\<open>/index.html\<close> is redirected to the
  directory, the directory is answered with its index file, a path that misses or has a final
  slash against the kind of the file is redirected, and the rest is not found.
\<close>

definition fileServer :: "string list \<Rightarrow> string \<Rightarrow> answer" where
  "fileServer files path =
     (let upath = (if HasPrefix path ''/'' then path else CHR ''/'' # path);
          base = last (Split (CHR ''/'') upath);
          named = filter (\<lambda>s. s \<noteq> []) (Split (CHR ''/'') upath)
      in if HasSuffix upath ''/index.html'' then Redirect ''./''
         else
           (case clean_names upath of
              [] \<Rightarrow> (if base \<noteq> [] then Redirect (base @ ''/'')
                    else if ''index.html'' \<in> set files then Embedded ''index.html'' else NotFound)
            | [name] \<Rightarrow>
                (if name \<notin> set files then NotFound
                 else if base = [] \<and> last named = ''.'' then ServerError
                 else if base = [] then Redirect (''../'' @ last named)
                 else Embedded name)
            | _ \<Rightarrow> NotFound))"

definition NewSwaggerUIService :: "string \<Rightarrow> answer" where
  "NewSwaggerUIService path =
     (if path = TrimRight (CHR ''/'') SwaggerAPIPath then Embedded ''index.html''
      else
        (case StripPrefix ''/swagger-ui/'' path of
           None \<Rightarrow> NotFound
         | Some upath \<Rightarrow> fileServer swaggerFiles upath))"

definition NewUIService :: "(string \<Rightarrow> bool) \<Rightarrow> string \<Rightarrow> answer" where
  "NewUIService present path =
     (let requestedPath = TrimPrefix path ''/''
      in if requestedPath = [] then (if present ''index.html'' then WebUI else NotFound)
         else if HasPrefix requestedPath ''kapis/'' \<or> HasPrefix requestedPath ''swagger-ui/'' \<or>
                 HasPrefix requestedPath ''resources/'' then NotFound
         else if CHR ''.'' \<in> set requestedPath then
           (if HasSuffix path ''/index.html'' then Redirect ''./''
            else if present requestedPath then Asset requestedPath else NotFound)
         else if present ''index.html'' then WebUI else NotFound)"

text \<open>
  The container picks the service whose root path has the most leading segments of the request
  (\<^verbatim>\<open>pkg/manager/web_manager.go\<close>). The services besides the three of this theory own their roots.
\<close>

definition under :: "string \<Rightarrow> string \<Rightarrow> bool" where
  "under root path = (path = root \<or> HasPrefix path (root @ ''/''))"

definition serve :: "(string \<Rightarrow> bool) \<Rightarrow> string \<Rightarrow> answer" where
  "serve present path =
     (if under ''/swagger-ui'' path then NewSwaggerUIService path
      else if path = APIPath then OpenAPI
      else if under ''/healthz'' path \<or> under ''/readyz'' path \<or> under ''/resources'' path \<or>
              under ''/kapis/kubekey.kubesphere.io/v1'' path \<or> under APIPath path then OtherService
      else NewUIService present path)"

subsection \<open>The page and its visitor\<close>

datatype element = Div string | Script string

definition index_html :: "element list" where
  "index_html =
     [Div ''swagger-ui'', Script ''./swagger-ui-bundle.js'',
      Script ''./swagger-ui-standalone-preset.js'', Script ''./swagger-initializer.js'']"

text \<open>
  The distribution: the values its two scripts define, and what a user interface it made shows:
  the element that holds it and the address of its document.
\<close>

record ('p, 'ui) uilib =
  the_bundle :: "('p, 'ui) uibundle"
  standalone_preset :: 'p
  renders :: "'ui \<Rightarrow> (string \<times> string) option"

text \<open>
  The documented contract: a user interface is put into the element that \<^verbatim>\<open>dom_id\<close> selects and
  shows the document at \<^verbatim>\<open>url\<close>, provided that the element exists, the preset of the API
  components is among the presets, and the layout is one that a preset offers.
\<close>

definition swagger_ui_contract :: "('p, 'ui) uilib \<Rightarrow> bool" where
  "swagger_ui_contract lib =
     (\<forall>els c i. dom_id c = CHR ''#'' # i \<longrightarrow> i \<in> set els \<longrightarrow>
        presets_apis (the_bundle lib) \<in> set (presets c) \<longrightarrow>
        (layout c = ''BaseLayout'' \<or>
         layout c = ''StandaloneLayout'' \<and> standalone_preset lib \<in> set (presets c)) \<longrightarrow>
        renders lib (bundle_call (the_bundle lib) els c) = Some (i, url c))"

text \<open>A browser resolves an address against the path of the page.\<close>

definition dir_of :: "string \<Rightarrow> string" where
  "dir_of page = rev (dropWhile (\<lambda>c. c \<noteq> CHR ''/'') (rev page))"

definition resolve :: "string \<Rightarrow> string \<Rightarrow> string" where
  "resolve page ref =
     (if HasPrefix ref ''/'' then ref
      else if HasPrefix ref ''../'' then dir_of (butlast (dir_of page)) @ drop 3 ref
      else dir_of page @ TrimPrefix ref ''./'')"

type_synonym ('p, 'ui) assets = "string \<Rightarrow> (('p, 'ui) window \<Rightarrow> ('p, 'ui) window) option"

definition runScript ::
  "('p, 'ui) uilib \<Rightarrow> ('p, 'ui) assets \<Rightarrow> answer \<Rightarrow> ('p, 'ui) window \<Rightarrow> ('p, 'ui) window" where
  "runScript lib assets a w =
     (case a of
        Embedded name \<Rightarrow>
          (if name = ''swagger-ui-bundle.js'' then w\<lparr>SwaggerUIBundle := Some (the_bundle lib)\<rparr>
           else if name = ''swagger-ui-standalone-preset.js''
           then w\<lparr>SwaggerUIStandalonePreset := Some (standalone_preset lib)\<rparr>
           else if name = ''swagger-initializer.js'' then swagger_initializer w
           else w)
      | Asset name \<Rightarrow> (case assets name of None \<Rightarrow> w | Some run \<Rightarrow> run w)
      | _ \<Rightarrow> w)"

text \<open>\<open>net\<close> answers the requests of the page; a script that does not arrive defines nothing.\<close>

fun addElement ::
  "('p, 'ui) uilib \<Rightarrow> ('p, 'ui) assets \<Rightarrow> (string \<Rightarrow> answer) \<Rightarrow> string \<Rightarrow> element \<Rightarrow>
   ('p, 'ui) window \<Rightarrow> ('p, 'ui) window" where
  "addElement lib assets net page (Div i) w = w\<lparr>elements := elements w @ [i]\<rparr>"
| "addElement lib assets net page (Script src) w = runScript lib assets (net (resolve page src)) w"

datatype view =
    Blank
  | Broken js_error
  | Documentation string answer
  | Other answer

definition loadPage ::
  "('p, 'ui) uilib \<Rightarrow> ('p, 'ui) assets \<Rightarrow> (string \<Rightarrow> answer) \<Rightarrow> string \<Rightarrow> view" where
  "loadPage lib assets net page =
     (case fire_load
             (fold (addElement lib assets net page) index_html
                \<lparr>elements = [], SwaggerUIBundle = None, SwaggerUIStandalonePreset = None,
                 onload = None, ui = None\<rparr>) of
        Inl e \<Rightarrow> Broken e
      | Inr w \<Rightarrow>
          (case ui w of
             None \<Rightarrow> Blank
           | Some u \<Rightarrow>
               (case renders lib u of
                  None \<Rightarrow> Blank
                | Some (i, address) \<Rightarrow> Documentation i (net (resolve page address)))))"

text \<open>A browser gives up after twenty redirects.\<close>

fun follow :: "nat \<Rightarrow> (string \<Rightarrow> answer) \<Rightarrow> string \<Rightarrow> string \<times> answer" where
  "follow 0 net path = (path, net path)"
| "follow (Suc n) net path =
     (case net path of Redirect to \<Rightarrow> follow n net (resolve path to) | a \<Rightarrow> (path, a))"

definition visit :: "('p, 'ui) uilib \<Rightarrow> ('p, 'ui) assets \<Rightarrow> (string \<Rightarrow> answer) \<Rightarrow> string \<Rightarrow> view" where
  "visit lib assets net path =
     (case follow 20 net path of
        (page, Embedded name) \<Rightarrow>
          (if name = ''index.html'' then loadPage lib assets net page else Other (Embedded name))
      | (_, a) \<Rightarrow> Other a)"

abbreviation site :: "('p, 'ui) assets \<Rightarrow> string \<Rightarrow> answer" where
  "site assets \<equiv> serve (\<lambda>f. assets f \<noteq> None)"

subsection \<open>What the service answers below its path\<close>

lemmas string_prefix = HasPrefix_def TrimPrefix_def StripPrefix_def

lemma dir_of_file: "CHR ''/'' \<notin> set f \<Longrightarrow> dir_of (d @ CHR ''/'' # f) = d @ ''/''"
proof -
  assume "CHR ''/'' \<notin> set f"
  then have "dropWhile (\<lambda>c. c \<noteq> CHR ''/'') (rev f @ CHR ''/'' # rev d) = CHR ''/'' # rev d"
    by (subst dropWhile_append2) auto
  then show ?thesis by (simp add: dir_of_def)
qed

lemma index_suffix:
  assumes "CHR ''/'' \<notin> set f"
  shows "HasSuffix (CHR ''/'' # f) ''/index.html'' \<longleftrightarrow> f = ''index.html''"
proof
  assume s: "HasSuffix (CHR ''/'' # f) ''/index.html''"
  then obtain a where a: "CHR ''/'' # f = a @ ''/index.html''"
    unfolding HasSuffix_def by (metis append_take_drop_id)
  then show "f = ''index.html''" using assms by (cases a) auto
qed (simp add: HasSuffix_def)

lemma fileServer_name:
  assumes "CHR ''/'' \<notin> set f" and "f \<noteq> ''.''" and "f \<noteq> ''..''"
  shows "fileServer files f =
     (if f = ''index.html'' then Redirect ''./''
      else if f = [] then (if ''index.html'' \<in> set files then Embedded ''index.html'' else NotFound)
      else if f \<in> set files then Embedded f else NotFound)"
proof -
  have "HasPrefix f ''/'' = False" using assms(1) by (cases f) (auto simp: HasPrefix_def)
  then show ?thesis
    using assms index_suffix [OF assms(1)]
    by (auto simp: fileServer_def Let_def clean_names_def)
qed

lemma serve_swagger:
  assumes "CHR ''/'' \<notin> set f" and "f \<noteq> ''.''" and "f \<noteq> ''..''"
  shows "serve present (''/swagger-ui/'' @ f) =
     (if f = ''index.html'' then Redirect ''./''
      else if f = [] then Embedded ''index.html''
      else if f \<in> set swaggerFiles then Embedded f else NotFound)"
  using fileServer_name [OF assms, of swaggerFiles]
  by (simp add: serve_def under_def NewSwaggerUIService_def string_prefix SwaggerAPIPath_def
      TrimRight_def swaggerFiles_def)

lemma serve_apidocs: "serve present ''/apidocs.json'' = OpenAPI"
  by (simp add: serve_def under_def APIPath_def HasPrefix_def)

subsection \<open>What a visitor sees\<close>

text \<open>The page in its directory, for any network that loses some of the answers.\<close>

definition losing :: "string set \<Rightarrow> (string \<Rightarrow> answer) \<Rightarrow> string \<Rightarrow> answer" where
  "losing lost net p = (if p \<in> lost then NotFound else net p)"

lemma resolve_swagger:
  "resolve ''/swagger-ui/'' ''./swagger-ui-bundle.js'' = ''/swagger-ui/swagger-ui-bundle.js''"
  "resolve ''/swagger-ui/'' ''./swagger-ui-standalone-preset.js'' =
     ''/swagger-ui/swagger-ui-standalone-preset.js''"
  "resolve ''/swagger-ui/'' ''./swagger-initializer.js'' = ''/swagger-ui/swagger-initializer.js''"
  "resolve page ''/apidocs.json'' = ''/apidocs.json''"
  by (simp_all add: resolve_def dir_of_def string_prefix)

lemma site_scripts:
  "serve present ''/swagger-ui/swagger-ui-bundle.js'' = Embedded ''swagger-ui-bundle.js''"
  "serve present ''/swagger-ui/swagger-ui-standalone-preset.js'' =
     Embedded ''swagger-ui-standalone-preset.js''"
  "serve present ''/swagger-ui/swagger-initializer.js'' = Embedded ''swagger-initializer.js''"
  using serve_swagger [of "''swagger-ui-bundle.js''" present]
    serve_swagger [of "''swagger-ui-standalone-preset.js''" present]
    serve_swagger [of "''swagger-initializer.js''" present]
  by (simp_all add: swaggerFiles_def)

text \<open>The configuration of the script meets the terms of the distribution's contract.\<close>

lemma initial_config_renders:
  assumes "swagger_ui_contract lib" and "''swagger-ui'' \<in> set els"
  shows "renders lib (bundle_call (the_bundle lib) els
           (initial_config (the_bundle lib) (standalone_preset lib))) =
         Some (''swagger-ui'', ''/apidocs.json'')"
  using assms by (simp add: swagger_ui_contract_def initial_config_def)

text \<open>The outcome only depends on which of the three scripts defines its part of the window.\<close>

lemma runScript_embedded:
  "runScript lib assets NotFound w = w"
  "runScript lib assets (Embedded ''swagger-ui-bundle.js'') w = w\<lparr>SwaggerUIBundle := Some (the_bundle lib)\<rparr>"
  "runScript lib assets (Embedded ''swagger-ui-standalone-preset.js'') w =
     w\<lparr>SwaggerUIStandalonePreset := Some (standalone_preset lib)\<rparr>"
  "runScript lib assets (Embedded ''swagger-initializer.js'') w = w\<lparr>onload := Some InitializeUI\<rparr>"
  by (simp_all add: runScript_def swagger_initializer_def)

lemma losing_scripts:
  "runScript lib assets (losing lost (serve present) ''/swagger-ui/swagger-ui-bundle.js'') w =
     (if ''/swagger-ui/swagger-ui-bundle.js'' \<in> lost then w
      else w\<lparr>SwaggerUIBundle := Some (the_bundle lib)\<rparr>)"
  "runScript lib assets (losing lost (serve present) ''/swagger-ui/swagger-ui-standalone-preset.js'') w =
     (if ''/swagger-ui/swagger-ui-standalone-preset.js'' \<in> lost then w
      else w\<lparr>SwaggerUIStandalonePreset := Some (standalone_preset lib)\<rparr>)"
  "runScript lib assets (losing lost (serve present) ''/swagger-ui/swagger-initializer.js'') w =
     (if ''/swagger-ui/swagger-initializer.js'' \<in> lost then w
      else w\<lparr>onload := Some InitializeUI\<rparr>)"
  by (simp_all only: losing_def site_scripts runScript_embedded split: if_splits) simp_all

lemma loadPage_losing:
  assumes "swagger_ui_contract lib"
  shows "loadPage lib assets (losing lost (serve present)) ''/swagger-ui/'' =
    (if ''/swagger-ui/swagger-initializer.js'' \<in> lost then Blank
     else if ''/swagger-ui/swagger-ui-bundle.js'' \<in> lost
     then Broken (ReferenceError ''SwaggerUIBundle'')
     else if ''/swagger-ui/swagger-ui-standalone-preset.js'' \<in> lost
     then Broken (ReferenceError ''SwaggerUIStandalonePreset'')
     else Documentation ''swagger-ui'' (if ''/apidocs.json'' \<in> lost then NotFound else OpenAPI))"
proof -
  note r = initial_config_renders [OF assms, of "[''swagger-ui'']"]
  have d: "losing lost (serve present) ''/apidocs.json'' =
      (if ''/apidocs.json'' \<in> lost then NotFound else OpenAPI)"
    by (simp only: losing_def serve_apidocs)
  have e: "fold (addElement lib assets (losing lost (serve present)) ''/swagger-ui/'') index_html w =
      runScript lib assets (losing lost (serve present) ''/swagger-ui/swagger-initializer.js'')
       (runScript lib assets (losing lost (serve present) ''/swagger-ui/swagger-ui-standalone-preset.js'')
         (runScript lib assets (losing lost (serve present) ''/swagger-ui/swagger-ui-bundle.js'')
           (w\<lparr>elements := elements w @ [''swagger-ui'']\<rparr>)))" for w
    by (simp only: index_html_def fold.simps addElement.simps comp_def id_def resolve_swagger)
  show ?thesis
    by (cases "''/swagger-ui/swagger-initializer.js'' \<in> lost";
        cases "''/swagger-ui/swagger-ui-bundle.js'' \<in> lost";
        cases "''/swagger-ui/swagger-ui-standalone-preset.js'' \<in> lost")
      (simp_all add: loadPage_def e losing_scripts fire_load_def initializeUI_def r
        resolve_swagger(4) d)
qed

lemma losing_none: "losing {} net = net"
  by (rule ext) (simp add: losing_def)

lemma follow_page: "(\<And>to. net path \<noteq> Redirect to) \<Longrightarrow> follow n net path = (path, net path)"
  by (cases n) (auto split: answer.splits)

lemma follow_swagger:
  assumes "CHR ''/'' \<notin> set f" and "f \<noteq> ''.''" and "f \<noteq> ''..''"
  shows "follow 20 (serve present) (''/swagger-ui/'' @ f) =
    (if f = [] \<or> f = ''index.html'' then (''/swagger-ui/'', Embedded ''index.html'')
     else (''/swagger-ui/'' @ f, if f \<in> set swaggerFiles then Embedded f else NotFound))"
proof (cases "f = ''index.html''")
  case True
  have "resolve ''/swagger-ui/index.html'' ''./'' = ''/swagger-ui/''"
    by (simp add: resolve_def dir_of_def string_prefix)
  moreover have "follow 19 (serve present) ''/swagger-ui/'' = (''/swagger-ui/'', Embedded ''index.html'')"
    using serve_swagger [of "[]" present] by (simp add: follow_page)
  ultimately show ?thesis
    using True serve_swagger [OF assms, of present] follow.simps(2) [of 19 "serve present"] by simp
next
  case False
  then show ?thesis using serve_swagger [OF assms, of present] by (auto simp: follow_page)
qed

text \<open>
  Claim C39. What a visitor of the documentation directory sees. At \<^verbatim>\<open>/swagger-ui/\<close> and at
  \<^verbatim>\<open>/swagger-ui/index.html\<close> the service's redirect, the page, its three scripts and the load
  event lead to a user interface in the element \<^verbatim>\<open>swagger-ui\<close> of the page, and the document it
  asks for is the one that the API service answers. Every other name in the directory is an
  embedded file, answered as it is, or is not found; none of them shows the documentation.
\<close>

theorem visit_documentation:
  assumes "swagger_ui_contract lib"
    and "CHR ''/'' \<notin> set f" and "f \<noteq> ''.''" and "f \<noteq> ''..''"
  shows "visit lib assets (site assets) (''/swagger-ui/'' @ f) =
    (if f = [] \<or> f = ''index.html'' then Documentation ''swagger-ui'' OpenAPI
     else if f \<in> set swaggerFiles then Other (Embedded f)
     else Other NotFound)"
  using follow_swagger [OF assms(2-4), of "\<lambda>f. assets f \<noteq> None"]
    loadPage_losing [OF assms(1), of assets "{}"]
  by (simp add: visit_def losing_none)

text \<open>A distribution that keeps its contract by looking at the page and at the configuration.\<close>

definition sample_lib :: "(string, (string \<times> string) option) uilib" where
  "sample_lib =
     \<lparr>the_bundle =
        \<lparr>bundle_call = (\<lambda>els c.
           if ''apis'' \<in> set (presets c) \<and> tl (dom_id c) \<in> set els \<and>
              (layout c = ''BaseLayout'' \<or>
               layout c = ''StandaloneLayout'' \<and> ''standalone'' \<in> set (presets c))
           then Some (tl (dom_id c), url c) else None),
         presets_apis = ''apis'', plugins_DownloadUrl = ''download''\<rparr>,
      standalone_preset = ''standalone'', renders = (\<lambda>u. u)\<rparr>"

lemma sample_lib_contract: "swagger_ui_contract sample_lib"
  by (auto simp: swagger_ui_contract_def sample_lib_def)

theorem visit_documentation_witness:
  "visit sample_lib (\<lambda>_. None) (site (\<lambda>_. None)) ''/swagger-ui/index.html'' =
     Documentation ''swagger-ui'' OpenAPI \<and>
   visit sample_lib (\<lambda>_. None) (site (\<lambda>_. None)) ''/swagger-ui/foo'' = Other NotFound"
  using visit_documentation [OF sample_lib_contract, of "''index.html''" "\<lambda>_. None"]
    visit_documentation [OF sample_lib_contract, of "''foo''" "\<lambda>_. None"]
  by (simp add: swaggerFiles_def)

text \<open>
  Claim C40. The page needs each of its scripts, and fails in a different way without each. For
  every set of answers that the network loses: without the initializer nothing happens at the
  load event and the page stays blank; without the bundle, or without the standalone preset,
  the initializer stops at the reference error of that name, the bundle being read first; with
  the three scripts the documentation is shown, and only then is the document asked for.
\<close>

theorem page_needs_every_script:
  assumes "swagger_ui_contract lib"
  shows "loadPage lib assets (losing lost (site assets)) ''/swagger-ui/'' =
    (if ''/swagger-ui/swagger-initializer.js'' \<in> lost then Blank
     else if ''/swagger-ui/swagger-ui-bundle.js'' \<in> lost
     then Broken (ReferenceError ''SwaggerUIBundle'')
     else if ''/swagger-ui/swagger-ui-standalone-preset.js'' \<in> lost
     then Broken (ReferenceError ''SwaggerUIStandalonePreset'')
     else Documentation ''swagger-ui'' (if ''/apidocs.json'' \<in> lost then NotFound else OpenAPI))"
  by (rule loadPage_losing [OF assms])

theorem page_needs_every_script_witness:
  "loadPage sample_lib (\<lambda>_. None)
     (losing {''/swagger-ui/swagger-ui-standalone-preset.js''} (site (\<lambda>_. None))) ''/swagger-ui/'' =
   Broken (ReferenceError ''SwaggerUIStandalonePreset'')"
  using page_needs_every_script [OF sample_lib_contract, of "\<lambda>_. None"
      "{''/swagger-ui/swagger-ui-standalone-preset.js''}"]
  by simp

text \<open>
  The service also answers its own path, without the slash, with the page. There the browser
  looks for the scripts next to \<^verbatim>\<open>/swagger-ui\<close> and not below it: the requests go to the service of
  the web interface, which has no such files, and the page stays blank.
\<close>

lemma visit_without_slash:
  assumes "assets ''swagger-ui-bundle.js'' = None"
    and "assets ''swagger-ui-standalone-preset.js'' = None"
    and "assets ''swagger-initializer.js'' = None"
  shows "visit lib assets (site assets) ''/swagger-ui'' = Blank"
proof -
  have s: "serve present ''/swagger-ui'' = Embedded ''index.html''" for present
    by (simp add: serve_def under_def NewSwaggerUIService_def SwaggerAPIPath_def TrimRight_def)
  have r: "resolve ''/swagger-ui'' ''./swagger-ui-bundle.js'' = ''/swagger-ui-bundle.js''"
    "resolve ''/swagger-ui'' ''./swagger-ui-standalone-preset.js'' = ''/swagger-ui-standalone-preset.js''"
    "resolve ''/swagger-ui'' ''./swagger-initializer.js'' = ''/swagger-initializer.js''"
    by (simp_all add: resolve_def dir_of_def string_prefix)
  have n: "site assets ''/swagger-ui-bundle.js'' = NotFound"
    "site assets ''/swagger-ui-standalone-preset.js'' = NotFound"
    "site assets ''/swagger-initializer.js'' = NotFound"
    by (simp_all add: assms serve_def under_def APIPath_def NewUIService_def HasSuffix_def string_prefix)
  have "follow 20 (site assets) ''/swagger-ui'' = (''/swagger-ui'', Embedded ''index.html'')"
    using follow_page [of "site assets" "''/swagger-ui''" 20] by (simp only: s) simp
  moreover have "fold (addElement lib assets (site assets) ''/swagger-ui'') index_html w =
      w\<lparr>elements := elements w @ [''swagger-ui'']\<rparr>" for w
    by (simp only: index_html_def fold.simps addElement.simps comp_def id_def r n runScript_embedded)
  ultimately show ?thesis by (simp add: visit_def loadPage_def fire_load_def)
qed

end
