(* ===== verification/Scope.thy ===== *)
theory Scope
  imports Template
begin

text \<open>
  What a component addition may touch (\<^verbatim>\<open>pkg/ani/components_install.go\<close>): the declared
  components and their dependencies, the scope of \<^verbatim>\<open>--only\<close>, the checks of the live cluster and of
  the artifact's images, who owns what already runs, the plan, the check of a plan's closure and the
  checks before a plan is executed. Of the site configuration (\<^verbatim>\<open>config.go\<close>) the switches, the
  storage selection and classes, the object service and the network stack are modelled. What
  \<^verbatim>\<open>kubectl\<close> answers is the record \<open>kube\<close>, what the package and its registry hold the record
  \<open>artifact\<close>.
\<close>

subsection \<open>The site configuration\<close>

record Components =
  CertManager :: bool
  PostgreSQL :: bool
  Valkey :: bool
  NATS :: bool
  RustFS :: bool
  Milvus :: bool
  MetricsServer :: bool
  SnapshotController :: bool
  KubeVirt :: bool
  Volcano :: bool
  Harbor :: bool
  Metrics :: bool
  LoggingBackend :: string
  StorageClasses :: "string gomap"

record Storage =
  StorageEnabled :: bool
  StorageProvider :: string
  ExternalClass :: string

record ObjectStorage =
  OsProvider :: string
  OsRustFSClass :: string

record ClusterConfig =
  CfgName :: string
  CfgStack :: string
  CfgMultus :: bool
  CfgComponents :: Components
  CfgStorage :: Storage
  CfgObjectStorage :: "ObjectStorage option"

definition componentsOrder :: "string list" where
  "componentsOrder =
     [''cert-manager'', ''postgresql'', ''valkey'', ''nats'', ''metrics'', ''loki'', ''opensearch'',
      ''fluent-bit'', ''rustfs'', ''milvus'', ''metrics-server'', ''snapshot-controller'', ''kubevirt'',
      ''volcano'', ''harbor'']"

definition loggingNone :: string where "loggingNone = ''none''"
definition loggingLoki :: string where "loggingLoki = ''loki''"
definition loggingOpenSearch :: string where "loggingOpenSearch = ''opensearch''"
definition objectProviderRGW :: string where "objectProviderRGW = ''rgw''"
definition objectProviderRustFS :: string where "objectProviderRustFS = ''rustfs''"
definition objectProviderNone :: string where "objectProviderNone = ''none''"
definition storageProviderCeph :: string where "storageProviderCeph = ''ceph''"
definition storageProviderExternal :: string where "storageProviderExternal = ''external''"
definition DefaultStorageClass :: string where "DefaultStorageClass = ''ani-block''"

definition LogBackend :: "Components \<Rightarrow> string" where
  "LogBackend c = (if TrimSpace (LoggingBackend c) = [] then loggingNone else TrimSpace (LoggingBackend c))"

definition loggingEnabled :: "Components \<Rightarrow> bool" where
  "loggingEnabled c \<longleftrightarrow> LogBackend c \<noteq> loggingNone"

definition componentEnabled :: "Components \<Rightarrow> string \<Rightarrow> bool" where
  "componentEnabled c name =
     (case get [(''cert-manager'', CertManager c), (''postgresql'', PostgreSQL c), (''valkey'', Valkey c),
                (''nats'', NATS c), (''rustfs'', RustFS c), (''milvus'', Milvus c),
                (''metrics-server'', MetricsServer c), (''snapshot-controller'', SnapshotController c),
                (''kubevirt'', KubeVirt c), (''volcano'', Volcano c), (''harbor'', Harbor c),
                (''metrics'', Metrics c), (''loki'', LogBackend c = loggingLoki),
                (''opensearch'', LogBackend c = loggingOpenSearch), (''fluent-bit'', loggingEnabled c)] name of
        None \<Rightarrow> False | Some b \<Rightarrow> b)"

definition Selection :: "Components \<Rightarrow> (string \<times> bool) list" where
  "Selection c = map (\<lambda>name. (name, componentEnabled c name)) componentsOrder"

definition ObjectStorageProvider :: "ClusterConfig \<Rightarrow> string" where
  "ObjectStorageProvider c =
     (case CfgObjectStorage c of
        Some os \<Rightarrow> TrimSpace (OsProvider os)
      | None \<Rightarrow> (if StorageEnabled (CfgStorage c) \<and> TrimSpace (StorageProvider (CfgStorage c)) = storageProviderCeph
                then objectProviderRGW else objectProviderNone))"

definition EffectiveComponents :: "ClusterConfig \<Rightarrow> Components" where
  "EffectiveComponents c =
     (case CfgObjectStorage c of
        None \<Rightarrow> CfgComponents c
      | Some os \<Rightarrow>
          (if ObjectStorageProvider c = objectProviderRustFS
           then (CfgComponents c)\<lparr>RustFS := True,
                  StorageClasses := put ''rustfs'' (OsRustFSClass os) (StorageClasses (CfgComponents c))\<rparr>
           else CfgComponents c))"

definition effectiveStorageClass :: "ClusterConfig \<Rightarrow> string" where
  "effectiveStorageClass c =
     (if \<not> StorageEnabled (CfgStorage c) then []
      else if TrimSpace (StorageProvider (CfgStorage c)) = storageProviderExternal
      then TrimSpace (ExternalClass (CfgStorage c))
      else DefaultStorageClass)"

text \<open>
  The storage class of a storage-backed component: the two log backends read the settings of the
  logging section, a component that is not storage-backed has none.
\<close>

definition storage_class :: "Components \<Rightarrow> string \<Rightarrow> string option" where
  "storage_class c name =
     (let section_of = (\<lambda>key. Some (case get (StorageClasses c) key of None \<Rightarrow> [] | Some v \<Rightarrow> v))
      in if name \<in> {''postgresql'', ''valkey'', ''nats'', ''rustfs'', ''kubevirt'', ''harbor'', ''milvus''}
         then section_of name
         else if name \<in> {''loki'', ''opensearch''} then section_of ''logging''
         else None)"

subsection \<open>The declared components\<close>

record InstallSpec =
  SpecNamespace :: string
  SpecRelease :: string
  SpecChart :: string
  SpecChartVersion :: string
  WorkloadKind :: string
  WorkloadName :: string
  NeedsStorage :: bool
  InternalDeps :: "string list"

definition helmSpec ::
  "string \<Rightarrow> string \<Rightarrow> string \<Rightarrow> string \<Rightarrow> string \<Rightarrow> string \<Rightarrow> bool \<Rightarrow> string list \<Rightarrow> InstallSpec" where
  "helmSpec ns rel chart version kind name storage deps =
     \<lparr>SpecNamespace = ns, SpecRelease = rel, SpecChart = chart, SpecChartVersion = version,
      WorkloadKind = kind, WorkloadName = name, NeedsStorage = storage, InternalDeps = deps\<rparr>"

definition manifestSpec :: "string \<Rightarrow> string \<Rightarrow> string \<Rightarrow> bool \<Rightarrow> string list \<Rightarrow> InstallSpec" where
  "manifestSpec ns kind name storage deps = helmSpec ns [] [] [] kind name storage deps"

definition componentInstallSpecs :: "InstallSpec gomap" where
  "componentInstallSpecs =
     [(''cert-manager'', helmSpec ''cert-manager'' ''cert-manager'' ''cert-manager'' ''v1.21.2'' ''Deployment''
         ''cert-manager'' False []),
      (''postgresql'', manifestSpec ''ani-platform'' ''StatefulSet'' ''postgresql'' True []),
      (''valkey'', manifestSpec ''ani-platform'' ''StatefulSet'' ''valkey'' True []),
      (''nats'', helmSpec ''ani-platform'' ''nats'' ''nats'' ''2.14.6'' ''StatefulSet'' ''nats'' True []),
      (''rustfs'', helmSpec ''ani-platform'' ''ani-rustfs'' ''rustfs'' ''1.0.0'' ''Deployment'' ''ani-rustfs'' True
         [''cert-manager'']),
      (''milvus'', helmSpec ''ani-platform'' ''ani-milvus'' ''milvus'' ''5.0.25'' ''Deployment''
         ''ani-milvus-standalone'' True []),
      (''metrics-server'', helmSpec ''kube-system'' ''ani-metrics-server'' ''metrics-server'' ''3.14.0''
         ''Deployment'' ''ani-metrics-server'' False []),
      (''snapshot-controller'', manifestSpec ''kube-system'' ''Deployment'' ''ani-snapshot-controller'' True []),
      (''kubevirt'', manifestSpec ''kubevirt'' ''Deployment'' ''virt-operator'' True [''cdi'']),
      (''harbor'', helmSpec ''ani-harbor'' ''ani-harbor'' ''harbor'' ''1.19.2'' ''StatefulSet'' ''ani-harbor-trivy''
         True [''dedicated-db'', ''dedicated-valkey'', ''offline-trivy-db'']),
      (''volcano'', helmSpec ''volcano-system'' ''ani-volcano'' ''volcano'' ''1.15.2'' ''Deployment''
         ''ani-volcano-scheduler'' False []),
      (''metrics'', helmSpec ''ani-observability'' ''ani-metrics'' ''kube-prometheus-stack'' ''85.4.0''
         ''StatefulSet'' ''prometheus-ani-metrics-prometheus'' True []),
      (''loki'', helmSpec ''ani-observability'' ''ani-loki'' ''loki'' ''18.13.3'' ''StatefulSet'' ''ani-loki'' True []),
      (''opensearch'', helmSpec ''ani-observability'' ''ani-opensearch-master'' ''opensearch'' ''3.8.0''
         ''StatefulSet'' ''ani-opensearch-master'' True [''fluent-bit'']),
      (''fluent-bit'', helmSpec ''ani-observability'' ''ani-fluent-bit'' ''fluent-bit'' ''0.58.2'' ''DaemonSet''
         ''ani-fluent-bit'' False [])]"

definition componentsDeferred :: "string list" where
  "componentsDeferred = [''cdi'', ''notebooks'', ''trainer'', ''hub'', ''kserve'', ''pipelines'']"

definition roleManagedTechnicalDeps :: "string list" where
  "roleManagedTechnicalDeps = [''cdi'', ''dedicated-db'', ''dedicated-valkey'', ''offline-trivy-db'']"

abbreviation canonical :: "string \<Rightarrow> bool" where
  "canonical name \<equiv> get componentInstallSpecs name \<noteq> None"

text \<open>A lookup in the Go map gives the zero value for a name that is not there.\<close>

definition zeroSpec :: InstallSpec where
  "zeroSpec = manifestSpec [] [] [] False []"

definition specOf :: "string \<Rightarrow> InstallSpec" where
  "specOf name = (case get componentInstallSpecs name of None \<Rightarrow> zeroSpec | Some s \<Rightarrow> s)"

definition componentDependencies :: "ClusterConfig \<Rightarrow> string \<Rightarrow> string list" where
  "componentDependencies c name =
     InternalDeps (specOf name) @
     (if name = ''milvus'' \<and> ObjectStorageProvider c = objectProviderRustFS then [''rustfs''] else [])"

subsection \<open>The scope of an addition\<close>

datatype scope_error =
    OnlyRequired | DeferredBatch string | UnknownComponent string | NotEnabled string
  | UndeclaredDependency string string | DependencyNotEnabled string string | NoStorageClass string
  | IllegalStatus string string | ClosureGrew "string list" | ClosureDiffers "string list" "string list"
  | OutsideClosure string | Repeated string | EmptyPlan | ProbeFailed string string
  | ReleaseNotDeployed string string int | ForeignChart string string string | NoMarker string
  | ForeignWorkload string string | SceneChanged string string
  | VersionUnreadable string | OtherVersion string | UnknownStack string
  | CNIUnreadable string string string | CNINotReady string string string
  | NamespaceUnreadable string string | NoClassFor string | NoSuchClass string string string
  | LockUnreadable string | RegistryUnknown string | ImageTableUnreadable string
  | ImageNotPackaged string string | ImageRefused string string string | LockMissing | LockDiffers

definition enabledIn :: "ClusterConfig \<Rightarrow> string \<Rightarrow> bool" where
  "enabledIn c name = (case get (Selection (EffectiveComponents c)) name of None \<Rightarrow> False | Some b \<Rightarrow> b)"

text \<open>
  The recursive closure \<^verbatim>\<open>add\<close>: \<open>scope\<close> is what has been appended, \<open>seen\<close> what has been entered.
  It returns whatever the state, since dependencies lead to components of smaller \<open>weight\<close>.
\<close>

definition weight :: "string \<Rightarrow> nat" where
  "weight name =
     (if name = ''milvus'' then 6 else if name = ''rustfs'' then 4
      else if name \<in> {''kubevirt'', ''opensearch''} then 3 else if name = ''harbor'' then 7 else 1)"

lemma weight_dependencies: "(\<Sum>d\<leftarrow>componentDependencies c name. Suc (weight d)) < weight name"
  by (simp add: componentDependencies_def specOf_def componentInstallSpecs_def weight_def helmSpec_def
      manifestSpec_def zeroSpec_def)

function (sequential) addComponent ::
  "ClusterConfig \<Rightarrow> string \<Rightarrow> string list \<times> string list \<Rightarrow> scope_error + string list \<times> string list"
and addDependencies ::
  "ClusterConfig \<Rightarrow> string \<Rightarrow> string list \<Rightarrow> string list \<times> string list \<Rightarrow> scope_error + string list \<times> string list"
where
  "addComponent c name (scope, seen) =
     (if name \<in> set seen then Inr (scope, seen)
      else if \<not> canonical name then
        Inl (if name \<in> set componentsDeferred then DeferredBatch name else UnknownComponent name)
      else if \<not> enabledIn c name then Inl (NotEnabled name)
      else bind_res (addDependencies c name (componentDependencies c name) (scope, name # seen))
             (\<lambda>(scope1, seen1). Inr (scope1 @ [name], seen1)))"
| "addDependencies c name [] st = Inr st"
| "addDependencies c name (dep # deps) st =
     (if \<not> canonical dep then
        (if dep \<notin> set roleManagedTechnicalDeps then Inl (UndeclaredDependency name dep)
         else addDependencies c name deps st)
      else if \<not> enabledIn c dep then Inl (DependencyNotEnabled name dep)
      else bind_res (addComponent c dep st) (addDependencies c name deps))"
  by pat_completeness auto

termination
proof (relation "measure (\<lambda>x. case x of Inl (c, name, st) \<Rightarrow> weight name
    | Inr (c, name, deps, st) \<Rightarrow> (\<Sum>d\<leftarrow>deps. Suc (weight d)))")
qed (use weight_dependencies in auto)

fun addAll :: "ClusterConfig \<Rightarrow> string list \<Rightarrow> string list \<times> string list \<Rightarrow> scope_error + string list \<times> string list" where
  "addAll c [] st = Inr st"
| "addAll c (name # names) st = bind_res (addComponent c (TrimSpace name) st) (addAll c names)"

definition componentsScope :: "ClusterConfig \<Rightarrow> string list \<Rightarrow> scope_error + string list" where
  "componentsScope c names =
     (let only = filter (\<lambda>name. name \<noteq> []) (map TrimSpace names)
      in if only = [] then Inl OnlyRequired
         else bind_res (addAll c only ([], []))
                (\<lambda>(scope, seen).
                   case find (\<lambda>name. NeedsStorage (specOf name) \<and> effectiveStorageClass c = []) scope of
                     Some name \<Rightarrow> Inl (NoStorageClass name)
                   | None \<Rightarrow> Inr scope))"

subsection \<open>The closure of a plan\<close>

text \<open>
  A row of a plan. The number of images is not kept; the number of charts is that of the source.
\<close>

record PlanComponent =
  PcComponent :: string
  PcStatus :: string
  PcNamespace :: string
  PcOwner :: string
  PcInternalDeps :: "string list"
  PcCharts :: nat

definition rowPlanned :: string where "rowPlanned = ''planned''"
definition rowInstalled :: string where "rowInstalled = ''already_installed''"

definition plannedNames :: "PlanComponent list \<Rightarrow> string list" where
  "plannedNames rows = map PcComponent (filter (\<lambda>r. PcStatus r = rowPlanned) rows)"

definition alreadyInstalledNames :: "PlanComponent list \<Rightarrow> string list" where
  "alreadyInstalledNames rows = map PcComponent (filter (\<lambda>r. PcStatus r = rowInstalled) rows)"

definition validatePlanClosure ::
  "ClusterConfig \<Rightarrow> PlanComponent list \<Rightarrow> string list \<Rightarrow> scope_error + string list" where
  "validatePlanClosure c rows planned =
     (case find (\<lambda>r. PcStatus r \<noteq> rowPlanned \<and> PcStatus r \<noteq> rowInstalled) rows of
        Some r \<Rightarrow> Inl (IllegalStatus (PcComponent r) (PcStatus r))
      | None \<Rightarrow>
          (let names = map PcComponent rows
           in bind_res (componentsScope c names) (\<lambda>fullScope.
                let unexpected = filter (\<lambda>name. name \<notin> set names) fullScope
                in if unexpected \<noteq> [] then Inl (ClosureGrew unexpected)
                   else if length fullScope \<noteq> length names then Inl (ClosureDiffers fullScope names)
                   else case find (\<lambda>name. name \<notin> set fullScope) planned of
                          Some name \<Rightarrow> Inl (OutsideClosure name)
                        | None \<Rightarrow> Inr fullScope)))"

text \<open>
  The rows of a plan as \<^verbatim>\<open>validateComponentsPlan\<close> accepts them: no component twice, the two
  statuses only, at least one row. A repetition is found before the status of the same row.
\<close>

fun validatePlanRows :: "PlanComponent list \<Rightarrow> string list \<Rightarrow> scope_error option" where
  "validatePlanRows [] seen = None"
| "validatePlanRows (r # rows) seen =
     (if PcComponent r \<in> set seen then Some (Repeated (PcComponent r))
      else if PcStatus r \<noteq> rowPlanned \<and> PcStatus r \<noteq> rowInstalled
      then Some (IllegalStatus (PcComponent r) (PcStatus r))
      else validatePlanRows rows (PcComponent r # seen))"

definition validateComponentsPlan :: "PlanComponent list \<Rightarrow> scope_error option" where
  "validateComponentsPlan rows =
     (case validatePlanRows rows [] of
        Some e \<Rightarrow> Some e
      | None \<Rightarrow> (if rows = [] \<or> length (plannedNames rows) + length (alreadyInstalledNames rows) = 0
                 then Some EmptyPlan else None))"

subsection \<open>Who owns what runs\<close>

text \<open>
  What \<^verbatim>\<open>kubectl\<close> answers: the version of the server, the secrets of a Helm release (namespace and
  release) and a JSON path of one object (resource, name, namespace, path), each or the text of an
  error. A secret carries
  its labels and the chart, name and version, that its payload opens to, or the error of opening it.
\<close>

record HelmSecret =
  SecretLabels :: "string gomap"
  SecretChart :: "string + string \<times> string"

record kube =
  serverVersion :: "string + string"
  helmSecrets :: "string \<Rightarrow> string \<Rightarrow> string + HelmSecret list"
  jsonpath :: "string \<Rightarrow> string \<Rightarrow> string \<Rightarrow> string \<Rightarrow> string + string"

record helmReleaseState =
  RelRevision :: int
  RelStatus :: string
  RelChart :: string
  RelVersion :: string
  RelLabels :: "string gomap"

definition label :: "string gomap \<Rightarrow> string \<Rightarrow> string" where
  "label ls k = (case get ls k of None \<Rightarrow> [] | Some v \<Rightarrow> v)"

definition aniManagedByLabel :: string where "aniManagedByLabel = ''ani.io/managed-by''"

definition notFoundErr :: "string \<Rightarrow> bool" where
  "notFoundErr e \<longleftrightarrow> Contains (map lower e) ''notfound'' \<or> Contains (map lower e) ''not found''"

definition revisionOf :: "HelmSecret \<Rightarrow> int" where
  "revisionOf item = (case get (SecretLabels item) ''version'' of None \<Rightarrow> 0 | Some v \<Rightarrow> AtoiValue v)"

fun highestRevision :: "HelmSecret list \<Rightarrow> int \<times> HelmSecret option \<Rightarrow> int \<times> HelmSecret option" where
  "highestRevision [] best = best"
| "highestRevision (item # items) (best, bestItem) =
     (if best < revisionOf item then highestRevision items (revisionOf item, Some item)
      else highestRevision items (best, bestItem))"

definition helmCurrentRelease :: "kube \<Rightarrow> string \<Rightarrow> string \<Rightarrow> string + helmReleaseState" where
  "helmCurrentRelease k ns rel =
     (case helmSecrets k ns rel of
        Inl e \<Rightarrow> Inl (''list helm release secrets for '' @ ns @ ''/'' @ rel @ '': '' @ e)
      | Inr items \<Rightarrow>
          if items = [] then Inl (''helm release '' @ ns @ ''/'' @ rel @ '' not found'')
          else case highestRevision items (- 1, None) of
                 (best, None) \<Rightarrow> Inl (''helm release '' @ ns @ ''/'' @ rel @ '' has no readable revision'')
               | (best, Some item) \<Rightarrow>
                   (case SecretChart item of
                      Inl e \<Rightarrow> Inl e
                    | Inr (chart, version) \<Rightarrow>
                        Inr \<lparr>RelRevision = best, RelStatus = label (SecretLabels item) ''status'',
                             RelChart = chart, RelVersion = version, RelLabels = SecretLabels item\<rparr>))"

definition managedByPath :: string where
  "managedByPath = ''{.metadata.labels.ani'' @ [char_of (92::nat)] @ ''.io/managed-by}''"

definition uidPath :: string where "uidPath = ''{.metadata.uid}''"

text \<open>The status and the owner of one component, \<^verbatim>\<open>preflightComponentOwnership\<close>'s loop body.\<close>

definition probeRelease :: "kube \<Rightarrow> ClusterConfig \<Rightarrow> string \<Rightarrow> scope_error + string \<times> string" where
  "probeRelease k c component =
     (let spec = specOf component
      in case helmCurrentRelease k (SpecNamespace spec) (SpecRelease spec) of
           Inl e \<Rightarrow> (if notFoundErr e then Inr (rowPlanned, ''helm release '' @ SpecRelease spec)
                     else Inl (ProbeFailed component e))
         | Inr rel \<Rightarrow>
             (if RelStatus rel \<noteq> ''deployed''
              then Inl (ReleaseNotDeployed component (RelStatus rel) (RelRevision rel))
              else if RelChart rel \<noteq> SpecChart spec \<or> RelVersion rel \<noteq> SpecChartVersion spec
              then Inl (ForeignChart component (RelChart rel) (RelVersion rel))
              else if label (RelLabels rel) aniManagedByLabel \<noteq> CfgName c then Inl (NoMarker component)
              else Inr (rowInstalled, ''helm release '' @ SpecRelease spec @ '' rev'' @ Itoa (RelRevision rel) @
                     '' ('' @ RelChart rel @ ''-'' @ RelVersion rel @ '', ANI-owned, left untouched)'')))"

definition probeWorkload :: "kube \<Rightarrow> ClusterConfig \<Rightarrow> string \<Rightarrow> scope_error + string \<times> string" where
  "probeWorkload k c component =
     (let spec = specOf component; kind = map lower (WorkloadKind spec);
          read = jsonpath k kind (WorkloadName spec) (SpecNamespace spec);
          named = ''rendered manifest '' @ WorkloadKind spec @ '' '' @ SpecNamespace spec @ ''/'' @ WorkloadName spec
      in bind_res (case read uidPath of
                     Inl e \<Rightarrow> (if notFoundErr e then Inr [] else Inl (ProbeFailed component e))
                   | Inr uid \<Rightarrow> Inr uid)
           (\<lambda>uid. if TrimSpace uid \<noteq> [] then
                    case read managedByPath of
                      Inl e \<Rightarrow> Inl (ForeignWorkload component e)
                    | Inr owner \<Rightarrow>
                        if TrimSpace owner \<noteq> CfgName c then Inl (ForeignWorkload component owner)
                        else Inr (rowInstalled, named @ '' (ANI-owned, left untouched)'')
                  else Inr (rowPlanned, named)))"

definition probe :: "kube \<Rightarrow> ClusterConfig \<Rightarrow> string \<Rightarrow> scope_error + string \<times> string" where
  "probe k c component =
     (if SpecRelease (specOf component) \<noteq> [] then probeRelease k c component else probeWorkload k c component)"

fun preflightComponentOwnership :: "kube \<Rightarrow> ClusterConfig \<Rightarrow> string list \<Rightarrow> scope_error + PlanComponent list" where
  "preflightComponentOwnership k c [] = Inr []"
| "preflightComponentOwnership k c (component # scope) =
     bind_res (probe k c component) (\<lambda>(status, owner).
     bind_res (preflightComponentOwnership k c scope) (\<lambda>rows.
       Inr (\<lparr>PcComponent = component, PcStatus = status, PcNamespace = SpecNamespace (specOf component),
             PcOwner = owner, PcInternalDeps = componentDependencies c component,
             PcCharts = (if SpecChart (specOf component) \<noteq> [] then 1 else 0)\<rparr> # rows)))"

subsection \<open>The live cluster\<close>

definition componentsKubeVersion :: string where "componentsKubeVersion = ''v1.35.8''"

fun fields :: "string \<Rightarrow> string \<Rightarrow> string list" where
  "fields word [] = (if word = [] then [] else [word])"
| "fields word (c # s) =
     (if is_space c then (if word = [] then fields [] s else word # fields [] s)
      else fields (word @ [c]) s)"

definition Fields :: "string \<Rightarrow> string list" where "Fields s = fields [] s"

definition networkStack :: "string \<Rightarrow> string" where
  "networkStack stack = (if stack = [] then ''kcn'' else stack)"

definition cniHealthProbes :: "string \<Rightarrow> scope_error + (string \<times> string) list" where
  "cniHealthProbes stack =
     (if networkStack stack = ''kcn'' then Inr [(''kcn-system'', ''kcn-cni-ds''), (''kcn-system'', ''kcn-ovs-ds'')]
      else if networkStack stack = ''kubeovn''
      then Inr [(''kube-system'', ''kube-ovn-cni''), (''kube-system'', ''ovs-ovn'')]
      else Inl (UnknownStack stack))"

definition daemonPath :: string where
  "daemonPath = ''{.status.desiredNumberScheduled} {.status.numberReady}''"

definition workloadHealth :: "kube \<Rightarrow> string \<times> string \<Rightarrow> scope_error option" where
  "workloadHealth k w =
     (case w of (ns, name) \<Rightarrow>
        (case jsonpath k ''daemonset'' name ns daemonPath of
           Inl e \<Rightarrow> Some (CNIUnreadable ns name e)
         | Inr raw \<Rightarrow>
             (case map Atoi (Fields raw) of
                [Some desired, Some ready] \<Rightarrow>
                  (if desired \<le> 0 \<or> ready < desired then Some (CNINotReady ns name raw) else None)
              | _ \<Rightarrow> Some (CNINotReady ns name raw))))"

text \<open>The first refusal of a list of checks.\<close>

fun firstRefusal :: "('a \<Rightarrow> scope_error option) \<Rightarrow> 'a list \<Rightarrow> scope_error option" where
  "firstRefusal check [] = None"
| "firstRefusal check (x # xs) = (case check x of Some e \<Rightarrow> Some e | None \<Rightarrow> firstRefusal check xs)"

definition checkCNIHealth :: "kube \<Rightarrow> ClusterConfig \<Rightarrow> scope_error option" where
  "checkCNIHealth k c =
     (case cniHealthProbes (CfgStack c) of
        Inl e \<Rightarrow> Some e
      | Inr probes \<Rightarrow>
          firstRefusal (workloadHealth k)
            (if CfgMultus c then probes @ [(''kube-system'', ''ani-multus'')] else probes))"

text \<open>
  A namespace that was found is not read twice, one that is not there yet is; a storage class is
  read once.
\<close>

fun probeNamespaces :: "kube \<Rightarrow> string list \<Rightarrow> string list \<Rightarrow> scope_error option" where
  "probeNamespaces k [] found = None"
| "probeNamespaces k (component # scope) found =
     (let ns = SpecNamespace (specOf component)
      in if ns \<in> set found then probeNamespaces k scope found
         else (case jsonpath k ''namespace'' ns [] uidPath of
                 Inl e \<Rightarrow> (if notFoundErr e then probeNamespaces k scope found
                           else Some (NamespaceUnreadable ns e))
               | Inr uid \<Rightarrow> probeNamespaces k scope (if TrimSpace uid \<noteq> [] then ns # found else found)))"

definition boundClass :: "ClusterConfig \<Rightarrow> string \<Rightarrow> string" where
  "boundClass c component =
     (let own = (case storage_class (EffectiveComponents c) component of None \<Rightarrow> [] | Some cl \<Rightarrow> TrimSpace cl)
      in if own = [] then effectiveStorageClass c else own)"

fun probeClasses :: "kube \<Rightarrow> ClusterConfig \<Rightarrow> string list \<Rightarrow> string list \<Rightarrow> scope_error option" where
  "probeClasses k c [] known = None"
| "probeClasses k c (component # scope) known =
     (let cls = boundClass c component
      in if \<not> NeedsStorage (specOf component) then probeClasses k c scope known
         else if cls = [] then Some (NoClassFor component)
         else if cls \<in> set known then probeClasses k c scope known
         else (case jsonpath k ''storageclass'' cls [] uidPath of
                 Inl e \<Rightarrow> Some (NoSuchClass component cls e)
               | Inr uid \<Rightarrow> probeClasses k c scope (cls # known)))"

text \<open>\<open>preflightLiveCluster\<close>; the facts that it lists for the report are not kept.\<close>

definition preflightLiveCluster :: "kube \<Rightarrow> ClusterConfig \<Rightarrow> string list \<Rightarrow> scope_error option" where
  "preflightLiveCluster k c scope =
     (case serverVersion k of
        Inl e \<Rightarrow> Some (VersionUnreadable e)
      | Inr version \<Rightarrow>
          if version \<noteq> componentsKubeVersion then Some (OtherVersion version)
          else (case checkCNIHealth k c of
                  Some e \<Rightarrow> Some e
                | None \<Rightarrow>
                    (case probeNamespaces k scope [] of
                       Some e \<Rightarrow> Some e
                     | None \<Rightarrow> probeClasses k c scope [])))"

subsection \<open>The images of the artifact\<close>

text \<open>
  What the package and its registry hold: the address of the registry and the approved materials
  lock, if they can be read; the image keys that the site configuration asks for
  (\<^verbatim>\<open>componentImageKeysForRun\<close>); the table \<^verbatim>\<open>images.tsv\<close> from an original reference to its row; and
  the verdict of the content gate on a row, None when it approves.
\<close>

record ImageKey =
  KeyGroup :: string
  KeyName :: string
  KeyBackend :: string
  KeyOriginal :: string

record artifact =
  registryAddress :: "string + string"
  materialsLock :: "string option"
  imageKeys :: "ImageKey list"
  imageTable :: "string + (string \<Rightarrow> string option)"
  gateVerify :: "string \<Rightarrow> string option"

definition imagesForComponent :: "ImageKey list \<Rightarrow> string \<Rightarrow> ImageKey list" where
  "imagesForComponent ks component =
     filter (\<lambda>key. component = ''cert-manager'' \<and> KeyGroup key = ''verification'' \<or>
                   KeyGroup key = component \<or>
                   KeyGroup key = ''components'' \<and> KeyName key = component \<or>
                   KeyGroup key = ''logs'' \<and> KeyBackend key = component) ks"

definition artifactMaterialsLock :: "artifact \<Rightarrow> scope_error option" where
  "artifactMaterialsLock a = map_option LockUnreadable (materialsLock a)"

definition checkImage :: "artifact \<Rightarrow> (string \<Rightarrow> string option) \<Rightarrow> string \<Rightarrow> ImageKey \<Rightarrow> scope_error option" where
  "checkImage a table component key =
     (case table (KeyOriginal key) of
        None \<Rightarrow> Some (ImageNotPackaged component (KeyOriginal key))
      | Some row \<Rightarrow> map_option (ImageRefused component (KeyOriginal key)) (gateVerify a row))"

definition preflightComponentImages :: "artifact \<Rightarrow> string list \<Rightarrow> scope_error option" where
  "preflightComponentImages a scope =
     (case registryAddress a of
        Inl e \<Rightarrow> Some (RegistryUnknown e)
      | Inr registry \<Rightarrow>
          (case imageTable a of
             Inl e \<Rightarrow> Some (ImageTableUnreadable e)
           | Inr table \<Rightarrow>
               firstRefusal
                 (\<lambda>component. firstRefusal (checkImage a table component) (imagesForComponent (imageKeys a) component))
                 scope))"

subsection \<open>The plan and its execution\<close>

text \<open>
  The plan, as in \<^verbatim>\<open>RunComponentsInstallPlan\<close> once the base and the cluster are identified: the scope
  of \<^verbatim>\<open>--only\<close>, the live cluster, who owns what runs, and the images.
\<close>

definition checked :: "scope_error option \<Rightarrow> scope_error + 'a \<Rightarrow> scope_error + 'a" where
  "checked refusal r = (case refusal of Some e \<Rightarrow> Inl e | None \<Rightarrow> r)"

definition planRows ::
  "artifact \<Rightarrow> kube \<Rightarrow> ClusterConfig \<Rightarrow> string list \<Rightarrow> scope_error + PlanComponent list" where
  "planRows a k c only =
     bind_res (componentsScope c only) (\<lambda>scope.
     checked (preflightLiveCluster k c scope) (
     bind_res (preflightComponentOwnership k c scope) (\<lambda>rows.
     checked (artifactMaterialsLock a) (
     checked (preflightComponentImages a scope) (
     Inr rows)))))"

definition freshStatus :: "PlanComponent list \<Rightarrow> string \<Rightarrow> string" where
  "freshStatus fresh name =
     (case get (rev (map (\<lambda>r. (PcComponent r, PcStatus r)) fresh)) name of None \<Rightarrow> [] | Some s \<Rightarrow> s)"

definition sceneCheck :: "PlanComponent list \<Rightarrow> PlanComponent list \<Rightarrow> scope_error option" where
  "sceneCheck fresh rows =
     (case find (\<lambda>r. PcStatus r = rowPlanned \<and> freshStatus fresh (PcComponent r) \<noteq> rowPlanned \<or>
                     PcStatus r = rowInstalled \<and> freshStatus fresh (PcComponent r) \<noteq> rowInstalled) rows of
        Some r \<Rightarrow> Some (SceneChanged (PcComponent r) (freshStatus fresh (PcComponent r)))
      | None \<Rightarrow> None)"

text \<open>
  The digest \<open>want\<close> of the materials lock that the base install recorded, against the digest of the
  lock of this package, empty when the package has none.
\<close>

definition lockRefusal :: "string \<Rightarrow> string \<Rightarrow> scope_error option" where
  "lockRefusal want currentLock =
     (if want = [] then None
      else if currentLock = [] then Some LockMissing
      else if currentLock \<noteq> want \<and>
              (if HasPrefix want ''sha256:'' then currentLock else ''sha256:'' @ currentLock) \<noteq> want
      then Some LockDiffers else None)"

text \<open>
  The execution, as in \<^verbatim>\<open>RunComponentsExecute\<close> once the base and the cluster are identified: the rows
  of the plan are checked, their closure is computed again, the live cluster, the images and who
  owns what runs are read again, a row whose status differs from the plan's is refused, and so is
  another materials lock; what is left is the planned rows to execute and the installed ones to
  leave alone.
\<close>

definition executeRows ::
  "artifact \<Rightarrow> kube \<Rightarrow> ClusterConfig \<Rightarrow> string \<Rightarrow> string \<Rightarrow> PlanComponent list \<Rightarrow>
   scope_error + string list \<times> string list" where
  "executeRows a k c want currentLock rows =
     checked (validateComponentsPlan rows) (
     checked (artifactMaterialsLock a) (
     bind_res (validatePlanClosure c rows (plannedNames rows)) (\<lambda>fullScope.
     checked (preflightLiveCluster k c fullScope) (
     checked (preflightComponentImages a fullScope) (
     bind_res (preflightComponentOwnership k c fullScope) (\<lambda>fresh.
     checked (sceneCheck fresh rows) (
     checked (lockRefusal want currentLock) (
     Inr (plannedNames rows, alreadyInstalledNames rows)))))))))"

lemma checked_Inr: "checked refusal r = Inr y \<longleftrightarrow> refusal = None \<and> r = Inr y"
  by (simp add: checked_def split: option.splits)

lemma checked_None [simp]: "checked None r = r"
  by (simp add: checked_def)

subsection \<open>The scope is closed and ordered\<close>

definition canonicalDeps :: "ClusterConfig \<Rightarrow> string \<Rightarrow> string set" where
  "canonicalDeps c x = {d \<in> set (componentDependencies c x). canonical d}"

definition ordered :: "ClusterConfig \<Rightarrow> string list \<Rightarrow> bool" where
  "ordered c xs \<longleftrightarrow> (\<forall>ys x zs. xs = ys @ x # zs \<longrightarrow> canonicalDeps c x \<subseteq> set ys)"

definition dependsOn :: "ClusterConfig \<Rightarrow> (string \<times> string) set" where
  "dependsOn c = {(x, d). d \<in> canonicalDeps c x}"

lemma ordered_Nil [simp]: "ordered c []"
  by (simp add: ordered_def)

lemma ordered_snoc: "ordered c (xs @ [x]) \<longleftrightarrow> ordered c xs \<and> canonicalDeps c x \<subseteq> set xs"
proof
  assume o: "ordered c (xs @ [x])"
  have "canonicalDeps c y \<subseteq> set ys" if "xs = ys @ y # zs" for ys y zs
    using o that unfolding ordered_def by (metis append.assoc append_Cons)
  moreover have "canonicalDeps c x \<subseteq> set xs" using o unfolding ordered_def by blast
  ultimately show "ordered c xs \<and> canonicalDeps c x \<subseteq> set xs" by (auto simp: ordered_def)
next
  assume o: "ordered c xs \<and> canonicalDeps c x \<subseteq> set xs"
  show "ordered c (xs @ [x])"
    unfolding ordered_def
  proof (intro allI impI)
    fix ys y zs assume s: "xs @ [x] = ys @ y # zs"
    show "canonicalDeps c y \<subseteq> set ys"
    proof (cases zs rule: rev_cases)
      case Nil
      then show ?thesis using o s by simp
    next
      case (snoc zs' z)
      then have "xs = ys @ y # zs'" using s by (metis append.assoc append_Cons butlast_snoc)
      then show ?thesis using o unfolding ordered_def by blast
    qed
  qed
qed

lemma dependency_weight: "d \<in> set (componentDependencies c name) \<Longrightarrow> weight d < weight name"
  using weight_dependencies [of c name] member_le_sum_list [of "Suc (weight d)" "map (\<lambda>d. Suc (weight d)) (componentDependencies c name)"]
  by force

definition entered :: "ClusterConfig \<Rightarrow> string list \<times> string list \<Rightarrow> bool" where
  "entered c st \<longleftrightarrow>
     (case st of (scope, seen) \<Rightarrow>
        ordered c scope \<and> distinct scope \<and> set scope \<subseteq> set seen \<and>
        (\<forall>x\<in>set scope. canonical x \<and> enabledIn c x))"

definition grows :: "ClusterConfig \<Rightarrow> string set \<Rightarrow> string list \<times> string list \<Rightarrow> string list \<times> string list \<Rightarrow> bool" where
  "grows c from st st1 \<longleftrightarrow>
     entered c st1 \<and> (\<exists>new. fst st1 = fst st @ new \<and> set (snd st1) = set (snd st) \<union> set new \<and>
       set new \<inter> set (snd st) = {} \<and> set new \<subseteq> (dependsOn c)\<^sup>* `` from)"

lemma grows_refl: "entered c st \<Longrightarrow> grows c from st st"
  by (simp add: grows_def)

lemma grows_trans: "grows c A st st1 \<Longrightarrow> grows c B st1 st2 \<Longrightarrow> grows c (A \<union> B) st st2"
  unfolding grows_def by (elim conjE exE) (intro conjI, assumption, rule exI, auto simp: Image_Un)

lemma grows_mono: "grows c A st st1 \<Longrightarrow> A \<subseteq> B \<Longrightarrow> grows c B st st1"
  unfolding grows_def by blast

lemma grows_pending: "grows c A st st1 \<Longrightarrow> set (snd st1) - set (fst st1) \<subseteq> set (snd st) - set (fst st)"
  unfolding grows_def by auto

lemma add_grows:
  "addComponent c name st = Inr st1 \<Longrightarrow> entered c st \<Longrightarrow>
     \<forall>x\<in>set (snd st) - set (fst st). weight name < weight x \<Longrightarrow>
     grows c {name} st st1 \<and> name \<in> set (fst st1)"
  "addDependencies c name deps st = Inr st1 \<Longrightarrow> entered c st \<Longrightarrow>
     \<forall>x\<in>set (snd st) - set (fst st). \<forall>d\<in>set deps. weight d < weight x \<Longrightarrow>
     grows c {d \<in> set deps. canonical d} st st1 \<and> {d \<in> set deps. canonical d} \<subseteq> set (fst st1)"
proof (induction c name st and c name deps st arbitrary: st1 and st1 rule: addComponent_addDependencies.induct)
  case (1 c name scope seen)
  show ?case
  proof (cases "name \<in> set seen")
    case True
    then have "name \<in> set scope" using "1.prems"(3) by auto
    then show ?thesis using True "1.prems" by (auto simp: grows_refl)
  next
    case False
    then obtain scope1 seen1 where deps: "canonical name" "enabledIn c name"
        "addDependencies c name (componentDependencies c name) (scope, name # seen) = Inr (scope1, seen1)"
        "st1 = (scope1 @ [name], seen1)"
      using "1.prems"(1) by (auto simp: bind_res_Inr_conv split: if_splits)
    have e: "entered c (scope, name # seen)" using "1.prems"(2) False by (auto simp: entered_def)
    have "weight d < weight x" if "x \<in> set (name # seen) - set scope" "d \<in> set (componentDependencies c name)" for x d
      using that(1) "1.prems"(3) dependency_weight [OF that(2)] by (cases "x = name") (auto intro: order.strict_trans)
    then have g: "grows c (canonicalDeps c name) (scope, name # seen) (scope1, seen1)"
        "canonicalDeps c name \<subseteq> set scope1"
      using "1.IH" [OF False _ _ deps(3) e] deps(1,2) by (auto simp: canonicalDeps_def)
    then obtain new where new: "scope1 = scope @ new" "set seen1 = set (name # seen) \<union> set new"
        "set new \<inter> set (name # seen) = {}" "set new \<subseteq> (dependsOn c)\<^sup>* `` canonicalDeps c name"
      unfolding grows_def by auto
    have "canonicalDeps c name \<subseteq> (dependsOn c) `` {name}" by (auto simp: dependsOn_def)
    then have "set new \<subseteq> (dependsOn c)\<^sup>* `` {name}"
      using new(4) by (blast intro: converse_rtrancl_into_rtrancl)
    moreover have "name \<notin> set scope1"
      using e False new "1.prems"(2) by (auto simp: entered_def)
    moreover have "ordered c (scope1 @ [name])"
      using g by (simp add: grows_def entered_def ordered_snoc)
    ultimately show ?thesis
      using g new deps(1,2,4) False unfolding grows_def entered_def by auto
  qed
next
  case (2 c name st)
  then show ?case by (simp add: grows_refl)
next
  case (3 c name dep deps st)
  show ?case
  proof (cases "canonical dep")
    case False
    then have run: "addDependencies c name deps st = Inr st1"
      using "3.prems"(1) by (auto split: if_splits)
    have "grows c {d \<in> set deps. canonical d} st st1 \<and> {d \<in> set deps. canonical d} \<subseteq> set (fst st1)"
      using "3.IH"(1) [of st1] False run "3.prems" by (auto split: if_splits)
    moreover have "{d \<in> set (dep # deps). canonical d} = {d \<in> set deps. canonical d}" using False by auto
    ultimately show ?thesis by simp
  next
    case True
    then obtain st2 where run: "enabledIn c dep" "addComponent c dep st = Inr st2" "addDependencies c name deps st2 = Inr st1"
      using "3.prems"(1) by (auto simp: bind_res_Inr_conv split: if_splits)
    have g2: "grows c {dep} st st2" "dep \<in> set (fst st2)"
      using "3.IH"(2) [of st2] True run "3.prems"(2,3) by auto
    then have e2: "entered c st2" by (simp add: grows_def)
    have "\<forall>x\<in>set (snd st2) - set (fst st2). \<forall>d\<in>set deps. weight d < weight x"
      using grows_pending [OF g2(1)] "3.prems"(3) by auto
    then have g1: "grows c {d \<in> set deps. canonical d} st2 st1" "{d \<in> set deps. canonical d} \<subseteq> set (fst st1)"
      using "3.IH"(3) [of st2 st1] True run e2 by auto
    have "{d \<in> set (dep # deps). canonical d} = {dep} \<union> {d \<in> set deps. canonical d}" using True by auto
    moreover have "dep \<in> set (fst st1)" using g1(1) g2(2) by (auto simp: grows_def)
    ultimately show ?thesis using grows_trans [OF g2(1) g1(1)] g1(2) by auto
  qed
qed

lemma addAll_grows:
  "addAll c names st = Inr st1 \<Longrightarrow> entered c st \<Longrightarrow> set (snd st) \<subseteq> set (fst st) \<Longrightarrow>
     grows c (TrimSpace ` set names) st st1 \<and> TrimSpace ` set names \<subseteq> set (fst st1)"
proof (induction names arbitrary: st)
  case (Cons name names)
  then obtain st2 where run: "addComponent c (TrimSpace name) st = Inr st2" "addAll c names st2 = Inr st1"
    by (auto simp: bind_res_Inr_conv)
  have g2: "grows c {TrimSpace name} st st2" "TrimSpace name \<in> set (fst st2)"
    using add_grows(1) [OF run(1)] Cons.prems(2,3) by auto
  then have "entered c st2" "set (snd st2) \<subseteq> set (fst st2)"
    using grows_pending [OF g2(1)] Cons.prems(3) by (auto simp: grows_def)
  then have g1: "grows c (TrimSpace ` set names) st2 st1" "TrimSpace ` set names \<subseteq> set (fst st1)"
    using Cons.IH run(2) by auto
  have "TrimSpace name \<in> set (fst st1)" using g1(1) g2(2) by (auto simp: grows_def)
  then show ?case using grows_trans [OF g2(1) g1(1)] g1(2) by simp
qed (simp add: grows_refl)

lemma dropWhile_idem: "dropWhile P (dropWhile P xs) = dropWhile P xs"
  by (metis dropWhile_eq_self_iff hd_dropWhile)

lemma TrimSpace_idem [simp]: "TrimSpace (TrimSpace s) = TrimSpace s"
proof (cases "dropWhile is_space s")
  case Nil
  have "TrimSpace s = []" unfolding TrimSpace_def by (simp only: Nil rev.simps dropWhile.simps)
  moreover have "TrimSpace [] = []" by (simp add: TrimSpace_def)
  ultimately show ?thesis by metis
next
  case (Cons x xs)
  then have x: "\<not> is_space x" by (metis hd_dropWhile list.distinct(1) list.sel(1))
  then have "dropWhile is_space (rev xs @ [x]) \<noteq> []" by simp
  moreover have "last (dropWhile is_space (rev xs @ [x])) = x"
    using x by (simp add: dropWhile_append)
  ultimately obtain ys where ys: "dropWhile is_space (rev (x # xs)) = ys @ [x]"
    by (metis append_butlast_last_id rev.simps(2))
  have "TrimSpace s = rev (ys @ [x])" by (simp only: TrimSpace_def Cons ys)
  moreover have "dropWhile is_space (ys @ [x]) = ys @ [x]" using ys dropWhile_idem by metis
  ultimately show ?thesis using x by (simp add: TrimSpace_def)
qed

definition requested :: "string list \<Rightarrow> string set" where
  "requested names = TrimSpace ` set names - {[]}"

text \<open>
  Claim C15. A scope accepted by \<^verbatim>\<open>componentsScope\<close> has no duplicates, holds everything requested,
  holds the dependencies of each component before it, and nothing that is not reached from the
  request; every component in it is declared, enabled in the site config and, where it keeps data,
  has a storage class.
\<close>

theorem componentsScope_closed:
  assumes "componentsScope c names = Inr scope"
  shows "distinct scope \<and> requested names \<noteq> {} \<and> requested names \<subseteq> set scope \<and> ordered c scope \<and>
         set scope \<subseteq> (dependsOn c)\<^sup>* `` requested names \<and>
         (\<forall>x\<in>set scope. canonical x \<and> enabledIn c x \<and> (NeedsStorage (specOf x) \<longrightarrow> effectiveStorageClass c \<noteq> []))"
proof -
  let ?only = "filter (\<lambda>name. name \<noteq> []) (map TrimSpace names)"
  from assms obtain seen where run: "?only \<noteq> []" "addAll c ?only ([], []) = Inr (scope, seen)"
      "find (\<lambda>name. NeedsStorage (specOf name) \<and> effectiveStorageClass c = []) scope = None"
    by (auto simp: componentsScope_def Let_def bind_res_Inr_conv split: if_splits option.splits)
  have only: "TrimSpace ` set ?only = requested names"
  proof -
    have "TrimSpace ` set ?only = (\<lambda>x. x) ` set ?only" by (rule image_cong) auto
    also have "\<dots> = requested names" by (auto simp: requested_def)
    finally show ?thesis .
  qed
  have "grows c (requested names) ([], []) (scope, seen) \<and> requested names \<subseteq> set scope"
    using addAll_grows [OF run(2)] unfolding only by (simp add: entered_def)
  moreover have "requested names \<noteq> {}" using run(1) only by (metis image_is_empty set_empty)
  ultimately show ?thesis
    using run(3) by (auto simp: grows_def entered_def find_None_iff)
qed

subsection \<open>A plan that is executed\<close>

lemma addDependencies_present:
  "(\<And>d. d \<in> set deps \<Longrightarrow> canonical d \<Longrightarrow> enabledIn c d \<and> d \<in> set (snd st)) \<Longrightarrow>
     (\<And>d. d \<in> set deps \<Longrightarrow> \<not> canonical d \<Longrightarrow> d \<in> set roleManagedTechnicalDeps) \<Longrightarrow>
     addDependencies c name deps st = Inr st"
proof (induction deps)
  case (Cons d deps)
  obtain scope seen where st: "st = (scope, seen)" by (cases st)
  have "addDependencies c name deps st = Inr st" using Cons by simp
  then show ?case using Cons.prems(1) [of d] Cons.prems(2) [of d] by (auto simp: st)
qed simp

lemma undeclared_role_managed:
  "d \<in> set (componentDependencies c name) \<Longrightarrow> \<not> canonical d \<Longrightarrow> d \<in> set roleManagedTechnicalDeps"
  by (auto simp: componentDependencies_def specOf_def componentInstallSpecs_def helmSpec_def manifestSpec_def
      zeroSpec_def roleManagedTechnicalDeps_def split: if_splits)

lemma TrimSpace_canonical: "canonical x \<Longrightarrow> TrimSpace x = x \<and> x \<noteq> []"
  by (auto simp: componentInstallSpecs_def TrimSpace_def is_space_def split: if_splits)

lemma ordered_append: "ordered c (xs @ ys) \<Longrightarrow> ordered c xs"
  unfolding ordered_def by (metis append.assoc append_Cons)

lemma ordered_middle: "ordered c (xs @ x # ys) \<Longrightarrow> canonicalDeps c x \<subseteq> set xs"
  unfolding ordered_def by blast

lemma addAll_ordered:
  "ordered c (done @ xs) \<Longrightarrow> distinct (done @ xs) \<Longrightarrow> \<forall>x\<in>set (done @ xs). canonical x \<and> enabledIn c x \<Longrightarrow>
     set seen = set done \<Longrightarrow> \<exists>seen1. addAll c xs (done, seen) = Inr (done @ xs, seen1)"
proof (induction xs arbitrary: "done" seen)
  case (Cons x xs)
  have d: "canonicalDeps c x \<subseteq> set done" using ordered_middle Cons.prems(1) by blast
  have "addDependencies c x (componentDependencies c x) (done, x # seen) = Inr (done, x # seen)"
    using d Cons.prems(3,4) undeclared_role_managed
    by (intro addDependencies_present) (auto simp: canonicalDeps_def)
  then have add: "addComponent c x (done, seen) = Inr (done @ [x], x # seen)"
    using Cons.prems(2,3,4) by auto
  have "\<exists>seen1. addAll c xs (done @ [x], x # seen) = Inr ((done @ [x]) @ xs, seen1)"
    using Cons.IH [of "done @ [x]" "x # seen"] Cons.prems by auto
  moreover have "TrimSpace x = x" using Cons.prems(3) TrimSpace_canonical by simp
  ultimately show ?case using add by simp
qed simp

lemma componentsScope_idem:
  assumes "componentsScope c names = Inr scope"
  shows "componentsScope c scope = Inr scope"
proof -
  have closed: "distinct scope" "ordered c scope" "\<forall>x\<in>set scope. canonical x \<and> enabledIn c x"
      "scope \<noteq> []" "\<forall>x\<in>set scope. NeedsStorage (specOf x) \<longrightarrow> effectiveStorageClass c \<noteq> []"
    using componentsScope_closed [OF assms] by auto
  have "map TrimSpace scope = scope"
    using closed(3) TrimSpace_canonical by (intro map_idI) blast
  then have only: "filter (\<lambda>name. name \<noteq> []) (map TrimSpace scope) = scope"
    using closed(3) TrimSpace_canonical by (auto intro!: filter_True)
  obtain seen where "addAll c scope ([], []) = Inr (scope, seen)"
    using addAll_ordered [of c "[]" scope "[]"] closed by auto
  moreover have "find (\<lambda>name. NeedsStorage (specOf name) \<and> effectiveStorageClass c = []) scope = None"
    using closed(5) by (auto simp: find_None_iff)
  ultimately show ?thesis using closed(4) by (simp add: componentsScope_def only)
qed

lemma statuses_differ [simp]: "rowPlanned \<noteq> rowInstalled" "rowInstalled \<noteq> rowPlanned" "rowPlanned \<noteq> []" "rowInstalled \<noteq> []"
  by (simp_all add: rowPlanned_def rowInstalled_def)

lemma probe_status: "probe k c x = Inr (s, owner) \<Longrightarrow> s = rowPlanned \<or> s = rowInstalled"
  by (auto simp: probe_def probeRelease_def probeWorkload_def Let_def bind_res_Inr_conv
      split: if_splits sum.splits)

lemma preflight_rows:
  "preflightComponentOwnership k c scope = Inr rows \<Longrightarrow>
     map PcComponent rows = scope \<and> (\<forall>r\<in>set rows. \<exists>owner. probe k c (PcComponent r) = Inr (PcStatus r, owner))"
proof (induction scope arbitrary: rows)
  case (Cons x scope)
  then obtain s owner rest r where "probe k c x = Inr (s, owner)" "preflightComponentOwnership k c scope = Inr rest"
      "rows = r # rest" "PcComponent r = x" "PcStatus r = s"
    by (auto simp: bind_res_Inr_conv)
  then show ?case using Cons.IH by auto
qed simp

lemma preflight_legal:
  "preflightComponentOwnership k c scope = Inr rows \<Longrightarrow> r \<in> set rows \<Longrightarrow>
     PcStatus r = rowPlanned \<or> PcStatus r = rowInstalled"
  using preflight_rows probe_status by blast

lemma freshStatus_row:
  assumes "distinct (map PcComponent fresh)" "r \<in> set fresh"
  shows "freshStatus fresh (PcComponent r) = PcStatus r"
proof -
  let ?m = "rev (map (\<lambda>r. (PcComponent r, PcStatus r)) fresh)"
  have "distinct (map fst ?m)" using assms(1) by (simp add: rev_map [symmetric] comp_def)
  moreover have "(PcComponent r, PcStatus r) \<in> set ?m" using assms(2) by auto
  ultimately show ?thesis by (simp add: freshStatus_def)
qed

lemma freshStatus_absent: "x \<notin> PcComponent ` set fresh \<Longrightarrow> freshStatus fresh x = []"
proof -
  assume "x \<notin> PcComponent ` set fresh"
  then have "get (rev (map (\<lambda>r. (PcComponent r, PcStatus r)) fresh)) x = None"
    by (auto simp: map_of_eq_None_iff image_image)
  then show ?thesis by (simp add: freshStatus_def)
qed

lemma validatePlanRows_None:
  "validatePlanRows rows seen = None \<longleftrightarrow>
     distinct (map PcComponent rows) \<and> set (map PcComponent rows) \<inter> set seen = {} \<and>
     (\<forall>r\<in>set rows. PcStatus r = rowPlanned \<or> PcStatus r = rowInstalled)"
  by (induction rows arbitrary: seen) auto

lemma legal_rows_split:
  assumes "\<forall>r\<in>set rows. PcStatus r = rowPlanned \<or> PcStatus r = rowInstalled"
  shows "set (plannedNames rows) \<union> set (alreadyInstalledNames rows) = PcComponent ` set rows"
  using assms by (auto simp: plannedNames_def alreadyInstalledNames_def)

lemma legal_rows_count:
  assumes "\<forall>r\<in>set rows. PcStatus r = rowPlanned \<or> PcStatus r = rowInstalled"
  shows "length (plannedNames rows) + length (alreadyInstalledNames rows) = length rows"
  using assms by (induction rows) (auto simp: plannedNames_def alreadyInstalledNames_def)

lemma rows_subset:
  "set (plannedNames rows) \<subseteq> PcComponent ` set rows" "set (alreadyInstalledNames rows) \<subseteq> PcComponent ` set rows"
  by (auto simp: plannedNames_def alreadyInstalledNames_def)

lemma legal_rows_distinct:
  "distinct (map PcComponent rows) \<Longrightarrow> distinct (plannedNames rows @ alreadyInstalledNames rows)"
proof (induction rows)
  case (Cons r rows)
  moreover have "PcComponent r \<notin> set (plannedNames rows)" "PcComponent r \<notin> set (alreadyInstalledNames rows)"
    using Cons.prems rows_subset [of rows] by (auto dest!: subsetD)
  ultimately show ?case by (auto simp: plannedNames_def alreadyInstalledNames_def)
qed (simp add: plannedNames_def alreadyInstalledNames_def)

lemma sceneCheck_None:
  "sceneCheck fresh rows = None \<longleftrightarrow>
     (\<forall>r\<in>set rows. (PcStatus r = rowPlanned \<longrightarrow> freshStatus fresh (PcComponent r) = rowPlanned) \<and>
        (PcStatus r = rowInstalled \<longrightarrow> freshStatus fresh (PcComponent r) = rowInstalled))"
proof -
  have "sceneCheck fresh rows = None \<longleftrightarrow>
      find (\<lambda>r. PcStatus r = rowPlanned \<and> freshStatus fresh (PcComponent r) \<noteq> rowPlanned \<or>
                 PcStatus r = rowInstalled \<and> freshStatus fresh (PcComponent r) \<noteq> rowInstalled) rows = None"
    by (simp add: sceneCheck_def split: option.splits)
  then show ?thesis by (auto simp: find_None_iff)
qed

text \<open>
  The two digests have to be equal: the prefix is added to the digest of the package exactly when
  the recorded one has none, so the second comparison never succeeds.
\<close>

lemma lockRefusal_eq:
  "lockRefusal want currentLock =
     (if want = [] \<or> currentLock = want then None
      else Some (if currentLock = [] then LockMissing else LockDiffers))"
proof -
  have "(if HasPrefix want ''sha256:'' then currentLock else ''sha256:'' @ currentLock) = want \<longrightarrow> currentLock = want"
    by (auto simp: HasPrefix_def)
  then show ?thesis by (auto simp: lockRefusal_def)
qed

lemma prefixed_lock_refused:
  "digest \<noteq> [] \<Longrightarrow> lockRefusal (''sha256:'' @ digest) digest = Some LockDiffers"
  by (simp add: lockRefusal_eq)

text \<open>
  Claim C11. When an accepted plan executes. If the cluster and the package answer the execution
  what they answered the plan, all the checks that the two share pass again: the closure computed
  from the plan's rows is the scope that was planned, also where part of it is already installed, and
  the execution writes exactly the planned rows, unless the digest of the materials lock is not
  the one the base install recorded. That digest is compared by the execution alone, so it is the
  only thing an accepted plan can still be refused for on an unchanged cluster.
\<close>

theorem fresh_plan_executes:
  assumes "planRows a k c only = Inr rows"
  shows "componentsScope c only = Inr (map PcComponent rows) \<and>
         validatePlanClosure c rows (plannedNames rows) = Inr (map PcComponent rows) \<and>
         executeRows a k c want currentLock rows =
           (if want = [] \<or> currentLock = want
            then Inr (plannedNames rows, alreadyInstalledNames rows)
            else Inl (if currentLock = [] then LockMissing else LockDiffers))"
proof -
  obtain scope where plan: "componentsScope c only = Inr scope" "preflightComponentOwnership k c scope = Inr rows"
    "preflightLiveCluster k c scope = None" "artifactMaterialsLock a = None" "preflightComponentImages a scope = None"
    using assms by (auto simp: planRows_def bind_res_Inr_conv checked_Inr)
  have names: "map PcComponent rows = scope" using preflight_rows [OF plan(2)] by simp
  have legal: "\<forall>r\<in>set rows. PcStatus r = rowPlanned \<or> PcStatus r = rowInstalled"
    using preflight_legal [OF plan(2)] by blast
  have d: "distinct scope" "scope \<noteq> []" using componentsScope_closed [OF plan(1)] by auto
  have find: "find (\<lambda>r. PcStatus r \<noteq> rowPlanned \<and> PcStatus r \<noteq> rowInstalled) rows = None"
    using legal by (auto simp: find_None_iff)
  have "set (plannedNames rows) \<subseteq> set scope" using rows_subset(1) [of rows] names by auto
  then have "find (\<lambda>name. name \<notin> set scope) (plannedNames rows) = None"
    by (auto simp: find_None_iff)
  then have closure: "validatePlanClosure c rows (plannedNames rows) = Inr scope"
    using componentsScope_idem [OF plan(1)] find names by (simp add: validatePlanClosure_def)
  have valid: "validateComponentsPlan rows = None"
    using legal d names legal_rows_count [OF legal] validatePlanRows_None [of rows "[]"]
    by (auto simp: validateComponentsPlan_def)
  have "\<forall>r\<in>set rows. freshStatus rows (PcComponent r) = PcStatus r"
    using freshStatus_row d(1) names by simp
  then have "sceneCheck rows rows = None" by (auto simp: sceneCheck_None)
  then have "executeRows a k c want currentLock rows =
      checked (lockRefusal want currentLock) (Inr (plannedNames rows, alreadyInstalledNames rows))"
    using closure plan valid by (simp add: executeRows_def)
  moreover have "lockRefusal want currentLock =
      (if want = [] \<or> currentLock = want then None else Some (if currentLock = [] then LockMissing else LockDiffers))"
    using lockRefusal_eq by blast
  ultimately show ?thesis using closure plan(1) names by (simp add: checked_def)
qed

text \<open>
  What really stands in the cluster: the Helm releases (those that have a release secret) and the
  objects. \<open>honest\<close> is what is documented of \<^verbatim>\<open>kubectl\<close> when it runs and is answered: a list of
  secrets that is returned is empty exactly when there is no release, an object that is
  there has a uid, and no error about something that is there says that it is not found. That
  \<^verbatim>\<open>kubectl\<close> runs is part of it: the lemma \<^verbatim>\<open>missing_kubectl_reads_as_absent\<close> shows the
  contrary case.
\<close>

record reality =
  releaseThere :: "string \<Rightarrow> string \<Rightarrow> bool"
  objectThere :: "string \<Rightarrow> string \<Rightarrow> string \<Rightarrow> bool"

definition saysAbsent :: "string \<Rightarrow> bool" where
  "saysAbsent e \<longleftrightarrow> Contains (map lower e) ''notfound'' \<or> Contains (map lower e) ''not found''"

definition honest :: "reality \<Rightarrow> kube \<Rightarrow> bool" where
  "honest R k \<longleftrightarrow>
     (\<forall>ns rel. case helmSecrets k ns rel of
        Inr items \<Rightarrow> (items = [] \<longleftrightarrow> \<not> releaseThere R ns rel) \<and>
          (\<forall>item\<in>set items. \<forall>e. SecretChart item = Inl e \<longrightarrow> \<not> saysAbsent e)
      | Inl e \<Rightarrow> releaseThere R ns rel \<longrightarrow> \<not> saysAbsent e) \<and>
     (\<forall>kind name ns. objectThere R kind name ns \<longrightarrow>
        (case jsonpath k kind name ns uidPath of
           Inr uid \<Rightarrow> TrimSpace uid \<noteq> [] | Inl e \<Rightarrow> \<not> saysAbsent e))"

definition standing :: "reality \<Rightarrow> string \<Rightarrow> bool" where
  "standing R x \<longleftrightarrow>
     (let spec = specOf x
      in if SpecRelease spec \<noteq> [] then releaseThere R (SpecNamespace spec) (SpecRelease spec)
         else objectThere R (map lower (WorkloadKind spec)) (WorkloadName spec) (SpecNamespace spec))"

text \<open>
  This installer's own: of a Helm component, the newest revision of its release is deployed, from
  the declared chart at the declared version, and carries the marker of this cluster; of a manifest
  component, the workload is there and carries the marker. No version is recorded on a workload.
\<close>

definition ownedNow :: "kube \<Rightarrow> ClusterConfig \<Rightarrow> string \<Rightarrow> bool" where
  "ownedNow k c x \<longleftrightarrow>
     (let spec = specOf x
      in if SpecRelease spec \<noteq> []
         then \<exists>items. helmSecrets k (SpecNamespace spec) (SpecRelease spec) = Inr items \<and>
                (\<exists>item\<in>set items. (\<forall>other\<in>set items. revisionOf other \<le> revisionOf item) \<and>
                   get (SecretLabels item) ''status'' = Some ''deployed'' \<and>
                   SecretChart item = Inr (SpecChart spec, SpecChartVersion spec) \<and>
                   label (SecretLabels item) ''ani.io/managed-by'' = CfgName c)
         else \<exists>uid owner.
                jsonpath k (map lower (WorkloadKind spec)) (WorkloadName spec) (SpecNamespace spec) uidPath = Inr uid \<and>
                TrimSpace uid \<noteq> [] \<and>
                jsonpath k (map lower (WorkloadKind spec)) (WorkloadName spec) (SpecNamespace spec) managedByPath =
                  Inr owner \<and> TrimSpace owner = CfgName c)"

text \<open>A search for words that cannot begin at the end of a prefix finds them in the prefix or after it.\<close>

lemma Contains_split:
  assumes "Contains (p @ e) w" "\<forall>i\<in>set [1 ..< length w]. \<not> HasSuffix p (take i w)" "w \<noteq> []"
  shows "Contains p w \<or> Contains e w"
  using assms
proof (induction p)
  case (Cons x p)
  have suffix: "\<forall>i\<in>set [1 ..< length w]. \<not> HasSuffix p (take i w)"
  proof (intro ballI notI)
    fix i assume i: "i \<in> set [1 ..< length w]" "HasSuffix p (take i w)"
    then have "HasSuffix (x # p) (take i w)" by (auto simp: HasSuffix_def Suc_diff_le)
    then show False using Cons.prems(2) i(1) by blast
  qed
  have here: "take (length w) (x # p) = w" if h: "take (length w) (x # p @ e) = w"
  proof (cases "length w \<le> length (x # p)")
    case True
    then have "take (length w) ((x # p) @ e) = take (length w) (x # p)" by (subst take_append) simp
    then show ?thesis using h by simp
  next
    case False
    let ?i = "length (x # p)"
    have "take ?i w = x # p" using h False by (metis append_Cons append_eq_conv_conj less_imp_le_nat not_le take_all_iff take_take min.absorb1 nle_le)
    then have "HasSuffix (x # p) (take ?i w)" by (simp add: HasSuffix_def)
    moreover have "?i \<in> set [1 ..< length w]" using False by auto
    ultimately show ?thesis using Cons.prems(2) by blast
  qed
  show ?case using Cons.prems(1) Cons.IH [OF _ suffix assms(3)] here by auto
qed simp

lemma Contains_append_cases:
  "\<not> Contains p w \<Longrightarrow> \<forall>i\<in>set [1 ..< length w]. \<not> HasSuffix p (take i w) \<Longrightarrow> w \<noteq> [] \<Longrightarrow>
   \<not> Contains e w \<Longrightarrow> \<not> Contains (p @ e) w"
  using Contains_split by blast

text \<open>The texts that the code puts around an error of \<^verbatim>\<open>kubectl\<close> do not say that something is absent.\<close>

definition silentFor :: "string \<Rightarrow> string \<Rightarrow> bool" where
  "silentFor p w \<longleftrightarrow> \<not> Contains p w \<and> list_all (\<lambda>i. \<not> HasSuffix p (take i w)) [1 ..< length w]"

definition silent :: "string \<Rightarrow> bool" where
  "silent p \<longleftrightarrow> silentFor p ''notfound'' \<and> silentFor p ''not found''"

lemma silentFor_append: "silentFor p w \<Longrightarrow> w \<noteq> [] \<Longrightarrow> Contains (p @ e) w \<Longrightarrow> Contains e w"
  using Contains_append_cases [of p w e] by (auto simp: silentFor_def list_all_iff)

lemma silent_append: "silent (map lower p) \<Longrightarrow> notFoundErr (p @ e) \<Longrightarrow> saysAbsent e"
  using silentFor_append [of "map lower p" "''notfound''" "map lower e"]
    silentFor_append [of "map lower p" "''not found''" "map lower e"]
  by (auto simp: silent_def notFoundErr_def saysAbsent_def)

lemma silent_texts:
  "list_all (\<lambda>(name, spec).
     silent (map lower (''list helm release secrets for '' @ SpecNamespace spec @ ''/'' @ SpecRelease spec @ '': '')) \<and>
     \<not> notFoundErr (''helm release '' @ SpecNamespace spec @ ''/'' @ SpecRelease spec @ '' has no readable revision''))
   componentInstallSpecs"
  by code_simp

lemma canonical_silent:
  assumes "canonical x"
  shows "silent (map lower (''list helm release secrets for '' @ SpecNamespace (specOf x) @ ''/'' @
      SpecRelease (specOf x) @ '': ''))"
    and "\<not> notFoundErr (''helm release '' @ SpecNamespace (specOf x) @ ''/'' @ SpecRelease (specOf x) @
      '' has no readable revision'')"
proof -
  obtain spec where s: "get componentInstallSpecs x = Some spec" using assms by blast
  then have "(x, spec) \<in> set componentInstallSpecs" by (rule map_of_SomeD)
  moreover have "specOf x = spec" using s by (simp add: specOf_def)
  ultimately show
    "silent (map lower (''list helm release secrets for '' @ SpecNamespace (specOf x) @ ''/'' @ SpecRelease (specOf x) @ '': ''))"
    "\<not> notFoundErr (''helm release '' @ SpecNamespace (specOf x) @ ''/'' @ SpecRelease (specOf x) @ '' has no readable revision'')"
    using silent_texts unfolding list_all_iff by blast+
qed

lemma highestRevision_max:
  "highestRevision items (b, bi) = (best, bi') \<Longrightarrow>
     b \<le> best \<and> (\<forall>other\<in>set items. revisionOf other \<le> best) \<and>
     (bi' = bi \<and> best = b \<or> (\<exists>item\<in>set items. bi' = Some item \<and> revisionOf item = best))"
proof (induction items arbitrary: b bi)
  case (Cons i items)
  show ?case
  proof (cases "b < revisionOf i")
    case True
    then show ?thesis using Cons.IH [of "revisionOf i" "Some i"] Cons.prems by auto
  next
    case False
    then show ?thesis using Cons.IH [of b bi] Cons.prems by auto
  qed
qed simp

text \<open>What the state of a release means for its secrets.\<close>

lemma helmCurrentRelease_Inr:
  assumes "helmCurrentRelease k ns rel = Inr st"
  obtains items item where "helmSecrets k ns rel = Inr items" "item \<in> set items"
    "\<forall>other\<in>set items. revisionOf other \<le> revisionOf item"
    "SecretChart item = Inr (RelChart st, RelVersion st)" "RelStatus st = label (SecretLabels item) ''status''"
    "RelLabels st = SecretLabels item"
proof -
  obtain items where items: "helmSecrets k ns rel = Inr items" "items \<noteq> []"
    using assms by (auto simp: helmCurrentRelease_def split: sum.splits if_splits)
  obtain best item where h: "highestRevision items (- 1, None) = (best, Some item)"
    using assms items by (auto simp: helmCurrentRelease_def split: prod.splits option.splits)
  show ?thesis
    using highestRevision_max [OF h] assms items h
    by (intro that [OF items(1), of item]) (auto simp: helmCurrentRelease_def split: sum.splits)
qed

lemma helmCurrentRelease_absent:
  assumes "honest R k" "canonical x" "releaseThere R (SpecNamespace (specOf x)) (SpecRelease (specOf x))"
    "helmCurrentRelease k (SpecNamespace (specOf x)) (SpecRelease (specOf x)) = Inl e"
  shows "\<not> notFoundErr e"
proof -
  let ?ns = "SpecNamespace (specOf x)" and ?rel = "SpecRelease (specOf x)"
  have h: "case helmSecrets k ?ns ?rel of
      Inr items \<Rightarrow> (items = [] \<longleftrightarrow> \<not> releaseThere R ?ns ?rel) \<and>
        (\<forall>item\<in>set items. \<forall>e. SecretChart item = Inl e \<longrightarrow> \<not> saysAbsent e)
    | Inl e \<Rightarrow> releaseThere R ?ns ?rel \<longrightarrow> \<not> saysAbsent e"
    using assms(1) unfolding honest_def by blast
  show ?thesis
  proof (cases "helmSecrets k ?ns ?rel")
    case (Inl e0)
    then have "e = (''list helm release secrets for '' @ ?ns @ ''/'' @ ?rel @ '': '') @ e0"
      using assms(4) by (simp add: helmCurrentRelease_def)
    then show ?thesis
      using silent_append [OF canonical_silent(1) [OF assms(2)], of e0] h Inl assms(3) by auto
  next
    case (Inr items)
    then have "items \<noteq> []" using h assms(3) by simp
    obtain best bi where hr: "highestRevision items (- 1, None) = (best, bi)" by (cases "highestRevision items (- 1, None)")
    show ?thesis
    proof (cases bi)
      case None
      then show ?thesis using assms(4) Inr \<open>items \<noteq> []\<close> hr canonical_silent(2) [OF assms(2)]
        by (auto simp: helmCurrentRelease_def)
    next
      case (Some item)
      then have "item \<in> set items" using highestRevision_max [OF hr] by auto
      moreover have "SecretChart item = Inl e"
        using assms(4) Inr \<open>items \<noteq> []\<close> hr Some by (auto simp: helmCurrentRelease_def split: sum.splits)
      ultimately show ?thesis using h Inr unfolding notFoundErr_def saysAbsent_def by auto
    qed
  qed
qed

lemma probe_planned:
  assumes "probe k c x = Inr (rowPlanned, owner)" "honest R k" "canonical x"
  shows "\<not> standing R x"
proof (cases "SpecRelease (specOf x) = []")
  case False
  then obtain e where "helmCurrentRelease k (SpecNamespace (specOf x)) (SpecRelease (specOf x)) = Inl e" "notFoundErr e"
    using assms(1) by (auto simp: probe_def probeRelease_def Let_def split: if_splits sum.splits)
  then show ?thesis using helmCurrentRelease_absent [OF assms(2, 3)] False by (auto simp: standing_def Let_def)
next
  case True
  let ?kind = "map lower (WorkloadKind (specOf x))" and ?name = "WorkloadName (specOf x)"
  let ?ns = "SpecNamespace (specOf x)"
  have "objectThere R ?kind ?name ?ns \<longrightarrow>
      (case jsonpath k ?kind ?name ?ns uidPath of Inr uid \<Rightarrow> TrimSpace uid \<noteq> [] | Inl e \<Rightarrow> \<not> saysAbsent e)"
    using assms(2) unfolding honest_def by blast
  then show ?thesis
    using assms(1) True
    by (auto simp: probe_def probeWorkload_def standing_def Let_def bind_res_Inr_conv saysAbsent_def notFoundErr_def
        split: if_splits sum.splits)
qed

lemma label_Some: "v \<noteq> [] \<Longrightarrow> label ls k = v \<longleftrightarrow> get ls k = Some v"
  by (auto simp: label_def split: option.splits)

lemma probe_installed:
  assumes "probe k c x = Inr (rowInstalled, owner)"
  shows "ownedNow k c x"
proof (cases "SpecRelease (specOf x) = []")
  case False
  then obtain st where st: "helmCurrentRelease k (SpecNamespace (specOf x)) (SpecRelease (specOf x)) = Inr st"
    "RelStatus st = ''deployed''" "RelChart st = SpecChart (specOf x)" "RelVersion st = SpecChartVersion (specOf x)"
    "label (RelLabels st) aniManagedByLabel = CfgName c"
    using assms by (auto simp: probe_def probeRelease_def Let_def split: if_splits sum.splits)
  then show ?thesis
    using False by (elim helmCurrentRelease_Inr) (auto simp: ownedNow_def Let_def label_Some aniManagedByLabel_def)
next
  case True
  then show ?thesis
    using assms by (auto simp: probe_def probeWorkload_def ownedNow_def Let_def bind_res_Inr_conv TrimSpace_def
        split: if_splits sum.splits)
qed

text \<open>What an accepted execution has checked.\<close>

lemma executeRows_Inr:
  assumes "executeRows a k c want currentLock rows = Inr (executed, already)"
  obtains full fresh where "validateComponentsPlan rows = None"
    "validatePlanClosure c rows (plannedNames rows) = Inr full" "preflightLiveCluster k c full = None"
    "preflightComponentImages a full = None" "preflightComponentOwnership k c full = Inr fresh"
    "sceneCheck fresh rows = None" "lockRefusal want currentLock = None"
    "executed = plannedNames rows" "already = alreadyInstalledNames rows"
  using assms unfolding executeRows_def by (auto simp: bind_res_Inr_conv checked_Inr)

lemma closure_rows:
  assumes "validateComponentsPlan rows = None" "validatePlanClosure c rows planned = Inr full"
  shows "distinct (map PcComponent rows)" "rows \<noteq> []"
    "\<forall>r\<in>set rows. PcStatus r = rowPlanned \<or> PcStatus r = rowInstalled"
    "distinct full" "ordered c full" "set full = PcComponent ` set rows"
    "\<forall>x\<in>set full. canonical x \<and> enabledIn c x"
proof -
  show rows: "distinct (map PcComponent rows)" "rows \<noteq> []"
      "\<forall>r\<in>set rows. PcStatus r = rowPlanned \<or> PcStatus r = rowInstalled"
    using assms(1) validatePlanRows_None [of rows "[]"]
    by (auto simp: validateComponentsPlan_def split: option.splits if_splits)
  have full: "componentsScope c (map PcComponent rows) = Inr full" "set full \<subseteq> PcComponent ` set rows"
      "length full = length rows"
    using assms(2) by (auto simp: validatePlanClosure_def Let_def bind_res_Inr_conv filter_empty_conv
        split: if_splits option.splits)
  show closed: "distinct full" "ordered c full" "\<forall>x\<in>set full. canonical x \<and> enabledIn c x"
    using componentsScope_closed [OF full(1)] by auto
  show "set full = PcComponent ` set rows"
    using card_subset_eq [OF _ full(2)] full(3) distinct_card [OF closed(1)] distinct_card [OF rows(1)]
    by (simp add: image_set [symmetric] del: image_set)
qed

text \<open>The data path of the cluster: every workload of its network has all the pods it wants.\<close>

definition dataPath :: "ClusterConfig \<Rightarrow> (string \<times> string) set" where
  "dataPath c =
     (if CfgStack c \<in> {[], ''kcn''} then {(''kcn-system'', ''kcn-cni-ds''), (''kcn-system'', ''kcn-ovs-ds'')}
      else {(''kube-system'', ''kube-ovn-cni''), (''kube-system'', ''ovs-ovn'')}) \<union>
     (if CfgMultus c then {(''kube-system'', ''ani-multus'')} else {})"

definition allReady :: "kube \<Rightarrow> string \<times> string \<Rightarrow> bool" where
  "allReady k w \<longleftrightarrow>
     (\<exists>raw d r desired ready. jsonpath k ''daemonset'' (snd w) (fst w) daemonPath = Inr raw \<and>
        Fields raw = [d, r] \<and> Atoi d = Some desired \<and> Atoi r = Some ready \<and> 0 < desired \<and> desired \<le> ready)"

lemma firstRefusal_None: "firstRefusal check xs = None \<longleftrightarrow> (\<forall>x\<in>set xs. check x = None)"
  by (induction xs) (auto split: option.splits)

lemma workloadHealth_ready: "workloadHealth k w = None \<Longrightarrow> allReady k w"
  by (auto simp: workloadHealth_def allReady_def map_eq_Cons_conv
      split: prod.splits sum.splits list.splits option.splits if_splits)

lemma preflight_ready:
  assumes "preflightLiveCluster k c scope = None"
  shows "\<forall>w\<in>dataPath c. allReady k w"
proof -
  obtain probes where "cniHealthProbes (CfgStack c) = Inr probes"
    "\<forall>w\<in>set (if CfgMultus c then probes @ [(''kube-system'', ''ani-multus'')] else probes). workloadHealth k w = None"
    using assms
    by (auto simp: preflightLiveCluster_def checkCNIHealth_def firstRefusal_None
        split: sum.splits if_splits option.splits)
  then show ?thesis
    by (auto simp: cniHealthProbes_def networkStack_def dataPath_def split: if_splits intro: workloadHealth_ready)
qed

text \<open>
  Claim C12. What an execution writes. The components it executes and those it leaves alone are the
  rows of the plan, each once. When \<^verbatim>\<open>kubectl\<close> answers as it is documented, nothing stands where it
  is about to install: no release and no object of that name exists. What it leaves alone is this
  installer's: the newest revision of the release is deployed from the declared chart at the
  declared version and carries the cluster's marker, a workload of a manifest carries the marker.
  Whatever a row depends on is among the rows and enabled, and every workload of the cluster's
  network is ready.
\<close>

theorem executeRows_sound:
  assumes "executeRows a k c want currentLock rows = Inr (executed, already)" "honest R k"
  shows "distinct (executed @ already) \<and> set executed \<union> set already = PcComponent ` set rows \<and>
         (\<forall>x\<in>set executed. \<not> standing R x) \<and> (\<forall>x\<in>set already. ownedNow k c x) \<and>
         (\<forall>x\<in>set executed \<union> set already. canonicalDeps c x \<subseteq> set executed \<union> set already \<and> enabledIn c x) \<and>
         (\<forall>w\<in>dataPath c. allReady k w)"
proof -
  obtain full fresh where run: "validateComponentsPlan rows = None"
      "validatePlanClosure c rows (plannedNames rows) = Inr full" "preflightLiveCluster k c full = None"
      "preflightComponentOwnership k c full = Inr fresh" "sceneCheck fresh rows = None"
      "executed = plannedNames rows" "already = alreadyInstalledNames rows"
    using executeRows_Inr [OF assms(1)] by metis
  note rows = closure_rows [OF run(1, 2)]
  have fresh: "map PcComponent fresh = full" "\<forall>r\<in>set fresh. \<exists>owner. probe k c (PcComponent r) = Inr (PcStatus r, owner)"
    using preflight_rows [OF run(4)] by auto
  have probed: "\<exists>owner. probe k c (PcComponent r) = Inr (PcStatus r, owner)" if r: "r \<in> set rows" for r
  proof -
    have "PcComponent r \<in> PcComponent ` set fresh" using r rows(6) fresh(1) by (metis image_set imageI)
    then obtain f where f: "f \<in> set fresh" "PcComponent f = PcComponent r" by auto
    have "freshStatus fresh (PcComponent r) = PcStatus f"
      using freshStatus_row [of fresh f] fresh(1) rows(4) f by simp
    then have "PcStatus f = PcStatus r" using run(5) rows(3) r by (auto simp: sceneCheck_None)
    then show ?thesis using fresh(2) f by metis
  qed
  have "canonicalDeps c x \<subseteq> set full" if "x \<in> set full" for x
    using that rows(5) unfolding ordered_def by (metis split_list Un_iff set_append subset_iff)
  moreover have split: "set executed \<union> set already = PcComponent ` set rows"
    using legal_rows_split [OF rows(3)] run by simp
  moreover have "distinct (executed @ already)" using legal_rows_distinct [OF rows(1)] run by simp
  moreover have "\<not> standing R x" if x: "x \<in> set executed" for x
  proof -
    obtain r where r: "r \<in> set rows" "PcComponent r = x" "PcStatus r = rowPlanned"
      using x unfolding run(6) plannedNames_def by auto
    moreover have "canonical x" using r(1, 2) rows(6, 7) by blast
    ultimately show ?thesis using probed [OF r(1)] probe_planned [OF _ assms(2)] by metis
  qed
  moreover have "\<forall>x\<in>set already. ownedNow k c x"
    using probed probe_installed unfolding run(7) alreadyInstalledNames_def by force
  ultimately show ?thesis using rows(6, 7) preflight_ready [OF run(3)] by auto
qed


subsection \<open>A logging backend added to a running collector\<close>

definition demoSite :: ClusterConfig where
  "demoSite =
     \<lparr>CfgName = ''ani'', CfgStack = ''kubeovn'', CfgMultus = True,
      CfgComponents = \<lparr>CertManager = False, PostgreSQL = False, Valkey = False, NATS = False, RustFS = False,
        Milvus = False, MetricsServer = False, SnapshotController = False, KubeVirt = False, Volcano = False,
        Harbor = False, Metrics = False, LoggingBackend = ''opensearch'',
        StorageClasses = [(''logging'', ''ani-block'')]\<rparr>,
      CfgStorage = \<lparr>StorageEnabled = True, StorageProvider = ''ceph'', ExternalClass = []\<rparr>,
      CfgObjectStorage = None\<rparr>"

definition demoKube :: kube where
  "demoKube =
     \<lparr>serverVersion = Inr ''v1.35.8'',
      helmSecrets = (\<lambda>ns rel. if rel = ''ani-fluent-bit''
        then Inr [\<lparr>SecretLabels = [(''version'', ''1''), (''status'', ''superseded'')], SecretChart = Inr (''fluent-bit'', ''0.1'')\<rparr>,
                  \<lparr>SecretLabels = [(''version'', ''2''), (''status'', ''deployed''), (''ani.io/managed-by'', ''ani'')],
                    SecretChart = Inr (''fluent-bit'', ''0.58.2'')\<rparr>]
        else Inr []),
      jsonpath = (\<lambda>resource name ns path.
        if resource = ''daemonset'' then Inr ''3 3''
        else if resource = ''namespace'' \<or> resource = ''storageclass'' \<and> name = ''ani-block'' then Inr ''7f3a''
        else Inl ''Forbidden'')\<rparr>"

definition demoArtifact :: artifact where
  "demoArtifact =
     \<lparr>registryAddress = Inr ''10.0.0.1:5000'', materialsLock = None,
      imageKeys = [\<lparr>KeyGroup = ''logs'', KeyName = ''opensearch'', KeyBackend = ''opensearch'', KeyOriginal = ''opensearch:3.8.0''\<rparr>,
        \<lparr>KeyGroup = ''logs'', KeyName = ''loki'', KeyBackend = ''loki'', KeyOriginal = ''loki:3.5''\<rparr>],
      imageTable = Inr (\<lambda>original. if original = ''opensearch:3.8.0'' then Some ''hauler/opensearch'' else None),
      gateVerify = (\<lambda>row. None)\<rparr>"

definition demoRows :: "PlanComponent list" where
  "demoRows = (case planRows demoArtifact demoKube demoSite [''opensearch''] of Inl e \<Rightarrow> [] | Inr rows \<Rightarrow> rows)"

lemma demo_scope: "componentsScope demoSite [''opensearch''] = Inr [''fluent-bit'', ''opensearch'']"
  by code_simp

lemma demo_plan: "planRows demoArtifact demoKube demoSite [''opensearch''] = Inr demoRows"
  by code_simp

lemma demo_rows: "plannedNames demoRows = [''opensearch''] \<and> alreadyInstalledNames demoRows = [''fluent-bit'']"
  by code_simp

theorem componentsScope_closed_witness:
  "ordered demoSite [''fluent-bit'', ''opensearch''] \<and>
   set [''fluent-bit'', ''opensearch''] \<subseteq> (dependsOn demoSite)\<^sup>* `` requested [''opensearch'']"
  using componentsScope_closed [OF demo_scope] by blast

theorem fresh_plan_executes_witness:
  "executeRows demoArtifact demoKube demoSite ''3c5a'' ''3c5a'' demoRows = Inr ([''opensearch''], [''fluent-bit'']) \<and>
   executeRows demoArtifact demoKube demoSite ''3c5a'' ''77d0'' demoRows = Inl LockDiffers"
  using fresh_plan_executes [OF demo_plan, of "''3c5a''" "''3c5a''"]
    fresh_plan_executes [OF demo_plan, of "''3c5a''" "''77d0''"] demo_rows
  by simp

lemma demo_execute:
  "executeRows demoArtifact demoKube demoSite [] ''3c5a'' demoRows = Inr ([''opensearch''], [''fluent-bit''])"
  by code_simp

definition demoReality :: reality where
  "demoReality =
     \<lparr>releaseThere = (\<lambda>ns rel. rel = ''ani-fluent-bit''), objectThere = (\<lambda>kind name ns. kind = ''daemonset'')\<rparr>"

lemma demo_honest: "honest demoReality demoKube"
  by (auto simp: honest_def demoReality_def demoKube_def TrimSpace_def is_space_def)

theorem executeRows_sound_witness:
  "\<not> standing demoReality ''opensearch'' \<and> ownedNow demoKube demoSite ''fluent-bit'' \<and>
   allReady demoKube (''kube-system'', ''ani-multus'')"
  using executeRows_sound [OF demo_execute demo_honest] by (simp add: dataPath_def demoSite_def)

text \<open>
  What the code cannot tell apart: \<^verbatim>\<open>notFoundErr\<close> looks for its words anywhere in the text of an
  error, so a \<^verbatim>\<open>kubectl\<close> that is not on the path reads as a release that is not there.
\<close>

lemma missing_kubectl_reads_as_absent:
  "probe (demoKube\<lparr>helmSecrets := (\<lambda>ns rel. Inl ''kubectl get secret: : exec: kubectl: executable file not found in $PATH'')\<rparr>)
     demoSite ''fluent-bit'' = Inr (rowPlanned, ''helm release ani-fluent-bit'')"
  by code_simp

end
