(* ===== verification/Acceptance.thy ===== *)
theory Acceptance
  imports Template
begin

text \<open>
  The acceptance level of \<^verbatim>\<open>kk ani verify\<close> (\<^verbatim>\<open>pkg/ani/acceptance_plan.go\<close>, \<^verbatim>\<open>verify.go\<close>,
  \<^verbatim>\<open>pod_delete.go\<close>): the business objects an acceptance may change, the reads that authorise a
  change, the durable ledger that gives each pair of base run and object one change, the one
  recreation of a pod, and the plans of steps around it. Several attempts run at the same time, at
  any interleaving, and each may crash at any point; the product lock is not assumed. What the
  environment does (\<^verbatim>\<open>kubectl\<close>, the file system, the API server, the checks of a protocol) is an
  argument of each step.
\<close>

subsection \<open>Targets\<close>

record acceptanceTarget =
  TNamespace :: string
  ControllerKind :: string
  ControllerName :: string
  PodName :: string
  PVCName :: string
  TContainer :: string
  Protocol :: string
  AuxMarkerPath :: string
  ClientImage :: string
  LedgerToken :: string
  NodeName :: string
  PodSelector :: string
  HostPath :: string

definition statefulTarget ::
  "string \<Rightarrow> string \<Rightarrow> string \<Rightarrow> string \<Rightarrow> string \<Rightarrow> string \<Rightarrow> string \<Rightarrow> string \<Rightarrow> acceptanceTarget" where
  "statefulTarget key ns controller pod pvc container protocol marker =
     \<lparr>TNamespace = ns, ControllerKind = ''StatefulSet'', ControllerName = controller, PodName = pod,
      PVCName = pvc, TContainer = container, Protocol = protocol, AuxMarkerPath = marker, ClientImage = [],
      LedgerToken = key, NodeName = [], PodSelector = [], HostPath = []\<rparr>"

definition acceptanceTargets :: "acceptanceTarget gomap" where
  "acceptanceTargets =
     [(''postgresql'', statefulTarget ''postgresql'' ''ani-platform'' ''postgresql'' ''postgresql-0''
         ''data-postgresql-0'' ''postgresql'' ''postgres-sql'' ''/var/lib/postgresql/data/ani-acceptance-marker''),
      (''prometheus'', statefulTarget ''prometheus'' ''ani-observability'' ''prometheus-ani-metrics-prometheus''
         ''prometheus-ani-metrics-prometheus-0''
         ''prometheus-ani-metrics-prometheus-db-prometheus-ani-metrics-prometheus-0'' ''prometheus''
         ''metrics-prometheus'' []),
      (''alertmanager'', statefulTarget ''alertmanager'' ''ani-observability''
         ''alertmanager-ani-metrics-alertmanager'' ''alertmanager-ani-metrics-alertmanager-0''
         ''alertmanager-ani-metrics-alertmanager-db-alertmanager-ani-metrics-alertmanager-0'' ''alertmanager''
         ''metrics-alertmanager'' []),
      (''nats'', (statefulTarget ''nats'' ''ani-platform'' ''nats'' ''nats-0'' ''nats-js-nats-0'' ''nats''
         ''nats-jetstream'' ''/data/ani-acceptance-marker'')\<lparr>ClientImage := ''natsio/nats-box:0.19.7''\<rparr>)]"

definition ledgerKey :: "acceptanceTarget \<Rightarrow> string" where
  "ledgerKey t = (if TrimSpace (LedgerToken t) \<noteq> [] then TrimSpace (LedgerToken t) else ControllerName t)"

text \<open>The name of the ledger file within the state directory of the cluster.\<close>

definition ledgerFile :: "string \<Rightarrow> acceptanceTarget \<Rightarrow> string" where
  "ledgerFile runID t = ''ledger-'' @ runID @ ''-'' @ ledgerKey t @ ''.json''"

datatype target_error = NoController | NoProtocol | NoPodOrNode | PodAndNode | NodeWithoutSelector
  | TwoStores | NoStore | HostPathNotDaemon

definition declareTargetCompletely :: "acceptanceTarget \<Rightarrow> target_error option" where
  "declareTargetCompletely t =
     (if TrimSpace (TNamespace t) = [] \<or> TrimSpace (ControllerKind t) = [] \<or> TrimSpace (ControllerName t) = []
      then Some NoController
      else if Protocol t = [] then Some NoProtocol
      else if PodName t = [] \<and> NodeName t = [] then Some NoPodOrNode
      else if PodName t \<noteq> [] \<and> NodeName t \<noteq> [] then Some PodAndNode
      else if NodeName t \<noteq> [] \<and> PodSelector t = [] then Some NodeWithoutSelector
      else if PVCName t \<noteq> [] \<and> HostPath t \<noteq> [] then Some TwoStores
      else if PVCName t = [] \<and> HostPath t = [] then Some NoStore
      else if HostPath t \<noteq> [] \<and> ControllerKind t \<noteq> ''DaemonSet'' then Some HostPathNotDaemon
      else None)"

subsection \<open>Authorising a target\<close>

text \<open>
  A read answers its output, trimmed, and whether it failed: \<open>readPath\<close> takes resource, name,
  namespace and path, \<open>readDaemonPod\<close> namespace, selector and node. Each question is asked once
  while a target is authorised, so one function stands for answers given at different times.
\<close>

record reads =
  readPath :: "string \<Rightarrow> string \<Rightarrow> string \<Rightarrow> string \<Rightarrow> string \<times> bool"
  readDaemonPod :: "string \<Rightarrow> string \<Rightarrow> string \<Rightarrow> string \<times> bool"

datatype auth_error = NoNode | NoSelector | NoDaemonPod | PodUnreadable | OtherOwner | NotController
  | ControllerUnreadable | OtherGeneration | PVCUnreadable | VolumesUnreadable | PVCNotMounted
  | PVCNotBound | OtherClaim | HostPathWithoutNode | HostPathNotMounted | NodeUnreadable | NothingSurvives

fun fields_from :: "string \<Rightarrow> string \<Rightarrow> string list" where
  "fields_from [] cur = (if cur = [] then [] else [cur])"
| "fields_from (c # s) cur =
     (if is_space c then (if cur = [] then fields_from s [] else cur # fields_from s [])
      else fields_from s (cur @ [c]))"

definition Fields :: "string \<Rightarrow> string list" where
  "Fields s = fields_from s []"

definition jsonpathListContains :: "string \<Rightarrow> string \<Rightarrow> bool" where
  "jsonpathListContains spaceSeparated want \<longleftrightarrow> want \<in> set (Fields spaceSeparated)"

text \<open>The pod a target means: its declared name, or the pod of its daemon on the declared node.\<close>

definition targetPod :: "reads \<Rightarrow> acceptanceTarget \<Rightarrow> auth_error + string" where
  "targetPod live t =
     (if PodName t \<noteq> [] then Inr (PodName t)
      else if NodeName t = [] then Inl NoNode
      else if PodSelector t = [] then Inl NoSelector
      else case readDaemonPod live (TNamespace t) (PodSelector t) (NodeName t) of
             (out, failed) \<Rightarrow> if failed \<or> TrimSpace out = [] then Inl NoDaemonPod else Inr (TrimSpace out))"

definition uid_path :: string where "uid_path = ''{.metadata.uid}''"

text \<open>The controller must own the pod in its present generation.\<close>

definition authorizeOwner :: "reads \<Rightarrow> acceptanceTarget \<Rightarrow> string \<Rightarrow> auth_error + string \<times> string" where
  "authorizeOwner live t pod =
     (let podRead = readPath live ''pod'' pod (TNamespace t);
          (podUID, podFailed) = podRead uid_path;
          (ownerName, ownerFailed) = podRead ''{.metadata.ownerReferences[0].name}'';
          (isController, isFailed) = podRead ''{.metadata.ownerReferences[0].controller}'';
          (controllerUID, controllerFailed) =
            readPath live (map lower (ControllerKind t)) (ControllerName t) (TNamespace t) uid_path;
          (ownerUID, ownerUIDFailed) = podRead ''{.metadata.ownerReferences[0].uid}''
      in if podFailed \<or> podUID = [] then Inl PodUnreadable
         else if ownerFailed \<or> ownerName \<noteq> ControllerName t then Inl OtherOwner
         else if isFailed \<or> isController \<noteq> ''true'' then Inl NotController
         else if controllerFailed \<or> controllerUID = [] then Inl ControllerUnreadable
         else if ownerUIDFailed \<or> ownerUID \<noteq> controllerUID then Inl OtherGeneration
         else Inr (podUID, controllerUID))"

text \<open>
  What must survive: the claim the pod mounts, bound to a volume that is claimed by it, or the node
  of a pod that mounts the declared host path. The error of reading the name of the volume is
  ignored, as in the source.
\<close>

definition authorizeStore :: "reads \<Rightarrow> acceptanceTarget \<Rightarrow> string \<Rightarrow> auth_error + string" where
  "authorizeStore live t pod =
     (let podRead = readPath live ''pod'' pod (TNamespace t)
      in if PVCName t \<noteq> [] then
           (let (stableUID, pvcFailed) = readPath live ''pvc'' (PVCName t) (TNamespace t) uid_path;
                (claims, claimsFailed) = podRead ''{.spec.volumes[*].persistentVolumeClaim.claimName}'';
                (pvName, ignored) = readPath live ''pvc'' (PVCName t) (TNamespace t) ''{.spec.volumeName}'';
                (claimRef, refFailed) = readPath live ''persistentvolume'' pvName [] ''{.spec.claimRef.uid}''
            in if pvcFailed \<or> stableUID = [] then Inl PVCUnreadable
               else if claimsFailed then Inl VolumesUnreadable
               else if \<not> jsonpathListContains claims (PVCName t) then Inl PVCNotMounted
               else if pvName = [] then Inl PVCNotBound
               else if refFailed \<or> claimRef \<noteq> stableUID then Inl OtherClaim
               else Inr stableUID)
         else if HostPath t \<noteq> [] then
           (let (mounts, mountsFailed) = podRead ''{.spec.volumes[*].hostPath.path}'';
                (nodeUID, nodeFailed) = readPath live ''node'' (NodeName t) [] uid_path
            in if NodeName t = [] then Inl HostPathWithoutNode
               else if mountsFailed then Inl VolumesUnreadable
               else if \<not> jsonpathListContains mounts (HostPath t) then Inl HostPathNotMounted
               else if nodeFailed \<or> nodeUID = [] then Inl NodeUnreadable
               else Inr nodeUID)
         else Inl NothingSurvives)"

text \<open>The pod, its uid, the uid that must survive, and the uid of the controller.\<close>

definition authorizeTarget ::
  "reads \<Rightarrow> acceptanceTarget \<Rightarrow> auth_error + string \<times> string \<times> string \<times> string" where
  "authorizeTarget live t =
     bind_res (targetPod live t) (\<lambda>pod.
     bind_res (authorizeOwner live t pod) (\<lambda>(podUID, controllerUID).
     bind_res (authorizeStore live t pod) (\<lambda>stableUID.
       Inr (pod, podUID, stableUID, controllerUID))))"

subsection \<open>The ledger\<close>

definition VerifyStatusPass :: string where "VerifyStatusPass = ''pass''"
definition VerifyStatusFailed :: string where "VerifyStatusFailed = ''fail''"
definition VerifyStatusNotRun :: string where "VerifyStatusNotRun = ''not_run''"

definition ledgerStateAttempted :: string where "ledgerStateAttempted = ''attempted''"
definition ledgerStateDone :: string where "ledgerStateDone = ''done''"
definition ledgerStateUnknown :: string where "ledgerStateUnknown = ''unknown''"
definition ledgerStateRefused :: string where "ledgerStateRefused = ''refused''"

record acceptanceLedger =
  LState :: string
  LRunID :: string
  LTarget :: string
  OldPodUID :: string
  OldPVCUID :: string
  NewPodUID :: string
  LController :: string
  LToken :: string
  LOutcome :: string

text \<open>A ledger file reads as a record, or as text that is none (partly written, damaged).\<close>

datatype lfile = Corrupt | Ledger acceptanceLedger

type_synonym disk = "string \<Rightarrow> lfile option"

definition terminalLedgerWithNewPod ::
  "acceptanceLedger \<Rightarrow> string \<Rightarrow> string \<Rightarrow> string \<Rightarrow> acceptanceLedger" where
  "terminalLedgerWithNewPod rec state outcome newPod =
     rec\<lparr>LState := state, LOutcome := outcome, NewPodUID := newPod\<rparr>"

definition terminalLedger :: "acceptanceLedger \<Rightarrow> string \<Rightarrow> string \<Rightarrow> acceptanceLedger" where
  "terminalLedger rec state outcome = terminalLedgerWithNewPod rec state outcome []"

text \<open>What a reader of the file reports of its state.\<close>

definition recordedState :: "lfile \<Rightarrow> string" where
  "recordedState f = (case f of Corrupt \<Rightarrow> ledgerStateUnknown | Ledger rec \<Rightarrow> LState rec)"

subsection \<open>The conditional delete\<close>

datatype deleteOutcome = DeleteDeleted | DeleteConflict | DeleteNotFound | DeleteForbidden | DeleteTimeout | DeleteFailed

definition outcomeText :: "deleteOutcome \<Rightarrow> string" where
  "outcomeText out =
     (case out of DeleteDeleted \<Rightarrow> ''deleted'' | DeleteConflict \<Rightarrow> ''conflict'' | DeleteNotFound \<Rightarrow> ''not_found''
      | DeleteForbidden \<Rightarrow> ''forbidden'' | DeleteTimeout \<Rightarrow> ''timeout'' | DeleteFailed \<Rightarrow> ''failed'')"

text \<open>
  The pods of the cluster by namespace and name, and the API server: given a namespace, a name and
  the uid in the preconditions of the delete, it answers and leaves the pods.
\<close>

type_synonym pods = "string \<times> string \<Rightarrow> string option"
type_synonym server = "pods \<Rightarrow> string \<Rightarrow> string \<Rightarrow> string \<Rightarrow> deleteOutcome \<times> pods"

text \<open>
  \<^verbatim>\<open>deletePodWithUIDPrecondition\<close>: the outcome and the pods, and whether a request was sent at
  all. Nothing is sent without a namespace, a name and a uid, or from a finished context.
\<close>

definition deletePodWithUIDPrecondition ::
  "server \<Rightarrow> bool \<Rightarrow> pods \<Rightarrow> string \<Rightarrow> string \<Rightarrow> string \<Rightarrow> bool \<times> deleteOutcome \<times> pods" where
  "deletePodWithUIDPrecondition srv finished ps ns name authorizedUID =
     (if TrimSpace ns = [] \<or> TrimSpace name = [] \<or> TrimSpace authorizedUID = [] then (False, DeleteFailed, ps)
      else if finished then (False, DeleteFailed, ps)
      else (True, srv ps ns name authorizedUID))"

subsection \<open>One recreation\<close>

record stepOutcome =
  OutStatus :: string
  OutQuota :: string

definition failedWith :: "string \<Rightarrow> stepOutcome" where
  "failedWith quota = \<lparr>OutStatus = VerifyStatusFailed, OutQuota = quota\<rparr>"

text \<open>
  Where an attempt is in \<^verbatim>\<open>recreateOnce\<close>, named by the call it makes next. \<open>Intent\<close> has
  created the file, \<open>Synced\<close> has written, flushed and closed it, \<open>Unclaim\<close> removes it after a
  failure, \<open>Close\<close> writes the terminal record and then returns its outcome.
\<close>

datatype pc =
    Authorize
  | Peek string string string
  | Claim string string string
  | Intent string acceptanceLedger
  | Synced string acceptanceLedger
  | Unclaim acceptanceLedger
  | WriteData string acceptanceLedger
  | Recheck string acceptanceLedger
  | Delete string acceptanceLedger
  | Await string acceptanceLedger string
  | Survivor acceptanceLedger string
  | After acceptanceLedger string
  | ReadBack acceptanceLedger string
  | Close acceptanceLedger stepOutcome
  | Returned stepOutcome
  | Crashed

text \<open>What an attempt has observed and done, in order.\<close>

datatype event =
    EvAuthorized string string
  | EvClaimed
  | EvWritten string
  | EvRechecked string
  | EvDeleted string
  | EvReplaced string
  | EvSurvived string
  | EvReadBack string
  | EvClosed

record attempt =
  AtRun :: string
  AtTarget :: acceptanceTarget
  AtChecksAfter :: bool
  AtPc :: pc
  AtTrace :: "event list"

definition AtFile :: "attempt \<Rightarrow> string" where
  "AtFile a = ledgerFile (AtRun a) (AtTarget a)"

text \<open>
  The disk, the pods, the delete requests sent (ledger file, namespace, name, uid in the request)
  and the pods these requests removed.
\<close>

record cworld =
  Disk :: disk
  Pods :: pods
  Requests :: "(string \<times> string \<times> string \<times> string) list"
  Removed :: "(string \<times> string \<times> string) list"

text \<open>
  What one step of an attempt is answered. An operation on a file that fails may still have taken
  effect (\<open>Landed\<close>).
\<close>

record answers =
  Live :: reads
  IoError :: bool
  Landed :: bool
  Token :: string
  WriteOk :: bool
  Finished :: bool
  Server :: server
  DeadlinePassed :: bool
  AfterOk :: bool
  ReadBackOk :: bool

definition goto :: "attempt \<Rightarrow> pc \<Rightarrow> event list \<Rightarrow> attempt" where
  "goto a p evs = a\<lparr>AtPc := p, AtTrace := AtTrace a @ evs\<rparr>"

definition setFile :: "cworld \<Rightarrow> string \<Rightarrow> lfile option \<Rightarrow> cworld" where
  "setFile w f x = w\<lparr>Disk := (Disk w)(f := x)\<rparr>"

definition closeWith :: "attempt \<Rightarrow> acceptanceLedger \<Rightarrow> string \<Rightarrow> string \<Rightarrow> string \<Rightarrow> attempt" where
  "closeWith a rec state outcome newPod =
     goto a (Close (terminalLedgerWithNewPod rec state outcome newPod) (failedWith state)) []"

text \<open>
  The steps up to the claim. \<^verbatim>\<open>O_EXCL\<close> makes the test and the creation of the file one step; an
  error of the file system at any call of the claim gives the claim up.
\<close>

definition newLedger :: "attempt \<Rightarrow> string \<Rightarrow> string \<Rightarrow> string \<Rightarrow> acceptanceLedger" where
  "newLedger a podUID stableUID tok =
     \<lparr>LState = ledgerStateAttempted, LRunID = AtRun a, LTarget = LedgerToken (AtTarget a), OldPodUID = podUID,
      OldPVCUID = stableUID, NewPodUID = [],
      LController = ControllerKind (AtTarget a) @ ''/'' @ ControllerName (AtTarget a),
      LToken = ''ani-accept-'' @ tok, LOutcome = []\<rparr>"

definition claimStep :: "answers \<Rightarrow> cworld \<Rightarrow> attempt \<Rightarrow> cworld \<times> attempt" where
  "claimStep ans w a =
     (let f = AtFile a in
      case AtPc a of
        Authorize \<Rightarrow>
          (case authorizeTarget (Live ans) (AtTarget a) of
             Inl e \<Rightarrow> (w, goto a (Returned (failedWith [])) [])
           | Inr (pod, podUID, stableUID, controllerUID) \<Rightarrow>
               (w, goto a (Peek pod podUID stableUID) [EvAuthorized podUID stableUID]))
      | Peek pod podUID stableUID \<Rightarrow>
          (if IoError ans then (w, goto a (Returned (failedWith [])) [])
           else case Disk w f of
                  Some file \<Rightarrow> (w, goto a (Returned (failedWith (recordedState file))) [])
                | None \<Rightarrow> (w, goto a (Claim pod podUID stableUID) []))
      | Claim pod podUID stableUID \<Rightarrow>
          (if IoError ans then (w, goto a (Returned (failedWith [])) [])
           else case Disk w f of
                  Some file \<Rightarrow> (w, goto a (Returned (failedWith (recordedState file))) [])
                | None \<Rightarrow> (setFile w f (Some Corrupt),
                           goto a (Intent pod (newLedger a podUID stableUID (Token ans))) []))
      | Intent pod rec \<Rightarrow>
          (if IoError ans then (if Landed ans then setFile w f (Some (Ledger rec)) else w, goto a (Unclaim rec) [])
           else (setFile w f (Some (Ledger rec)), goto a (Synced pod rec) []))
      | Synced pod rec \<Rightarrow>
          (if IoError ans then (w, goto a (Unclaim rec) []) else (w, goto a (WriteData pod rec) [EvClaimed]))
      | Unclaim rec \<Rightarrow>
          (if IoError ans then (w, goto a (Returned (failedWith [])) [])
           else (setFile w f None, goto a (Returned (failedWith [])) []))
      | _ \<Rightarrow> (w, a))"

text \<open>The change: the data is written, the pod read again, and deleted with its uid.\<close>

definition changeStep :: "answers \<Rightarrow> cworld \<Rightarrow> attempt \<Rightarrow> cworld \<times> attempt" where
  "changeStep ans w a =
     (let f = AtFile a; ns = TNamespace (AtTarget a) in
      case AtPc a of
        WriteData pod rec \<Rightarrow>
          (if WriteOk ans then (w, goto a (Recheck pod rec) [EvWritten (LToken rec)])
           else (w, goto a (Close (terminalLedger rec ledgerStateUnknown ''write-failed'')
                              (failedWith ledgerStateAttempted)) []))
      | Recheck pod rec \<Rightarrow>
          (case readPath (Live ans) ''pod'' pod ns uid_path of
             (liveUID, failed) \<Rightarrow>
               if failed \<or> liveUID \<noteq> OldPodUID rec
               then (w, closeWith a rec ledgerStateRefused ''identity-changed'' [])
               else (w, goto a (Delete pod rec) [EvRechecked liveUID]))
      | Delete pod rec \<Rightarrow>
          (case deletePodWithUIDPrecondition (Server ans) (Finished ans) (Pods w) ns pod (OldPodUID rec) of
             (sent, outcome, ps) \<Rightarrow>
               (w\<lparr>Pods := ps,
                  Requests := Requests w @ (if sent then [(f, ns, pod, OldPodUID rec)] else []),
                  Removed := Removed w @ (case Pods w (ns, pod) of
                     Some uid \<Rightarrow> (if ps (ns, pod) = None then [(ns, pod, uid)] else []) | None \<Rightarrow> [])\<rparr>,
                if outcome = DeleteDeleted then goto a (Await pod rec []) [EvDeleted (OldPodUID rec)]
                else if outcome \<in> {DeleteConflict, DeleteForbidden, DeleteNotFound}
                then closeWith a rec ledgerStateRefused (outcomeText outcome) []
                else closeWith a rec ledgerStateUnknown (''delete-'' @ outcomeText outcome) []))
      | _ \<Rightarrow> (w, a))"

text \<open>
  The wait for the new pod, one round per step, and the checks after it. In a round the context is
  asked first, then the uid of the pod, then its readiness, then the deadline.
\<close>

definition ready_path :: string where
  "ready_path = ''{.status.conditions[?(@.type=='' @ [char_of (34::nat)] @ ''Ready'' @ [char_of (34::nat)] @ '')].status}''"

definition awaitStep :: "answers \<Rightarrow> attempt \<Rightarrow> string \<Rightarrow> acceptanceLedger \<Rightarrow> string \<Rightarrow> attempt" where
  "awaitStep ans a pod rec lastUID =
     (if Finished ans then closeWith a rec ledgerStateUnknown ''cancelled'' []
      else let podRead = readPath (Live ans) ''pod'' pod (TNamespace (AtTarget a));
               last1 = (case podRead uid_path of (out, failed) \<Rightarrow> if \<not> failed \<and> out \<noteq> [] then out else lastUID)
           in if last1 \<noteq> [] \<and> last1 \<noteq> OldPodUID rec \<and> fst (podRead ready_path) = ''True''
              then goto a (Survivor rec last1) [EvReplaced last1]
              else if DeadlinePassed ans then closeWith a rec ledgerStateUnknown ''not-ready'' last1
              else goto a (Await pod rec last1) [])"

definition checkStep :: "answers \<Rightarrow> cworld \<Rightarrow> attempt \<Rightarrow> cworld \<times> attempt" where
  "checkStep ans w a =
     (let f = AtFile a; t = AtTarget a in
      case AtPc a of
        Await pod rec lastUID \<Rightarrow> (w, awaitStep ans a pod rec lastUID)
      | Survivor rec newPod \<Rightarrow>
          (if PVCName t = [] then (w, goto a (After rec newPod) [])
           else case readPath (Live ans) ''pvc'' (PVCName t) (TNamespace t) uid_path of
                  (newStable, failed) \<Rightarrow>
                    if failed \<or> newStable = [] then (w, closeWith a rec ledgerStateUnknown ''pvc-gone'' newPod)
                    else if newStable \<noteq> OldPVCUID rec then (w, closeWith a rec ledgerStateDone ''pvc-replaced'' newPod)
                    else (w, goto a (After rec newPod) [EvSurvived newStable]))
      | After rec newPod \<Rightarrow>
          (if AtChecksAfter a \<and> \<not> AfterOk ans then (w, closeWith a rec ledgerStateDone ''identity-changed'' newPod)
           else (w, goto a (ReadBack rec newPod) []))
      | ReadBack rec newPod \<Rightarrow>
          (if \<not> ReadBackOk ans then (w, closeWith a rec ledgerStateDone ''data-lost'' newPod)
           else (w, goto a (Close (terminalLedgerWithNewPod rec ledgerStateDone VerifyStatusPass newPod)
                        \<lparr>OutStatus = VerifyStatusPass, OutQuota = ledgerStateDone\<rparr>) [EvReadBack (LToken rec)]))
      | Close rec res \<Rightarrow>
          (if IoError ans
           then (if Landed ans then setFile w f (Some (Ledger rec)) else w,
                 goto a (Returned (if OutStatus res = VerifyStatusPass then failedWith ledgerStateAttempted else res)) [])
           else (setFile w f (Some (Ledger rec)), goto a (Returned res) [EvClosed]))
      | _ \<Rightarrow> (w, a))"

definition recreateStep :: "answers \<Rightarrow> cworld \<Rightarrow> attempt \<Rightarrow> cworld \<times> attempt" where
  "recreateStep ans w a =
     (case AtPc a of
        WriteData pod rec \<Rightarrow> changeStep ans w a
      | Recheck pod rec \<Rightarrow> changeStep ans w a
      | Delete pod rec \<Rightarrow> changeStep ans w a
      | Await pod rec lastUID \<Rightarrow> checkStep ans w a
      | Survivor rec newPod \<Rightarrow> checkStep ans w a
      | After rec newPod \<Rightarrow> checkStep ans w a
      | ReadBack rec newPod \<Rightarrow> checkStep ans w a
      | Close rec res \<Rightarrow> checkStep ans w a
      | _ \<Rightarrow> claimStep ans w a)"

subsection \<open>Attempts side by side\<close>

text \<open>
  What the code relies on of the API server: a delete that carries a uid in its preconditions
  removes the pod of that name only if it has that uid, and answers that it did only if it did.
\<close>

definition honoursPreconditions :: "server \<Rightarrow> bool" where
  "honoursPreconditions srv \<longleftrightarrow>
     (\<forall>ps ns name uid.
        (snd (srv ps ns name uid) = ps \<or> ps (ns, name) = Some uid \<and> snd (srv ps ns name uid) = ps((ns, name) := None)) \<and>
        (fst (srv ps ns name uid) = DeleteDeleted \<longrightarrow>
           ps (ns, name) = Some uid \<and> snd (srv ps ns name uid) = ps((ns, name) := None)))"

text \<open>What a crash may leave of the ledger file: a file that is not flushed may be lost.\<close>

definition crashFiles :: "pc \<Rightarrow> lfile option \<Rightarrow> lfile option set" where
  "crashFiles p now =
     (case p of
        Intent pod rec \<Rightarrow> {None, Some Corrupt, Some (Ledger rec)}
      | Synced pod rec \<Rightarrow> {None, Some Corrupt, Some (Ledger rec)}
      | Unclaim rec \<Rightarrow> {None, Some Corrupt, Some (Ledger rec)}
      | Close rec res \<Rightarrow> {now, Some (Ledger rec)}
      | _ \<Rightarrow> {now})"

definition newAttempt :: "string \<Rightarrow> acceptanceTarget \<Rightarrow> bool \<Rightarrow> attempt" where
  "newAttempt runID t after =
     \<lparr>AtRun = runID, AtTarget = t, AtChecksAfter = after, AtPc = Authorize, AtTrace = []\<rparr>"

text \<open>
  An attempt begins, makes its next call, or crashes, or the cluster changes its pods by itself.
\<close>

inductive acceptanceStep :: "cworld \<times> attempt list \<Rightarrow> cworld \<times> attempt list \<Rightarrow> bool" where
  begins: "acceptanceStep (w, as) (w, as @ [newAttempt runID t after])"
| acts: "i < length as \<Longrightarrow> honoursPreconditions (Server ans) \<Longrightarrow> recreateStep ans w (as ! i) = (w1, a1) \<Longrightarrow>
    acceptanceStep (w, as) (w1, as[i := a1])"
| crashes: "i < length as \<Longrightarrow> x \<in> crashFiles (AtPc (as ! i)) (Disk w (AtFile (as ! i))) \<Longrightarrow>
    acceptanceStep (w, as) (setFile w (AtFile (as ! i)) x, as[i := (as ! i)\<lparr>AtPc := Crashed\<rparr>])"
| cluster: "acceptanceStep (w, as) (w\<lparr>Pods := ps\<rparr>, as)"

inductive acceptanceReaches :: "cworld \<times> attempt list \<Rightarrow> bool" where
  start: "Requests w = [] \<Longrightarrow> Removed w = [] \<Longrightarrow> acceptanceReaches (w, [])"
| steps: "acceptanceReaches s \<Longrightarrow> acceptanceStep s s1 \<Longrightarrow> acceptanceReaches s1"

subsection \<open>The quota\<close>

text \<open>
  The contract of the ledger: an entry per file (\<open>None\<close> inside stands for text that is no record),
  the requests, and where each attempt stands. An attempt that finds no entry may make one; only
  while it is claiming may it take the entry away again; when the entry names the uid it holds the
  one request; the entry stays from then on.
\<close>

datatype phase = Outside | Claiming | Filled string | Holding string | Spent string

type_synonym quota = "(string \<Rightarrow> string option option) \<times> (string \<times> string) list \<times> (string \<times> phase) list"

inductive quota_step :: "quota \<Rightarrow> quota \<Rightarrow> bool" where
  stay: "quota_step (E, R, P) (E, R, P)"
| arrive: "quota_step (E, R, P) (E, R, P @ [(f, Outside)])"
| create: "i < length P \<Longrightarrow> P ! i = (f, Outside) \<Longrightarrow> E f = None \<Longrightarrow>
    quota_step (E, R, P) (E(f := Some None), R, P[i := (f, Claiming)])"
| fill: "i < length P \<Longrightarrow> P ! i = (f, Claiming) \<Longrightarrow>
    quota_step (E, R, P) (E(f := Some (Some u)), R, P[i := (f, Filled u)])"
| fail: "i < length P \<Longrightarrow> P ! i = (f, Claiming) \<or> P ! i = (f, Filled u) \<Longrightarrow>
    E1 = E \<or> E1 = E(f := Some x) \<Longrightarrow> quota_step (E, R, P) (E1, R, P[i := (f, Claiming)])"
| abandon: "i < length P \<Longrightarrow> P ! i = (f, Claiming) \<or> P ! i = (f, Filled u) \<Longrightarrow>
    quota_step (E, R, P) (E(f := x), R, P[i := (f, Outside)])"
| hold: "i < length P \<Longrightarrow> P ! i = (f, Filled u) \<Longrightarrow>
    quota_step (E, R, P) (E, R, P[i := (f, Holding u)])"
| request: "i < length P \<Longrightarrow> P ! i = (f, Holding u) \<Longrightarrow>
    quota_step (E, R, P) (E, R @ [(f, u)], P[i := (f, Spent u)])"
| forgo: "i < length P \<Longrightarrow> P ! i = (f, Holding u) \<Longrightarrow>
    quota_step (E, R, P) (E, R, P[i := (f, Spent u)])"
| close: "i < length P \<Longrightarrow> P ! i = (f, Spent u) \<Longrightarrow>
    quota_step (E, R, P) (E(f := Some (Some u)), R, P[i := (f, Outside)])"
| leave: "i < length P \<Longrightarrow> P ! i = (f, ph) \<Longrightarrow> ph \<notin> {Claiming, Filled u} \<Longrightarrow>
    quota_step (E, R, P) (E, R, P[i := (f, Outside)])"

definition entryOf :: "lfile option \<Rightarrow> string option option" where
  "entryOf x = map_option (\<lambda>f. case f of Corrupt \<Rightarrow> None | Ledger rec \<Rightarrow> Some (OldPodUID rec)) x"

fun phaseOf :: "pc \<Rightarrow> phase" where
  "phaseOf (Intent pod rec) = Claiming"
| "phaseOf (Unclaim rec) = Claiming"
| "phaseOf (Synced pod rec) = Filled (OldPodUID rec)"
| "phaseOf (WriteData pod rec) = Holding (OldPodUID rec)"
| "phaseOf (Recheck pod rec) = Holding (OldPodUID rec)"
| "phaseOf (Delete pod rec) = Holding (OldPodUID rec)"
| "phaseOf (Await pod rec lastUID) = Spent (OldPodUID rec)"
| "phaseOf (Survivor rec newPod) = Spent (OldPodUID rec)"
| "phaseOf (After rec newPod) = Spent (OldPodUID rec)"
| "phaseOf (ReadBack rec newPod) = Spent (OldPodUID rec)"
| "phaseOf (Close rec res) = Spent (OldPodUID rec)"
| "phaseOf p = Outside"

definition quotaOf :: "cworld \<times> attempt list \<Rightarrow> quota" where
  "quotaOf s = (case s of (w, as) \<Rightarrow>
     (\<lambda>f. entryOf (Disk w f), map (\<lambda>(f, ns, pod, uid). (f, uid)) (Requests w),
      map (\<lambda>a. (AtFile a, phaseOf (AtPc a))) as))"

lemma goto_simps [simp]:
  "AtPc (goto a p evs) = p" "AtTrace (goto a p evs) = AtTrace a @ evs" "AtFile (goto a p evs) = AtFile a"
  "AtTarget (goto a p evs) = AtTarget a" "AtRun (goto a p evs) = AtRun a"
  by (simp_all add: goto_def AtFile_def)

lemma closeWith_simps [simp]:
  "AtPc (closeWith a rec state outcome newPod) =
     Close (terminalLedgerWithNewPod rec state outcome newPod) (failedWith state)"
  "AtTrace (closeWith a rec state outcome newPod) = AtTrace a"
  "AtFile (closeWith a rec state outcome newPod) = AtFile a"
  "AtTarget (closeWith a rec state outcome newPod) = AtTarget a"
  by (simp_all add: closeWith_def)

lemma terminalLedger_simps [simp]:
  "OldPodUID (terminalLedgerWithNewPod rec state outcome newPod) = OldPodUID rec"
  "OldPodUID (terminalLedger rec state outcome) = OldPodUID rec"
  by (simp_all add: terminalLedger_def terminalLedgerWithNewPod_def)

lemma Disk_setFile: "Disk (setFile w f x) = (Disk w)(f := x)"
  by (simp add: setFile_def)

lemma setFile_simps [simp]:
  "Pods (setFile w f x) = Pods w"
  "Requests (setFile w f x) = Requests w" "Removed (setFile w f x) = Removed w"
  by (simp_all add: setFile_def)

lemma entries_upd: "(\<lambda>g. entryOf (Disk (setFile w f x) g)) = (\<lambda>g. entryOf (Disk w g))(f := entryOf x)"
  by (auto simp: Disk_setFile)

lemma entries_same: "(\<lambda>f. entryOf (Disk w f))(g := entryOf (Disk w g)) = (\<lambda>f. entryOf (Disk w f))"
  by auto

lemma entryOf_simps [simp]:
  "entryOf None = None" "entryOf (Some Corrupt) = Some None"
  "entryOf (Some (Ledger rec)) = Some (Some (OldPodUID rec))"
  by (simp_all add: entryOf_def)

text \<open>One step of one attempt, seen as a step of the quota at its place in the list.\<close>

lemma quota_place:
  assumes "i < length as" "AtFile a1 = AtFile (as ! i)"
    and "\<And>P. i < length P \<Longrightarrow> P ! i = (AtFile (as ! i), phaseOf (AtPc (as ! i))) \<Longrightarrow>
           quota_step (\<lambda>f. entryOf (Disk w f), map (\<lambda>(f, ns, pod, uid). (f, uid)) (Requests w), P)
             (\<lambda>f. entryOf (Disk w1 f), map (\<lambda>(f, ns, pod, uid). (f, uid)) (Requests w1),
              P[i := (AtFile (as ! i), phaseOf (AtPc a1))])"
  shows "quota_step (quotaOf (w, as)) (quotaOf (w1, as[i := a1]))"
  using assms by (simp add: quotaOf_def map_update)

lemmas quota_simps = entries_upd claimStep_def changeStep_def checkStep_def awaitStep_def Let_def
  newLedger_def deletePodWithUIDPrecondition_def

lemma same_place: "P ! i = x \<Longrightarrow> P[i := x] = P"
  by (metis list_update_id)

lemma claim_quota:
  assumes "claimStep ans w a = (w1, a1)" "i < length P" "P ! i = (AtFile a, phaseOf (AtPc a))"
    "\<forall>pod rec. AtPc a \<noteq> WriteData pod rec"
  shows "quota_step (\<lambda>f. entryOf (Disk w f), map (\<lambda>(f, ns, pod, uid). (f, uid)) (Requests w), P)
           (\<lambda>f. entryOf (Disk w1 f), map (\<lambda>(f, ns, pod, uid). (f, uid)) (Requests w1),
            P[i := (AtFile a, phaseOf (AtPc a1))])"
proof (cases "AtPc a")
  case Authorize
  then show ?thesis using assms by (auto simp: quota_simps same_place stay split: sum.splits prod.splits)
next
  case (Peek pod podUID stableUID)
  then show ?thesis using assms by (auto simp: quota_simps same_place stay split: if_splits option.splits)
next
  case (Claim pod podUID stableUID)
  then show ?thesis using assms
    by (auto simp: quota_simps same_place stay intro!: create split: if_splits option.splits)
next
  case (Intent pod rec)
  then show ?thesis using assms
    by (auto simp: quota_simps intro: fill fail split: if_splits)
next
  case (Synced pod rec)
  then show ?thesis using assms by (auto simp: quota_simps intro: hold fail split: if_splits)
next
  case (Unclaim rec)
  then show ?thesis using assms
      abandon [of i P "AtFile a" undefined "\<lambda>f. entryOf (Disk w f)" _ "entryOf (Disk w (AtFile a))"]
    by (auto simp: quota_simps entries_same intro: abandon split: if_splits)
qed (use assms in \<open>auto simp: quota_simps same_place stay\<close>)

lemma recreate_quota:
  assumes "recreateStep ans w a = (w1, a1)" "i < length P" "P ! i = (AtFile a, phaseOf (AtPc a))"
  shows "quota_step (\<lambda>f. entryOf (Disk w f), map (\<lambda>(f, ns, pod, uid). (f, uid)) (Requests w), P)
           (\<lambda>f. entryOf (Disk w1 f), map (\<lambda>(f, ns, pod, uid). (f, uid)) (Requests w1),
            P[i := (AtFile a, phaseOf (AtPc a1))])"
proof (cases "AtPc a")
  case (WriteData pod rec)
  then show ?thesis using assms
    by (auto simp: recreateStep_def quota_simps same_place stay intro: forgo split: if_splits)
next
  case (Recheck pod rec)
  then show ?thesis using assms
    by (auto simp: recreateStep_def quota_simps same_place stay intro: forgo split: if_splits prod.splits)
next
  case (Delete pod rec)
  then show ?thesis using assms
    by (auto simp: recreateStep_def quota_simps intro: forgo request split: if_splits prod.splits option.splits)
next
  case (Await pod rec lastUID)
  then show ?thesis using assms
    by (auto simp: recreateStep_def quota_simps same_place stay split: if_splits prod.splits)
next
  case (Survivor rec newPod)
  then show ?thesis using assms
    by (auto simp: recreateStep_def quota_simps same_place stay split: if_splits prod.splits)
next
  case (After rec newPod)
  then show ?thesis using assms
    by (auto simp: recreateStep_def quota_simps same_place stay split: if_splits)
next
  case (ReadBack rec newPod)
  then show ?thesis using assms
    by (auto simp: recreateStep_def quota_simps same_place stay split: if_splits)
next
  case (Close rec res)
  then show ?thesis using assms
    by (auto simp: recreateStep_def quota_simps intro: close leave split: if_splits)
qed (use assms claim_quota [OF _ assms(2,3)] in \<open>auto simp: recreateStep_def\<close>)

lemma recreateStep_file: "recreateStep ans w a = (w1, a1) \<Longrightarrow> AtFile a1 = AtFile a"
  by (auto simp: recreateStep_def quota_simps split: pc.splits if_splits prod.splits sum.splits option.splits)

lemma crash_quota:
  assumes "x \<in> crashFiles (AtPc a) (Disk w (AtFile a))" "i < length P" "P ! i = (AtFile a, phaseOf (AtPc a))"
  shows "quota_step (\<lambda>f. entryOf (Disk w f), R, P)
           (\<lambda>f. entryOf (Disk (setFile w (AtFile a) x) f), R, P[i := (AtFile a, Outside)])"
proof (cases "AtPc a")
  case (Close rec res)
  then show ?thesis using assms
    by (auto simp: crashFiles_def entries_upd entries_same intro: close leave)
qed (use assms in \<open>auto simp: crashFiles_def entries_upd entries_same intro: abandon leave\<close>)

text \<open>
  Claim C9. Whatever the attempts do, in whatever interleaving, and wherever they crash, every step
  is a step of the quota contract, or none.
\<close>

theorem acceptance_refines_quota:
  assumes "acceptanceStep s s1"
  shows "quota_step (quotaOf s) (quotaOf s1)"
  using assms
proof cases
  case (begins w as runID t after)
  then show ?thesis by (simp add: quotaOf_def newAttempt_def AtFile_def arrive)
next
  case (acts i as ans w w1 a1)
  then show ?thesis
    using quota_place [OF acts(3), of a1 w w1] recreate_quota [OF acts(5)] recreateStep_file [OF acts(5)] by simp
next
  case (crashes i as x w)
  then show ?thesis
    using quota_place [OF crashes(3), of "(as ! i)\<lparr>AtPc := Crashed\<rparr>" w "setFile w (AtFile (as ! i)) x"]
      crash_quota [OF crashes(4)]
    by (simp add: AtFile_def)
next
  case (cluster w as ps)
  then show ?thesis by (simp add: quotaOf_def stay)
qed

subsection \<open>One change per base run and object\<close>

fun claims :: "phase \<Rightarrow> bool" where
  "claims Outside = False"
| "claims _ = True"

fun namedBy :: "phase \<Rightarrow> string option" where
  "namedBy (Filled u) = Some u"
| "namedBy (Holding u) = Some u"
| "namedBy (Spent u) = Some u"
| "namedBy _ = None"

fun unspent :: "phase \<Rightarrow> bool" where
  "unspent Claiming = True"
| "unspent (Filled u) = True"
| "unspent (Holding u) = True"
| "unspent _ = False"

definition quota_ok :: "quota \<Rightarrow> bool" where
  "quota_ok q \<longleftrightarrow>
     (case q of (E, R, P) \<Rightarrow>
        (\<forall>i<length P. claims (snd (P ! i)) \<longrightarrow> E (fst (P ! i)) \<noteq> None) \<and>
        (\<forall>i<length P. \<forall>u. namedBy (snd (P ! i)) = Some u \<longrightarrow> E (fst (P ! i)) = Some (Some u)) \<and>
        (\<forall>i<length P. unspent (snd (P ! i)) \<longrightarrow> fst (P ! i) \<notin> fst ` set R) \<and>
        (\<forall>i<length P. \<forall>j<length P. claims (snd (P ! i)) \<and> claims (snd (P ! j)) \<and> fst (P ! i) = fst (P ! j) \<longrightarrow> i = j) \<and>
        (\<forall>(f, u)\<in>set R. E f = Some (Some u)) \<and> distinct (map fst R))"

text \<open>The clauses of \<open>quota_ok\<close>, one by one.\<close>

lemma quota_okI:
  assumes "\<And>i. i < length P \<Longrightarrow> claims (snd (P ! i)) \<Longrightarrow> E (fst (P ! i)) \<noteq> None"
    "\<And>i u. i < length P \<Longrightarrow> namedBy (snd (P ! i)) = Some u \<Longrightarrow> E (fst (P ! i)) = Some (Some u)"
    "\<And>i. i < length P \<Longrightarrow> unspent (snd (P ! i)) \<Longrightarrow> fst (P ! i) \<notin> fst ` set R"
    "\<And>i j. i < length P \<Longrightarrow> j < length P \<Longrightarrow> claims (snd (P ! i)) \<Longrightarrow> claims (snd (P ! j)) \<Longrightarrow>
       fst (P ! i) = fst (P ! j) \<Longrightarrow> i = j"
    "\<And>f u. (f, u) \<in> set R \<Longrightarrow> E f = Some (Some u)" "distinct (map fst R)"
  shows "quota_ok (E, R, P)"
  unfolding quota_ok_def using assms by blast

lemma quota_okD:
  assumes "quota_ok (E, R, P)"
  shows "i < length P \<Longrightarrow> claims (snd (P ! i)) \<Longrightarrow> E (fst (P ! i)) \<noteq> None"
    "i < length P \<Longrightarrow> namedBy (snd (P ! i)) = Some u \<Longrightarrow> E (fst (P ! i)) = Some (Some u)"
    "i < length P \<Longrightarrow> unspent (snd (P ! i)) \<Longrightarrow> fst (P ! i) \<notin> fst ` set R"
    "i < length P \<Longrightarrow> j < length P \<Longrightarrow> claims (snd (P ! i)) \<Longrightarrow> claims (snd (P ! j)) \<Longrightarrow>
       fst (P ! i) = fst (P ! j) \<Longrightarrow> i = j"
    "(f, u) \<in> set R \<Longrightarrow> E f = Some (Some u)" "distinct (map fst R)"
  using assms unfolding quota_ok_def by blast+

lemma namedBy_claims: "namedBy ph = Some u \<Longrightarrow> claims ph"
  by (cases ph) auto

lemma unspent_claims: "unspent ph \<Longrightarrow> claims ph"
  by (cases ph) auto

text \<open>
  A claimant changes its own entry and phase. The entry it leaves must suit its new phase; the other
  attempts do not claim the file, and no request names it unless the entry keeps the uid.
\<close>

lemma quota_ok_place:
  assumes ok: "quota_ok (E, R, P)" and i: "i < length P" "P ! i = (f, ph)"
    and others: "\<And>j. j < length P \<Longrightarrow> j \<noteq> i \<Longrightarrow> claims (snd (P ! j)) \<Longrightarrow> fst (P ! j) \<noteq> f"
    and own: "claims ph1 \<Longrightarrow> x \<noteq> None" "\<And>u. namedBy ph1 = Some u \<Longrightarrow> x = Some (Some u)"
      "unspent ph1 \<Longrightarrow> f \<notin> fst ` set R"
    and kept: "\<And>u. (f, u) \<in> set R \<Longrightarrow> x = Some (Some u)"
  shows "quota_ok (E(f := x), R, P[i := (f, ph1)])"
proof (rule quota_okI)
  note ok = quota_okD [OF ok]
  show "(E(f := x)) (fst (P[i := (f, ph1)] ! j)) \<noteq> None"
    if "j < length (P[i := (f, ph1)])" "claims (snd (P[i := (f, ph1)] ! j))" for j
    using that own(1) others ok(1) [of j] by (cases "j = i") (auto simp: nth_list_update)
  show "(E(f := x)) (fst (P[i := (f, ph1)] ! j)) = Some (Some u)"
    if "j < length (P[i := (f, ph1)])" "namedBy (snd (P[i := (f, ph1)] ! j)) = Some u" for j u
    using that own(2) others namedBy_claims ok(2) [of j u] by (cases "j = i") (auto simp: nth_list_update)
  show "fst (P[i := (f, ph1)] ! j) \<notin> fst ` set R"
    if "j < length (P[i := (f, ph1)])" "unspent (snd (P[i := (f, ph1)] ! j))" for j
    using that own(3) ok(3) [of j] by (cases "j = i") (auto simp: nth_list_update)
  show "j = k" if "j < length (P[i := (f, ph1)])" "k < length (P[i := (f, ph1)])"
      "claims (snd (P[i := (f, ph1)] ! j))" "claims (snd (P[i := (f, ph1)] ! k))"
      "fst (P[i := (f, ph1)] ! j) = fst (P[i := (f, ph1)] ! k)" for j k
    using that others ok(4) [of j k] i(1) by (auto simp: nth_list_update split: if_splits)
  show "(E(f := x)) g = Some (Some u)" if "(g, u) \<in> set R" for g u
    using that kept ok(5) by auto
  show "distinct (map fst R)" by (rule ok(6))
qed

lemma quota_other:
  "quota_ok (E, R, P) \<Longrightarrow> i < length P \<Longrightarrow> P ! i = (f, ph) \<Longrightarrow> claims ph \<Longrightarrow>
     j < length P \<Longrightarrow> j \<noteq> i \<Longrightarrow> claims (snd (P ! j)) \<Longrightarrow> fst (P ! j) \<noteq> f"
  using quota_okD(4) [of E R P i j] by auto

lemma quota_free:
  "quota_ok (E, R, P) \<Longrightarrow> E f = None \<Longrightarrow> j < length P \<Longrightarrow> claims (snd (P ! j)) \<Longrightarrow> fst (P ! j) \<noteq> f"
  using quota_okD(1) by blast

lemma quota_unrequested: "f \<notin> fst ` set R \<Longrightarrow> (f, u) \<notin> set R"
  by force

lemma quota_ok_request:
  assumes ok: "quota_ok (E, R, P)" and f: "E f = Some (Some u)" "f \<notin> fst ` set R"
    and spent: "\<And>j. j < length P \<Longrightarrow> unspent (snd (P ! j)) \<Longrightarrow> fst (P ! j) \<noteq> f"
  shows "quota_ok (E, R @ [(f, u)], P)"
proof (rule quota_okI)
  note ok = quota_okD [OF ok]
  show "fst (P ! j) \<notin> fst ` set (R @ [(f, u)])" if "j < length P" "unspent (snd (P ! j))" for j
    using ok(3) [OF that] spent [OF that] by simp
  show "E g = Some (Some v)" if "(g, v) \<in> set (R @ [(f, u)])" for g v
    using that ok(5) [of g v] f(1) by auto
  show "distinct (map fst (R @ [(f, u)]))" using ok(6) f(2) by simp
qed (fact quota_okD(1,2,4) [OF ok])+

lemma place_eta: "P ! i = (f, x) \<or> P ! i = (f, y) \<Longrightarrow> P ! i = (f, snd (P ! i))"
  by auto

lemma quota_step_ok:
  assumes "quota_step q q1" "quota_ok q"
  shows "quota_ok q1"
  using assms
proof induction
  case (arrive E R P f)
  note ok = quota_okD [OF arrive]
  show ?case
    using arrive by (auto simp: quota_ok_def nth_append less_Suc_eq)
next
  case (create i P f E R)
  have "f \<notin> fst ` set R" using quota_okD(5) [OF create.prems] create.hyps(3) by force
  then show ?case
    using create quota_free [OF create.prems] by (intro quota_ok_place) (auto dest: quota_unrequested)
next
  case (fill i P f E R u)
  have "f \<notin> fst ` set R" using quota_okD(3) [OF fill.prems fill.hyps(1)] fill.hyps(2) by simp
  then show ?case
    using fill quota_other [OF fill.prems fill.hyps] by (intro quota_ok_place) (auto dest: quota_unrequested)
next
  case (fail i P f u E1 E x R)
  have nf: "f \<notin> fst ` set R" using quota_okD(3) [OF fail.prems fail.hyps(1)] fail.hyps(2) by (elim disjE) simp_all
  have others: "fst (P ! j) \<noteq> f" if "j < length P" "j \<noteq> i" "claims (snd (P ! j))" for j
    using that fail.hyps(2) quota_other [OF fail.prems fail.hyps(1) _ _ that(1,2)] by (elim disjE) simp_all
  have "E f \<noteq> None" using quota_okD(1) [OF fail.prems fail.hyps(1)] fail.hyps(2) by auto
  then have "quota_ok (E(f := E1 f), R, P[i := (f, Claiming)])"
    using fail.hyps(3) nf others
    by (intro quota_ok_place [OF fail.prems fail.hyps(1) place_eta [OF fail.hyps(2)]]) (auto simp: quota_unrequested [OF nf])
  moreover have "E1 = E(f := E1 f)" using fail.hyps(3) by auto
  ultimately show ?case by metis
next
  case (abandon i P f u E R x)
  have nf: "f \<notin> fst ` set R" using quota_okD(3) [OF abandon.prems abandon.hyps(1)] abandon.hyps(2) by (elim disjE) simp_all
  have others: "fst (P ! j) \<noteq> f" if "j < length P" "j \<noteq> i" "claims (snd (P ! j))" for j
    using that abandon.hyps(2) quota_other [OF abandon.prems abandon.hyps(1) _ _ that(1,2)] by (elim disjE) simp_all
  show ?case
    using nf others
    by (intro quota_ok_place [OF abandon.prems abandon.hyps(1) place_eta [OF abandon.hyps(2)]]) (auto simp: quota_unrequested [OF nf])
next
  case (hold i P f u E R)
  have e: "E f = Some (Some u)" "f \<notin> fst ` set R"
    using quota_okD(2,3) [OF hold.prems hold.hyps(1)] hold.hyps(2) by simp_all
  then have "quota_ok (E(f := Some (Some u)), R, P[i := (f, Holding u)])"
    using quota_other [OF hold.prems hold.hyps]
    by (intro quota_ok_place [OF hold.prems hold.hyps]) (auto dest: quota_unrequested)
  then show ?case using e by (simp add: fun_upd_idem)
next
  case (request i P f u E R)
  have e: "E f = Some (Some u)" "f \<notin> fst ` set R"
    using quota_okD(2,3) [OF request.prems request.hyps(1)] request.hyps(2) by simp_all
  then have "quota_ok (E(f := Some (Some u)), R, P[i := (f, Spent u)])"
    using quota_other [OF request.prems request.hyps]
    by (intro quota_ok_place [OF request.prems request.hyps]) (auto dest: quota_unrequested)
  then have ok: "quota_ok (E, R, P[i := (f, Spent u)])" using e by (simp add: fun_upd_idem)
  show ?case
  proof (rule quota_ok_request [OF ok e])
    show "fst (P[i := (f, Spent u)] ! j) \<noteq> f"
      if "j < length (P[i := (f, Spent u)])" "unspent (snd (P[i := (f, Spent u)] ! j))" for j
    proof (cases "j = i")
      case False
      then show ?thesis using quota_other [OF request.prems request.hyps, of j] that unspent_claims by simp
    qed (use that request.hyps(1) in simp)
  qed
next
  case (forgo i P f u E R)
  have e: "E f = Some (Some u)" "f \<notin> fst ` set R"
    using quota_okD(2,3) [OF forgo.prems forgo.hyps(1)] forgo.hyps(2) by simp_all
  then have "quota_ok (E(f := Some (Some u)), R, P[i := (f, Spent u)])"
    using quota_other [OF forgo.prems forgo.hyps]
    by (intro quota_ok_place [OF forgo.prems forgo.hyps]) (auto dest: quota_unrequested)
  then show ?case using e by (simp add: fun_upd_idem)
next
  case (close i P f u E R)
  have "E f = Some (Some u)" using quota_okD(2) [OF close.prems close.hyps(1)] close.hyps(2) by simp
  then have "(f, u1) \<in> set R \<Longrightarrow> u1 = u" for u1 using quota_okD(5) [OF close.prems, of f u1] by simp
  then show ?case
    using quota_other [OF close.prems close.hyps] by (intro quota_ok_place [OF close.prems close.hyps]) auto
next
  case (leave i P f ph u E R)
  then show ?case by (auto simp: quota_ok_def nth_list_update)
qed simp

lemma reaches_quota: "acceptanceReaches s \<Longrightarrow> quota_ok (quotaOf s)"
proof (induction rule: acceptanceReaches.induct)
  case (start w)
  then show ?case by (simp add: quotaOf_def quota_ok_def)
next
  case (steps s s1)
  then show ?case using quota_step_ok acceptance_refines_quota by blast
qed

lemma honours_server:
  assumes "honoursPreconditions srv" "srv ps ns name uid = (outcome, ps1)"
  shows "ps1 = ps \<or> ps (ns, name) = Some uid \<and> ps1 = ps((ns, name) := None)"
    "outcome = DeleteDeleted \<Longrightarrow> ps (ns, name) = Some uid \<and> ps1 = ps((ns, name) := None)"
  using assms(1) [unfolded honoursPreconditions_def, THEN spec [of _ ps], THEN spec [of _ ns],
      THEN spec [of _ name], THEN spec [of _ uid]] unfolding assms(2) fst_conv snd_conv by blast+

lemma deletePod_honours:
  assumes "honoursPreconditions srv" "deletePodWithUIDPrecondition srv fin ps ns name uid = (sent, outcome, ps1)"
  shows "(ps1 = ps \<or> sent \<and> ps (ns, name) = Some uid \<and> ps1 = ps((ns, name) := None)) \<and>
         (outcome = DeleteDeleted \<longrightarrow> sent \<and> ps (ns, name) = Some uid \<and> ps1 = ps((ns, name) := None))"
proof (cases "sent")
  case True
  then have "srv ps ns name uid = (outcome, ps1)"
    using assms(2) by (simp add: deletePodWithUIDPrecondition_def split: if_splits)
  then show ?thesis using honours_server [OF assms(1)] True by blast
next
  case False
  then show ?thesis using assms(2) by (auto simp: deletePodWithUIDPrecondition_def split: if_splits)
qed

lemma claim_requests: "claimStep ans w a = (w1, a1) \<Longrightarrow> Requests w1 = Requests w \<and> Removed w1 = Removed w"
  by (auto simp: quota_simps split: pc.splits if_splits prod.splits sum.splits option.splits)

lemma check_requests: "checkStep ans w a = (w1, a1) \<Longrightarrow> Requests w1 = Requests w \<and> Removed w1 = Removed w"
  by (auto simp: quota_simps split: pc.splits if_splits prod.splits)

definition requestedUids :: "cworld \<Rightarrow> (string \<times> string \<times> string) set" where
  "requestedUids w = snd ` set (Requests w)"

lemma recreate_removed:
  assumes "recreateStep ans w a = (w1, a1)" "honoursPreconditions (Server ans)"
    "set (Removed w) \<subseteq> requestedUids w"
  shows "set (Removed w1) \<subseteq> requestedUids w1"
proof (cases "AtPc a")
  case (Delete pod rec)
  let ?ns = "TNamespace (AtTarget a)"
  obtain sent outcome ps1 where d: "deletePodWithUIDPrecondition (Server ans) (Finished ans) (Pods w) ?ns pod (OldPodUID rec) = (sent, outcome, ps1)"
    by (metis prod_cases3)
  have w1: "Requests w1 = Requests w @ (if sent then [(AtFile a, ?ns, pod, OldPodUID rec)] else [])"
      "Removed w1 = Removed w @ (case Pods w (?ns, pod) of
         Some uid \<Rightarrow> (if ps1 (?ns, pod) = None then [(?ns, pod, uid)] else []) | None \<Rightarrow> [])"
    using assms(1) Delete d by (auto simp: recreateStep_def changeStep_def Let_def split: if_splits)
  show ?thesis
    using assms(3) deletePod_honours [OF assms(2) d] unfolding w1 requestedUids_def
    by (auto split: option.splits if_splits)
qed (use assms claim_requests check_requests in
      \<open>auto simp: recreateStep_def changeStep_def Let_def requestedUids_def split: if_splits prod.splits\<close>)

lemma reaches_removed: "acceptanceReaches s \<Longrightarrow> set (Removed (fst s)) \<subseteq> requestedUids (fst s)"
proof (induction rule: acceptanceReaches.induct)
  case (steps s s1)
  from steps.hyps(2) show ?case
  proof cases
    case (acts i as ans w w1 a1)
    then show ?thesis using recreate_removed [OF acts(5,4)] steps.IH by simp
  qed (use steps.IH in \<open>auto simp: requestedUids_def\<close>)
qed simp

text \<open>
  Claim C8. One change per base run and object: whatever attempts run side by side, whatever fails
  and wherever they crash, at most one delete request is ever sent for a ledger file, the ledger on
  disk names exactly the uid that request carried from then on, and every pod that was removed had
  a uid some request was authorised for.
\<close>

theorem one_delete_per_target:
  assumes "acceptanceReaches (w, as)"
  shows "distinct (map fst (Requests w)) \<and>
         (\<forall>(f, ns, pod, uid)\<in>set (Requests w). \<exists>rec. Disk w f = Some (Ledger rec) \<and> OldPodUID rec = uid) \<and>
         (\<forall>r\<in>set (Removed w). \<exists>f. (f, r) \<in> set (Requests w))"
proof -
  have ok: "quota_ok (\<lambda>f. entryOf (Disk w f), map (\<lambda>(f, ns, pod, uid). (f, uid)) (Requests w),
      map (\<lambda>a. (AtFile a, phaseOf (AtPc a))) as)"
    using reaches_quota [OF assms] by (simp add: quotaOf_def)
  have "\<exists>rec. Disk w f = Some (Ledger rec) \<and> OldPodUID rec = uid" if "(f, ns, pod, uid) \<in> set (Requests w)" for f ns pod uid
  proof -
    have "entryOf (Disk w f) = Some (Some uid)"
      using quota_okD(5) [OF ok, of f uid] that by force
    then show ?thesis by (cases "Disk w f") (auto simp: entryOf_def split: lfile.splits)
  qed
  moreover have "map fst (map (\<lambda>(f, ns, pod, uid). (f, uid)) (Requests w)) = map fst (Requests w)" by auto
  then have "distinct (map fst (Requests w))" using quota_okD(6) [OF ok] by metis
  moreover have "\<forall>r\<in>set (Removed w). \<exists>f. (f, r) \<in> set (Requests w)"
    using reaches_removed [OF assms] by (force simp: requestedUids_def)
  ultimately show ?thesis by auto
qed

subsection \<open>What a pass rests on\<close>

definition changedTrace :: "acceptanceLedger \<Rightarrow> event list" where
  "changedTrace rec =
     [EvAuthorized (OldPodUID rec) (OldPVCUID rec), EvClaimed, EvWritten (LToken rec), EvRechecked (OldPodUID rec),
      EvDeleted (OldPodUID rec)]"

definition survivedTrace :: "acceptanceTarget \<Rightarrow> acceptanceLedger \<Rightarrow> string \<Rightarrow> event list" where
  "survivedTrace t rec newPod =
     changedTrace rec @ [EvReplaced newPod] @ (if PVCName t \<noteq> [] then [EvSurvived (OldPVCUID rec)] else [])"

definition passedTrace :: "acceptanceTarget \<Rightarrow> acceptanceLedger \<Rightarrow> string \<Rightarrow> event list" where
  "passedTrace t rec newPod = survivedTrace t rec newPod @ [EvReadBack (LToken rec)]"

definition trace_ok :: "attempt \<Rightarrow> bool" where
  "trace_ok a \<longleftrightarrow>
     (let tr = AtTrace a; t = AtTarget a in
      case AtPc a of
        Authorize \<Rightarrow> tr = []
      | Peek pod podUID stableUID \<Rightarrow> tr = [EvAuthorized podUID stableUID]
      | Claim pod podUID stableUID \<Rightarrow> tr = [EvAuthorized podUID stableUID]
      | Intent pod rec \<Rightarrow> tr = take 1 (changedTrace rec)
      | Synced pod rec \<Rightarrow> tr = take 1 (changedTrace rec)
      | WriteData pod rec \<Rightarrow> tr = take 2 (changedTrace rec)
      | Recheck pod rec \<Rightarrow> tr = take 3 (changedTrace rec)
      | Delete pod rec \<Rightarrow> tr = take 4 (changedTrace rec)
      | Await pod rec lastUID \<Rightarrow> tr = changedTrace rec
      | Survivor rec newPod \<Rightarrow> tr = changedTrace rec @ [EvReplaced newPod] \<and> newPod \<noteq> OldPodUID rec
      | After rec newPod \<Rightarrow> tr = survivedTrace t rec newPod \<and> newPod \<noteq> OldPodUID rec
      | ReadBack rec newPod \<Rightarrow> tr = survivedTrace t rec newPod \<and> newPod \<noteq> OldPodUID rec
      | Close rec res \<Rightarrow> OutStatus res = VerifyStatusPass \<longrightarrow>
          (\<exists>rec newPod. tr = passedTrace t rec newPod \<and> newPod \<noteq> OldPodUID rec)
      | Returned res \<Rightarrow> OutStatus res = VerifyStatusPass \<longrightarrow>
          (\<exists>rec newPod. tr = passedTrace t rec newPod @ [EvClosed] \<and> newPod \<noteq> OldPodUID rec)
      | _ \<Rightarrow> True)"

lemma failedWith_fails [simp]: "OutStatus (failedWith q) = VerifyStatusFailed" "VerifyStatusFailed \<noteq> VerifyStatusPass"
  by (simp_all add: failedWith_def VerifyStatusFailed_def VerifyStatusPass_def)

lemma newLedger_uids [simp]:
  "OldPodUID (newLedger a u s tok) = u" "OldPVCUID (newLedger a u s tok) = s"
  by (simp_all add: newLedger_def)

lemmas trace_simps = trace_ok_def changedTrace_def survivedTrace_def passedTrace_def recreateStep_def Let_def

lemma claim_trace:
  assumes "claimStep ans w a = (w1, a1)" "trace_ok a" "AtPc a \<in> {p. phaseOf p \<in> {Outside, Claiming} \<or> (\<exists>pod rec. p = Synced pod rec)}"
  shows "trace_ok a1"
  using assms
  by (cases "AtPc a") (auto simp: trace_simps claimStep_def split: if_splits option.splits sum.splits prod.splits)

lemma recreate_trace:
  assumes "recreateStep ans w a = (w1, a1)" "trace_ok a"
  shows "trace_ok a1"
proof (cases "AtPc a")
  case (WriteData pod rec)
  then show ?thesis using assms by (auto simp: trace_simps changeStep_def split: if_splits)
next
  case (Recheck pod rec)
  then show ?thesis using assms by (auto simp: trace_simps changeStep_def split: if_splits prod.splits)
next
  case (Delete pod rec)
  then show ?thesis using assms by (auto simp: trace_simps changeStep_def split: if_splits prod.splits)
next
  case (Await pod rec lastUID)
  then show ?thesis using assms by (auto simp: trace_simps checkStep_def awaitStep_def split: if_splits prod.splits)
next
  case (Survivor rec newPod)
  then show ?thesis using assms by (auto simp: trace_simps checkStep_def split: if_splits prod.splits)
next
  case (After rec newPod)
  then show ?thesis using assms by (auto simp: trace_simps checkStep_def split: if_splits)
next
  case (ReadBack rec newPod)
  then show ?thesis using assms
    by (auto simp: trace_ok_def passedTrace_def recreateStep_def Let_def checkStep_def split: if_splits)
      (rule exI [of _ rec], rule exI [of _ newPod], simp)
next
  case (Close rec res)
  then show ?thesis using assms
    by (auto simp: trace_ok_def recreateStep_def Let_def checkStep_def split: if_splits) blast
qed (use assms claim_trace in \<open>force simp: recreateStep_def\<close>)+

lemma recreate_target: "recreateStep ans w a = (w1, a1) \<Longrightarrow> AtTarget a1 = AtTarget a"
  by (auto simp: recreateStep_def quota_simps split: pc.splits if_splits prod.splits sum.splits option.splits)

text \<open>A deletion in the trace of an attempt was requested under its file, and removed the pod.\<close>

definition deletions_ok :: "cworld \<Rightarrow> attempt \<Rightarrow> bool" where
  "deletions_ok w a \<longleftrightarrow>
     (\<forall>uid. EvDeleted uid \<in> set (AtTrace a) \<longrightarrow>
        (\<exists>pod. (AtFile a, TNamespace (AtTarget a), pod, uid) \<in> set (Requests w) \<and>
               (TNamespace (AtTarget a), pod, uid) \<in> set (Removed w)))"

lemma recreateStep_cases:
  "recreateStep ans w a = claimStep ans w a \<or> recreateStep ans w a = changeStep ans w a \<or>
   recreateStep ans w a = checkStep ans w a"
  by (cases "AtPc a") (simp_all add: recreateStep_def)

lemma change_requests:
  "changeStep ans w a = (w1, a1) \<Longrightarrow>
     set (Requests w) \<subseteq> set (Requests w1) \<and> set (Removed w) \<subseteq> set (Removed w1)"
  by (auto simp: changeStep_def Let_def split: pc.splits if_splits prod.splits)

lemma recreate_grows: "recreateStep ans w a = (w1, a1) \<Longrightarrow>
    set (Requests w) \<subseteq> set (Requests w1) \<and> set (Removed w) \<subseteq> set (Removed w1)"
  using recreateStep_cases [of ans w a] claim_requests change_requests check_requests by fastforce

lemma deletions_mono:
  "deletions_ok w a \<Longrightarrow> set (Requests w) \<subseteq> set (Requests w1) \<Longrightarrow> set (Removed w) \<subseteq> set (Removed w1) \<Longrightarrow> deletions_ok w1 a"
  unfolding deletions_ok_def by blast

lemma trace_claim: "claimStep ans w a = (w1, a1) \<Longrightarrow> EvDeleted u \<in> set (AtTrace a1) \<Longrightarrow> EvDeleted u \<in> set (AtTrace a)"
  by (auto simp: claimStep_def Let_def split: pc.splits if_splits option.splits sum.splits prod.splits)

lemma trace_check: "checkStep ans w a = (w1, a1) \<Longrightarrow> EvDeleted u \<in> set (AtTrace a1) \<Longrightarrow> EvDeleted u \<in> set (AtTrace a)"
  by (auto simp: checkStep_def awaitStep_def Let_def split: pc.splits if_splits prod.splits)

lemma recreate_deletions:
  assumes "recreateStep ans w a = (w1, a1)" "honoursPreconditions (Server ans)" "deletions_ok w a"
  shows "deletions_ok w1 a1"
proof (cases "\<exists>pod rec. AtPc a = Delete pod rec")
  case True
  then obtain pod rec where pc: "AtPc a = Delete pod rec" by blast
  let ?ns = "TNamespace (AtTarget a)"
  obtain sent outcome ps1 where d: "deletePodWithUIDPrecondition (Server ans) (Finished ans) (Pods w) ?ns pod (OldPodUID rec) = (sent, outcome, ps1)"
    by (metis prod_cases3)
  have w1: "Requests w1 = Requests w @ (if sent then [(AtFile a, ?ns, pod, OldPodUID rec)] else [])"
      "Removed w1 = Removed w @ (case Pods w (?ns, pod) of
         Some uid \<Rightarrow> (if ps1 (?ns, pod) = None then [(?ns, pod, uid)] else []) | None \<Rightarrow> [])"
      "AtTrace a1 = AtTrace a @ (if outcome = DeleteDeleted then [EvDeleted (OldPodUID rec)] else [])"
    using assms(1) pc d by (auto simp: recreateStep_def changeStep_def Let_def split: if_splits)
  have "(AtFile a, ?ns, pod, OldPodUID rec) \<in> set (Requests w1) \<and> (?ns, pod, OldPodUID rec) \<in> set (Removed w1)"
    if "outcome = DeleteDeleted"
    using deletePod_honours [OF assms(2) d] that unfolding w1 by simp
  moreover have "deletions_ok w1 a" using deletions_mono [OF assms(3)] recreate_grows [OF assms(1)] by simp
  ultimately show ?thesis
    using recreate_target [OF assms(1)] recreateStep_file [OF assms(1)]
    unfolding deletions_ok_def w1(3) by (auto split: if_splits)
next
  case False
  then have "EvDeleted u \<in> set (AtTrace a)" if "EvDeleted u \<in> set (AtTrace a1)" for u
    using assms(1) that trace_claim trace_check
    by (cases "AtPc a") (auto simp: recreateStep_def changeStep_def Let_def split: if_splits prod.splits)
  moreover have "deletions_ok w1 a" using deletions_mono [OF assms(3)] recreate_grows [OF assms(1)] by simp
  ultimately show ?thesis
    using recreate_target [OF assms(1)] recreateStep_file [OF assms(1)] unfolding deletions_ok_def by simp
qed

lemma reaches_traces: "acceptanceReaches s \<Longrightarrow> \<forall>a\<in>set (snd s). trace_ok a \<and> deletions_ok (fst s) a"
proof (induction rule: acceptanceReaches.induct)
  case (steps s s1)
  from steps.hyps(2) show ?case
  proof cases
    case (begins w as runID t after)
    then show ?thesis using steps.IH by (auto simp: trace_ok_def deletions_ok_def newAttempt_def)
  next
    case (acts i as ans w w1 a1)
    have "trace_ok a1 \<and> deletions_ok w1 a1"
      using recreate_trace [OF acts(5)] recreate_deletions [OF acts(5,4)] steps.IH acts(1,3) by simp
    moreover have "\<forall>a\<in>set as. trace_ok a \<and> deletions_ok w1 a"
      using recreate_grows [OF acts(5)] deletions_mono steps.IH acts(1) by fastforce
    ultimately show ?thesis using acts(2) set_update_subset_insert [of as i a1] by fastforce
  next
    case (crashes i as x w)
    let ?a = "(as ! i)\<lparr>AtPc := Crashed\<rparr>"
    have old: "\<forall>a\<in>set as. trace_ok a \<and> deletions_ok w a" using steps.IH crashes(1) by simp
    then have "trace_ok ?a \<and> deletions_ok w ?a"
      using nth_mem [OF crashes(3)] by (auto simp: trace_ok_def deletions_ok_def AtFile_def)
    then have "\<forall>a\<in>set (as[i := ?a]). trace_ok a \<and> deletions_ok w a"
      using old set_update_subset_insert [of as i ?a] by blast
    then show ?thesis unfolding crashes(2) by (auto simp: deletions_ok_def)
  next
    case (cluster w as ps)
    then show ?thesis using steps.IH by (simp add: deletions_ok_def)
  qed
qed simp

text \<open>
  Claim C10. What a pass rests on: an attempt that returns a pass has, in this order, read the
  identities of the pod and of what must survive, claimed the ledger durably, written its token, read
  the same pod again, deleted it with that uid, seen another uid ready, found the same claim, read the
  same token back and closed the ledger; and the one request recorded under its ledger file removed
  exactly that pod.
\<close>

theorem pass_needs_every_step:
  assumes "acceptanceReaches (w, as)" "a \<in> set as" "AtPc a = Returned res" "OutStatus res = VerifyStatusPass"
  shows "\<exists>rec newPod pod. newPod \<noteq> OldPodUID rec \<and>
           AtTrace a = passedTrace (AtTarget a) rec newPod @ [EvClosed] \<and>
           (AtFile a, TNamespace (AtTarget a), pod, OldPodUID rec) \<in> set (Requests w) \<and>
           (TNamespace (AtTarget a), pod, OldPodUID rec) \<in> set (Removed w)"
proof -
  have ok: "trace_ok a" "deletions_ok w a" using reaches_traces [OF assms(1)] assms(2) by auto
  then obtain rec newPod where tr: "AtTrace a = passedTrace (AtTarget a) rec newPod @ [EvClosed]" "newPod \<noteq> OldPodUID rec"
    using assms(3,4) by (auto simp: trace_ok_def)
  then have "EvDeleted (OldPodUID rec) \<in> set (AtTrace a)"
    by (simp add: passedTrace_def survivedTrace_def changedTrace_def)
  then show ?thesis using ok(2) tr unfolding deletions_ok_def by blast
qed

subsection \<open>Plans of steps\<close>

text \<open>
  A declared step: its name, the target it changes (blank for none) and its work, which answers an
  error or none, whether the step's own deadline had passed by then, and the state it leaves. A step
  of a declared plan has work to do. The state \<open>'s\<close> is everything a step may read or change.
\<close>

record 's acceptanceStepDecl =
  StepID :: string
  StepTarget :: string
  StepRun :: "'s \<Rightarrow> string option \<times> bool \<times> 's"

record 's acceptancePlan =
  PlanSteps :: "'s acceptanceStepDecl list"
  PlanDependencies :: "string list"

record VerifyStepResult =
  ResID :: string
  ResStatus :: string
  ResTarget :: string

definition stepResult :: "'s acceptanceStepDecl \<Rightarrow> string \<Rightarrow> string \<Rightarrow> VerifyStepResult" where
  "stepResult step status target = \<lparr>ResID = StepID step, ResStatus = status, ResTarget = target\<rparr>"

definition runStep :: "('s \<Rightarrow> bool) \<Rightarrow> 's acceptanceStepDecl \<Rightarrow> 's \<Rightarrow> VerifyStepResult \<times> 's" where
  "runStep cancelled step s =
     (if StepTarget step \<noteq> [] \<and> get acceptanceTargets (StepTarget step) = None
      then (stepResult step VerifyStatusFailed [], s)
      else if cancelled s then (stepResult step VerifyStatusNotRun (StepTarget step), s)
      else case StepRun step s of (err, late, s1) \<Rightarrow>
        (stepResult step
           (if err \<noteq> None then VerifyStatusFailed
            else if late \<and> \<not> cancelled s1 then VerifyStatusFailed else VerifyStatusPass) (StepTarget step), s1))"

text \<open>\<^verbatim>\<open>runPlan\<close>: the first step that does not pass, or a cancelled run, stops the rest.\<close>

fun runSteps ::
  "('s \<Rightarrow> bool) \<Rightarrow> 's acceptanceStepDecl list \<Rightarrow> bool \<Rightarrow> 's \<Rightarrow> VerifyStepResult list \<times> 's" where
  "runSteps cancelled [] stopped s = ([], s)"
| "runSteps cancelled (step # steps) stopped s =
     (if stopped then
        (case runSteps cancelled steps True s of
           (rs, s1) \<Rightarrow> (stepResult step VerifyStatusNotRun (StepTarget step) # rs, s1))
      else case runStep cancelled step s of (r, s1) \<Rightarrow>
        (case runSteps cancelled steps (ResStatus r \<noteq> VerifyStatusPass \<or> cancelled s1) s1 of
           (rs, s2) \<Rightarrow> (r # rs, s2)))"

definition runPlan :: "('s \<Rightarrow> bool) \<Rightarrow> 's acceptancePlan \<Rightarrow> 's \<Rightarrow> VerifyStepResult list \<times> 's" where
  "runPlan cancelled plan s = runSteps cancelled (PlanSteps plan) False s"

record VerifyComponentResult =
  ResComponent :: string
  ResOverall :: string
  ResSteps :: "VerifyStepResult list"
  ResDependencies :: "string list"

definition planOverall :: "string \<Rightarrow> VerifyStepResult list \<Rightarrow> string" where
  "planOverall component steps =
     (if steps = [] then VerifyStatusFailed
      else foldl (\<lambda>status r. if ResStatus r \<noteq> VerifyStatusPass then VerifyStatusFailed else status)
             VerifyStatusPass steps)"

text \<open>
  The gate before the first change. \<open>peek\<close> reads a ledger without making one: an error, no record,
  or what is recorded.
\<close>

datatype plan_error = ChangedTwice string | NotDeclared string | Incomplete target_error | LedgerUnreadable string
  | AlreadyRecorded string string | DependencyNotDeclared string

fun preflightSteps ::
  "('s \<Rightarrow> acceptanceTarget \<Rightarrow> string + lfile option) \<Rightarrow> 's acceptanceStepDecl list \<Rightarrow> string list \<Rightarrow> 's \<Rightarrow>
     plan_error option" where
  "preflightSteps peek [] seen s = None"
| "preflightSteps peek (step # steps) seen s =
     (if StepTarget step = [] then preflightSteps peek steps seen s
      else if StepTarget step \<in> set seen then Some (ChangedTwice (StepTarget step))
      else case get acceptanceTargets (StepTarget step) of
             None \<Rightarrow> Some (NotDeclared (StepTarget step))
           | Some t \<Rightarrow>
               (case declareTargetCompletely t of
                  Some e \<Rightarrow> Some (Incomplete e)
                | None \<Rightarrow>
                    (case peek s t of
                       Inl e \<Rightarrow> Some (LedgerUnreadable e)
                     | Inr (Some file) \<Rightarrow> Some (AlreadyRecorded (LedgerToken t) (recordedState file))
                     | Inr None \<Rightarrow> preflightSteps peek steps (StepTarget step # seen) s)))"

definition preflightPlan ::
  "('s \<Rightarrow> acceptanceTarget \<Rightarrow> string + lfile option) \<Rightarrow> 's acceptancePlan \<Rightarrow> 's \<Rightarrow> plan_error option" where
  "preflightPlan peek plan s =
     (case preflightSteps peek (PlanSteps plan) [] s of
        Some e \<Rightarrow> Some e
      | None \<Rightarrow> map_option DependencyNotDeclared
                  (find (\<lambda>d. get acceptanceTargets d = None) (PlanDependencies plan)))"

subsection \<open>The level\<close>

datatype verify_error = NoComponents | OutsideRecord "string list" | NeedsPodRecreate | NotImplemented "string list"
  | NothingDeclared | NoDeclaration string | LevelFailed

fun selectScope :: "string list \<Rightarrow> string list \<Rightarrow> string list \<times> string list" where
  "selectScope [] selected = ([], selected)"
| "selectScope (component # allowed) selected =
     (if component \<in> set selected
      then (case selectScope allowed (removeAll component selected) of (scope, left) \<Rightarrow> (component # scope, left))
      else selectScope allowed selected)"

definition verifyScope :: "string list \<Rightarrow> string list \<Rightarrow> string list \<Rightarrow> verify_error + string list" where
  "verifyScope components attested only =
     (let allowed = (if attested = [] then components else attested)
      in if allowed = [] then Inl NoComponents
         else if only = [] then Inr allowed
         else case selectScope allowed (remdups (map TrimSpace only)) of
                (scope, left) \<Rightarrow> if left \<noteq> [] then Inl (OutsideRecord left) else Inr scope)"

definition splitDeclaredTargets ::
  "'s acceptancePlan gomap \<Rightarrow> string list \<Rightarrow> string list \<times> string list" where
  "splitDeclaredTargets plans scope =
     (filter (\<lambda>c. get plans c \<noteq> None) scope, filter (\<lambda>c. get plans c = None) scope)"

fun runScope ::
  "'s acceptancePlan gomap \<Rightarrow> ('s \<Rightarrow> bool) \<Rightarrow> ('s \<Rightarrow> acceptanceTarget \<Rightarrow> string + lfile option) \<Rightarrow>
     string list \<Rightarrow> bool \<Rightarrow> 's \<Rightarrow> verify_error + VerifyComponentResult list \<times> 's" where
  "runScope plans cancelled peek [] failed s = Inr ([], s)"
| "runScope plans cancelled peek (component # scope) failed s =
     (case get plans component of
        None \<Rightarrow> Inl (NoDeclaration component)
      | Some plan \<Rightarrow>
          (let (status, steps, s1) =
             (if failed then (VerifyStatusNotRun, [], s)
              else if preflightPlan peek plan s \<noteq> None then (VerifyStatusFailed, [], s)
              else case runPlan cancelled plan s of (rs, s1) \<Rightarrow> (planOverall component rs, rs, s1))
           in bind_res (runScope plans cancelled peek scope (failed \<or> status \<noteq> VerifyStatusPass) s1)
                (\<lambda>(rs, s2). Inr (\<lparr>ResComponent = component, ResOverall = status, ResSteps = steps,
                                  ResDependencies = PlanDependencies plan\<rparr> # rs, s2))))"

definition levelOverall :: "VerifyComponentResult list \<Rightarrow> string" where
  "levelOverall results =
     (if results = [] \<or> (\<exists>r\<in>set results. ResOverall r \<noteq> VerifyStatusPass)
      then VerifyStatusFailed else VerifyStatusPass)"

text \<open>
  The acceptance level of \<^verbatim>\<open>RunVerify\<close> from the scope on: the results of the components that
  were checked and the components left out, or the refusal. What comes before is the reading of the
  record and the binding to the cluster.
\<close>

definition RunAcceptance ::
  "'s acceptancePlan gomap \<Rightarrow> ('s \<Rightarrow> bool) \<Rightarrow> ('s \<Rightarrow> acceptanceTarget \<Rightarrow> string + lfile option) \<Rightarrow>
     string list \<Rightarrow> string list \<Rightarrow> string list \<Rightarrow> bool \<Rightarrow> 's \<Rightarrow>
     verify_error + (VerifyComponentResult list \<times> string list) \<times> 's" where
  "RunAcceptance plans cancelled peek components attested only allowPodRecreate s =
     bind_res (verifyScope components attested only) (\<lambda>scope.
       if \<not> allowPodRecreate then Inl NeedsPodRecreate
       else case splitDeclaredTargets plans scope of (declared, skipped) \<Rightarrow>
         if only \<noteq> [] \<and> skipped \<noteq> [] then Inl (NotImplemented skipped)
         else if declared = [] then Inl NothingDeclared
         else bind_res (runScope plans cancelled peek declared False s) (\<lambda>(results, s1).
           Inr ((results, skipped), s1)))"

lemma status_differ [simp]:
  "VerifyStatusNotRun \<noteq> VerifyStatusPass" "VerifyStatusPass \<noteq> VerifyStatusFailed"
  by (simp_all add: VerifyStatusNotRun_def VerifyStatusPass_def VerifyStatusFailed_def)

lemma stepResult_simps [simp]:
  "ResID (stepResult step status t) = StepID step" "ResStatus (stepResult step status t) = status"
  by (simp_all add: stepResult_def)

text \<open>The state that the work of some steps leaves, one after the other.\<close>

definition worked :: "'s acceptanceStepDecl list \<Rightarrow> 's \<Rightarrow> 's" where
  "worked steps s = foldl (\<lambda>s step. snd (snd (StepRun step s))) s steps"

lemma worked_simps [simp]:
  "worked [] s = s" "worked (step # steps) s = worked steps (snd (snd (StepRun step s)))"
  "worked (xs @ ys) s = worked ys (worked xs s)"
  by (simp_all add: worked_def)

lemma runSteps_stopped:
  "runSteps cancelled steps True s =
     (map (\<lambda>step. stepResult step VerifyStatusNotRun (StepTarget step)) steps, s)"
  by (induction steps) simp_all

lemma runStep_state:
  "runStep cancelled step s = (r, s1) \<Longrightarrow>
     ResID r = StepID step \<and> (s1 = s \<or> s1 = worked [step] s) \<and>
     (ResStatus r = VerifyStatusPass \<longrightarrow> s1 = worked [step] s)"
  by (auto simp: runStep_def split: if_splits prod.splits)

lemma runSteps_ids: "runSteps cancelled steps stopped s = (rs, s1) \<Longrightarrow> map ResID rs = map StepID steps"
proof (induction steps arbitrary: stopped s rs s1)
  case (Cons step steps)
  then show ?case
    using runStep_state by (fastforce split: if_splits prod.splits)
qed simp

text \<open>
  Claim C17. A plan of an acceptance stops at the first step that does not pass: every later step is
  reported as not run, and the work done is exactly that of the steps up to it.
\<close>

theorem runPlan_stops:
  assumes "runPlan cancelled plan s = (rs, s1)" "i < length rs" "ResStatus (rs ! i) \<noteq> VerifyStatusPass"
  shows "(\<forall>j. i < j \<and> j < length rs \<longrightarrow> ResStatus (rs ! j) = VerifyStatusNotRun) \<and>
         (\<exists>n\<le>Suc i. s1 = worked (take n (PlanSteps plan)) s)"
proof -
  have "runSteps cancelled steps stopped s = (rs, s1) \<Longrightarrow> i < length rs \<Longrightarrow> ResStatus (rs ! i) \<noteq> VerifyStatusPass \<Longrightarrow>
      (\<forall>j. i < j \<and> j < length rs \<longrightarrow> ResStatus (rs ! j) = VerifyStatusNotRun) \<and>
      (\<exists>n\<le>Suc i. s1 = worked (take n steps) s)" for steps stopped
  proof (induction steps arbitrary: stopped s rs i)
    case (Cons step steps)
    show ?case
    proof (cases stopped)
      case True
      then have "rs = map (\<lambda>step. stepResult step VerifyStatusNotRun (StepTarget step)) (step # steps)" "s1 = s"
        using Cons.prems(1) by (auto simp: runSteps_stopped)
      then show ?thesis by (auto intro!: exI [of _ 0] simp del: list.map)
    next
      case False
      obtain r s2 where r: "runStep cancelled step s = (r, s2)" by fastforce
      let ?st = "ResStatus r \<noteq> VerifyStatusPass \<or> cancelled s2"
      obtain rs' where rs: "rs = r # rs'" "runSteps cancelled steps ?st s2 = (rs', s1)"
        using Cons.prems(1) False r by (auto split: prod.splits)
      have s2: "s2 = s \<or> s2 = worked [step] s" "ResStatus r = VerifyStatusPass \<longrightarrow> s2 = worked [step] s"
        using runStep_state [OF r] by auto
      show ?thesis
      proof (cases i)
        case 0
        then have "rs' = map (\<lambda>step. stepResult step VerifyStatusNotRun (StepTarget step)) steps" "s1 = s2"
          using Cons.prems(3) rs by (auto simp: runSteps_stopped)
        moreover have "\<exists>n\<le>1. s2 = worked (take n (step # steps)) s"
          using s2(1) by (elim disjE) (auto intro: exI [of _ 0] exI [of _ 1])
        ultimately show ?thesis using 0 rs(1) by (auto simp: nth_Cons')
      next
        case (Suc k)
        have ih: "(\<forall>j. k < j \<and> j < length rs' \<longrightarrow> ResStatus (rs' ! j) = VerifyStatusNotRun) \<and>
            (\<exists>n\<le>Suc k. s1 = worked (take n steps) s2)"
          using Cons.IH [OF rs(2), of k] Cons.prems(2,3) Suc rs(1) by simp
        have "\<exists>n\<le>Suc i. s1 = worked (take n (step # steps)) s"
        proof (cases "ResStatus r = VerifyStatusPass")
          case True
          then obtain n where "n \<le> Suc k" "s1 = worked (take n steps) (worked [step] s)" using ih s2 by auto
          then show ?thesis using Suc by (intro exI [of _ "Suc n"]) simp
        next
          case False
          then have "s1 = s2" using rs(2) by (simp add: runSteps_stopped)
          then show ?thesis using s2(1)
            by (elim disjE) (auto intro: exI [of _ 0] exI [of _ 1])
        qed
        moreover have "ResStatus (rs ! j) = VerifyStatusNotRun" if "i < j \<and> j < length rs" for j
          using that ih Suc rs(1) by (cases j) auto
        ultimately show ?thesis by blast
      qed
    qed
  qed simp
  then show ?thesis using assms by (simp add: runPlan_def)
qed

lemma planOverall_pass:
  "planOverall component steps = VerifyStatusPass \<longleftrightarrow> steps \<noteq> [] \<and> (\<forall>r\<in>set steps. ResStatus r = VerifyStatusPass)"
proof -
  have "foldl (\<lambda>status r. if ResStatus r \<noteq> VerifyStatusPass then VerifyStatusFailed else status) st steps = VerifyStatusPass \<longleftrightarrow>
      st = VerifyStatusPass \<and> (\<forall>r\<in>set steps. ResStatus r = VerifyStatusPass)" for st
    by (induction steps arbitrary: st) auto
  then show ?thesis by (simp add: planOverall_def)
qed

lemma runSteps_all_pass:
  "runSteps cancelled steps False s = (rs, s1) \<Longrightarrow> \<forall>r\<in>set rs. ResStatus r = VerifyStatusPass \<Longrightarrow> s1 = worked steps s"
proof (induction steps arbitrary: s rs)
  case (Cons step steps)
  obtain r s2 where r: "runStep cancelled step s = (r, s2)" by fastforce
  obtain rs' where rs: "rs = r # rs'" "runSteps cancelled steps (ResStatus r \<noteq> VerifyStatusPass \<or> cancelled s2) s2 = (rs', s1)"
    using Cons.prems(1) r by (auto split: prod.splits)
  have pass: "ResStatus r = VerifyStatusPass" "\<forall>r\<in>set rs'. ResStatus r = VerifyStatusPass" using Cons.prems(2) rs(1) by auto
  then have s2: "s2 = worked [step] s" using runStep_state [OF r] by simp
  show ?case
  proof (cases "cancelled s2 \<and> steps \<noteq> []")
    case True
    then show ?thesis using rs(2) pass(2) by (cases steps) (auto simp: runSteps_stopped)
  next
    case False
    then show ?thesis using Cons.IH rs(2) pass s2 by (cases "steps = []") auto
  qed
qed simp

definition planSteps :: "'s acceptancePlan gomap \<Rightarrow> string \<Rightarrow> 's acceptanceStepDecl list" where
  "planSteps plans c = (case get plans c of None \<Rightarrow> [] | Some plan \<Rightarrow> PlanSteps plan)"

lemma runScope_pass:
  "runScope plans cancelled peek scope failed s = Inr (results, s1) \<Longrightarrow>
     \<forall>r\<in>set results. ResOverall r = VerifyStatusPass \<Longrightarrow>
     map ResComponent results = scope \<and> s1 = worked (concat (map (planSteps plans) scope)) s \<and>
     (\<forall>r\<in>set results. ResSteps r \<noteq> [] \<and> map ResID (ResSteps r) = map StepID (planSteps plans (ResComponent r)) \<and>
        (\<forall>x\<in>set (ResSteps r). ResStatus x = VerifyStatusPass))"
proof (induction scope arbitrary: failed s results)
  case (Cons component scope)
  then obtain plan where plan: "get plans component = Some plan" by (auto split: option.splits)
  define ran where "ran = (if failed then (VerifyStatusNotRun, [], s)
              else if preflightPlan peek plan s \<noteq> None then (VerifyStatusFailed, [], s)
              else case runPlan cancelled plan s of (rs, s1) \<Rightarrow> (planOverall component rs, rs, s1))"
  obtain status steps s2 where ran2: "ran = (status, steps, s2)" by (metis prod_cases3)
  obtain rest where rest: "runScope plans cancelled peek scope (failed \<or> status \<noteq> VerifyStatusPass) s2 = Inr (rest, s1)"
      "results = \<lparr>ResComponent = component, ResOverall = status, ResSteps = steps, ResDependencies = PlanDependencies plan\<rparr> # rest"
    using Cons.prems(1) plan ran2 unfolding ran_def by (auto simp: Let_def bind_res_Inr_conv)
  have "status = VerifyStatusPass" using Cons.prems(2) rest(2) by simp
  then have run: "runPlan cancelled plan s = (steps, s2)" "planOverall component steps = VerifyStatusPass" "\<not> failed"
    using ran2 unfolding ran_def by (auto split: if_splits prod.splits)
  then have steps: "steps \<noteq> []" "\<forall>x\<in>set steps. ResStatus x = VerifyStatusPass" by (simp_all add: planOverall_pass)
  then have "s2 = worked (PlanSteps plan) s" "map ResID steps = map StepID (PlanSteps plan)"
    using runSteps_all_pass [OF run(1) [unfolded runPlan_def]] runSteps_ids [OF run(1) [unfolded runPlan_def]] by simp_all
  moreover have "planSteps plans component = PlanSteps plan" by (simp add: planSteps_def plan)
  ultimately show ?case using Cons.IH [OF rest(1)] Cons.prems(2) rest(2) steps by simp
qed simp

lemma selectScope_sets:
  "selectScope allowed selected = (scope, left) \<Longrightarrow>
     set scope = set allowed \<inter> set selected \<and> set left = set selected - set allowed"
proof (induction allowed arbitrary: selected scope left)
  case (Cons c allowed)
  show ?case
  proof (cases "c \<in> set selected")
    case True
    then obtain rest where "selectScope allowed (removeAll c selected) = (rest, left)" "scope = c # rest"
      using Cons.prems by (auto split: prod.splits)
    then show ?thesis using Cons.IH [of "removeAll c selected" rest left] True by auto
  next
    case False
    then show ?thesis using Cons.IH [of selected scope left] Cons.prems by auto
  qed
qed simp

lemma verifyScope_sets:
  assumes "verifyScope components attested only = Inr scope"
  shows "set scope = (let allowed = set (if attested = [] then components else attested)
                      in if only = [] then allowed else TrimSpace ` set only) \<and>
         set scope \<subseteq> set (if attested = [] then components else attested)"
  using assms selectScope_sets
  by (auto simp: verifyScope_def Let_def split: if_splits prod.splits) (fastforce dest!: selectScope_sets)+

text \<open>
  Claim C16. An acceptance level passes only when everything it declares was checked: it was allowed
  to recreate pods, its scope lies in what the record attests and covers what was asked for, no
  component asked for by name is left out, every component of it reports all steps of its plan, at
  least one, each passed, and the work done is that of all these plans in order.
\<close>

theorem acceptance_pass_complete:
  assumes "RunAcceptance plans cancelled peek components attested only allow s = Inr ((results, skipped), s1)"
    "levelOverall results = VerifyStatusPass"
  shows "allow \<and> results \<noteq> [] \<and> (only \<noteq> [] \<longrightarrow> skipped = []) \<and>
         (let allowed = set (if attested = [] then components else attested);
              chosen = (if only = [] then allowed else TrimSpace ` set only)
          in chosen \<subseteq> allowed \<and> set skipped = {c \<in> chosen. get plans c = None} \<and>
             set (map ResComponent results) = chosen - set skipped) \<and>
         s1 = worked (concat (map (planSteps plans) (map ResComponent results))) s \<and>
         (\<forall>r\<in>set results. ResSteps r \<noteq> [] \<and> map ResID (ResSteps r) = map StepID (planSteps plans (ResComponent r)) \<and>
            (\<forall>x\<in>set (ResSteps r). ResStatus x = VerifyStatusPass))"
proof -
  let ?declared = "\<lambda>scope. filter (\<lambda>c. get plans c \<noteq> None) scope"
  let ?skipped = "\<lambda>scope. filter (\<lambda>c. get plans c = None) scope"
  obtain scope where scope: "verifyScope components attested only = Inr scope"
      "(if \<not> allow then Inl NeedsPodRecreate
        else if only \<noteq> [] \<and> ?skipped scope \<noteq> [] then Inl (NotImplemented (?skipped scope))
        else if ?declared scope = [] then Inl NothingDeclared
        else bind_res (runScope plans cancelled peek (?declared scope) False s) (\<lambda>(results, s1).
          Inr ((results, ?skipped scope), s1))) = Inr ((results, skipped), s1)"
    using assms(1) unfolding RunAcceptance_def bind_res_Inr_conv splitDeclaredTargets_def prod.case by blast
  then have guards: "allow" "\<not> (only \<noteq> [] \<and> ?skipped scope \<noteq> [])" "?declared scope \<noteq> []"
    by (auto simp only: split: if_splits)
  then have "bind_res (runScope plans cancelled peek (?declared scope) False s) (\<lambda>(results, s1).
      Inr ((results, ?skipped scope), s1)) = Inr ((results, skipped), s1)"
    using scope(2) by (simp only: if_False if_True not_True_eq_False)
  then have "runScope plans cancelled peek (?declared scope) False s = Inr (results, s1) \<and> skipped = ?skipped scope"
    unfolding bind_res_Inr_conv by (elim exE conjE) (simp only: split_paired_all prod.case sum.inject prod.inject)
  then have run: "verifyScope components attested only = Inr scope" "allow"
      "only \<noteq> [] \<longrightarrow> skipped = []" "skipped = ?skipped scope" "?declared scope \<noteq> []"
      "runScope plans cancelled peek (?declared scope) False s = Inr (results, s1)"
    using scope(1) guards by blast+
  have pass: "results \<noteq> []" "\<forall>r\<in>set results. ResOverall r = VerifyStatusPass"
    using assms(2) by (auto simp: levelOverall_def split: if_splits)
  have ran: "map ResComponent results = filter (\<lambda>c. get plans c \<noteq> None) scope"
    using runScope_pass [OF run(6) pass(2)] by simp
  have "set scope = (if only = [] then set (if attested = [] then components else attested) else TrimSpace ` set only)"
      "set scope \<subseteq> set (if attested = [] then components else attested)"
    using verifyScope_sets [OF run(1), unfolded Let_def] by blast+
  moreover have "set (map ResComponent results) = set scope - set skipped" "set skipped = {c \<in> set scope. get plans c = None}"
    unfolding ran run(4) by auto
  ultimately show ?thesis
    using runScope_pass [OF run(6) pass(2)] run(2,3) pass(1) by (simp add: Let_def)
qed

subsection \<open>One recreation, from the first read to the closed ledger\<close>

fun runAttempt :: "answers list \<Rightarrow> cworld \<times> attempt \<Rightarrow> cworld \<times> attempt" where
  "runAttempt [] s = s"
| "runAttempt (ans # rest) (w, a) = runAttempt rest (recreateStep ans w a)"

lemma reaches_runAttempt:
  "acceptanceReaches (w, [a]) \<Longrightarrow> \<forall>ans\<in>set anss. honoursPreconditions (Server ans) \<Longrightarrow>
     acceptanceReaches (fst (runAttempt anss (w, a)), [snd (runAttempt anss (w, a))])"
proof (induction anss arbitrary: w a)
  case (Cons ans anss)
  obtain w1 a1 where r: "recreateStep ans w a = (w1, a1)" by fastforce
  have "acceptanceStep (w, [a]) (w1, [a][0 := a1])"
    by (rule acts) (use Cons.prems(2) r in simp_all)
  then have "acceptanceReaches (w1, [a1])" using Cons.prems(1) acceptanceReaches.steps by fastforce
  then show ?case using Cons.IH Cons.prems(2) r by simp
qed simp

definition demoServer :: server where
  "demoServer ps ns name uid =
     (case ps (ns, name) of
        None \<Rightarrow> (DeleteNotFound, ps)
      | Some u \<Rightarrow> (if u = uid then (DeleteDeleted, ps((ns, name) := None)) else (DeleteConflict, ps)))"

lemma demoServer_honours: "honoursPreconditions demoServer"
  unfolding honoursPreconditions_def
proof (intro allI)
  fix ps :: pods and ns name uid
  show "(snd (demoServer ps ns name uid) = ps \<or>
         ps (ns, name) = Some uid \<and> snd (demoServer ps ns name uid) = ps((ns, name) := None)) \<and>
        (fst (demoServer ps ns name uid) = DeleteDeleted \<longrightarrow>
         ps (ns, name) = Some uid \<and> snd (demoServer ps ns name uid) = ps((ns, name) := None))"
    by (cases "ps (ns, name)") (simp_all add: demoServer_def)
qed

text \<open>A cluster that runs \<open>postgresql-0\<close> with the given uid.\<close>

definition demoReads :: "string \<Rightarrow> reads" where
  "demoReads podUID =
     \<lparr>readPath = (\<lambda>resource name ns path.
        (if resource = ''pod'' then
           (if path = uid_path then podUID
            else if path = ''{.metadata.ownerReferences[0].name}'' then ''postgresql''
            else if path = ''{.metadata.ownerReferences[0].controller}'' then ''true''
            else if path = ''{.metadata.ownerReferences[0].uid}'' then ''s1''
            else if path = ready_path then ''True''
            else ''other data-postgresql-0'')
         else if resource = ''statefulset'' then ''s1''
         else if resource = ''pvc'' \<and> path \<noteq> uid_path then ''pv1''
         else ''c1'', False)),
      readDaemonPod = (\<lambda>ns selector node. ([], True))\<rparr>"

definition demoAnswers :: "string \<Rightarrow> answers" where
  "demoAnswers podUID =
     \<lparr>Live = demoReads podUID, IoError = False, Landed = False, Token = ''t'', WriteOk = True, Finished = False,
      Server = demoServer, DeadlinePassed = False, AfterOk = True, ReadBackOk = True\<rparr>"

definition demoTarget :: acceptanceTarget where
  "demoTarget = the (get acceptanceTargets ''postgresql'')"

definition demoStart :: cworld where
  "demoStart =
     \<lparr>Disk = (\<lambda>f. None), Pods = (\<lambda>p. if p = (''ani-platform'', ''postgresql-0'') then Some ''u1'' else None),
      Requests = [], Removed = []\<rparr>"

definition demoEnd :: "cworld \<times> attempt" where
  "demoEnd = runAttempt (replicate 8 (demoAnswers ''u1'') @ replicate 5 (demoAnswers ''u2''))
               (demoStart, newAttempt ''r'' demoTarget False)"

lemma demo_reached: "acceptanceReaches (fst demoEnd, [snd demoEnd])"
proof -
  have "acceptanceReaches (demoStart, [])" by (rule start) (simp_all add: demoStart_def)
  then have "acceptanceReaches (demoStart, [newAttempt ''r'' demoTarget False])"
    using acceptanceReaches.steps begins [of demoStart "[]" "''r''" demoTarget False] by simp
  then show ?thesis
    unfolding demoEnd_def by (rule reaches_runAttempt) (auto simp: demoAnswers_def demoServer_honours)
qed

lemma demo_requests: "Requests (fst demoEnd) = [(''ledger-r-postgresql.json'', ''ani-platform'', ''postgresql-0'', ''u1'')]"
  by code_simp

lemma demo_passed: "AtPc (snd demoEnd) = Returned \<lparr>OutStatus = VerifyStatusPass, OutQuota = ledgerStateDone\<rparr>"
  by code_simp

theorem one_delete_per_target_witness:
  "\<exists>rec. Disk (fst demoEnd) ''ledger-r-postgresql.json'' = Some (Ledger rec) \<and> OldPodUID rec = ''u1''"
  using one_delete_per_target [OF demo_reached] demo_requests by simp

theorem pass_needs_every_step_witness:
  "\<exists>rec newPod pod. newPod \<noteq> OldPodUID rec \<and>
     AtTrace (snd demoEnd) = passedTrace (AtTarget (snd demoEnd)) rec newPod @ [EvClosed] \<and>
     (AtFile (snd demoEnd), TNamespace (AtTarget (snd demoEnd)), pod, OldPodUID rec) \<in> set (Requests (fst demoEnd))"
  using pass_needs_every_step [OF demo_reached _ demo_passed] by auto

definition demoDeleting :: "cworld \<times> attempt" where
  "demoDeleting = runAttempt (replicate 7 (demoAnswers ''u1'')) (demoStart, newAttempt ''r'' demoTarget False)"

lemma demo_deleting: "acceptanceStep (fst demoDeleting, [snd demoDeleting])
    (fst (recreateStep (demoAnswers ''u1'') (fst demoDeleting) (snd demoDeleting)),
     [snd (recreateStep (demoAnswers ''u1'') (fst demoDeleting) (snd demoDeleting))])"
  using acts [of 0 "[snd demoDeleting]" "demoAnswers ''u1''" "fst demoDeleting"]
  by (simp add: demoAnswers_def demoServer_honours)

theorem acceptance_refines_quota_witness:
  "phaseOf (AtPc (snd demoDeleting)) = Holding ''u1'' \<and>
   quota_step (quotaOf (fst demoDeleting, [snd demoDeleting]))
     (quotaOf (fst (recreateStep (demoAnswers ''u1'') (fst demoDeleting) (snd demoDeleting)),
        [snd (recreateStep (demoAnswers ''u1'') (fst demoDeleting) (snd demoDeleting))]))"
proof
  show "phaseOf (AtPc (snd demoDeleting)) = Holding ''u1''" by code_simp
qed (rule acceptance_refines_quota [OF demo_deleting])

text \<open>A plan of two steps over a counter, and one whose first step fails.\<close>

definition demoStep :: "string \<Rightarrow> string option \<Rightarrow> nat acceptanceStepDecl" where
  "demoStep name err = \<lparr>StepID = name, StepTarget = [], StepRun = (\<lambda>n. (err, False, Suc n))\<rparr>"

definition demoPlans :: "nat acceptancePlan gomap" where
  "demoPlans =
     [(''postgresql'', \<lparr>PlanSteps = [demoStep ''PG-01'' None, demoStep ''PG-02'' None], PlanDependencies = []\<rparr>),
      (''nats'', \<lparr>PlanSteps = [demoStep ''NATS-01'' (Some ''lost''), demoStep ''NATS-02'' None], PlanDependencies = []\<rparr>)]"

definition demoResults :: "VerifyComponentResult list" where
  "demoResults =
     (case RunAcceptance demoPlans (\<lambda>n. False) (\<lambda>n t. Inr None) [''postgresql'', ''valkey''] [] [] True 0 of
        Inl e \<Rightarrow> [] | Inr ((results, skipped), n) \<Rightarrow> results)"

lemma demo_level:
  "RunAcceptance demoPlans (\<lambda>n. False) (\<lambda>n t. Inr None) [''postgresql'', ''valkey''] [] [] True 0 =
     Inr ((demoResults, [''valkey'']), 2)"
  by code_simp

lemma demo_level_pass: "levelOverall demoResults = VerifyStatusPass"
  by code_simp

theorem acceptance_pass_complete_witness:
  "(2::nat) = worked (concat (map (planSteps demoPlans) (map ResComponent demoResults))) 0"
  using acceptance_pass_complete [OF demo_level demo_level_pass] by simp

definition demoFailing :: "VerifyStepResult list" where
  "demoFailing = fst (runPlan (\<lambda>n. False) (the (get demoPlans ''nats'')) 0)"

lemma demo_failing: "runPlan (\<lambda>n. False) (the (get demoPlans ''nats'')) 0 = (demoFailing, 1)"
  by code_simp

lemma demo_failing_statuses: "map ResStatus demoFailing = [VerifyStatusFailed, VerifyStatusNotRun]"
  by code_simp

theorem runPlan_stops_witness:
  "\<exists>n\<le>Suc 0. (1::nat) = worked (take n (PlanSteps (the (get demoPlans ''nats'')))) 0"
proof -
  have "length demoFailing = 2" using arg_cong [OF demo_failing_statuses, of length] by simp
  moreover have "ResStatus (demoFailing ! 0) = VerifyStatusFailed"
    using arg_cong [OF demo_failing_statuses, of "\<lambda>l. l ! 0"] calculation by simp
  ultimately show ?thesis using runPlan_stops [OF demo_failing, of 0] by simp
qed

text \<open>
  Two corners. After a write that failed the result reports the quota as attempted, while the ledger
  is closed as unknown. And a last step that ends without an error after the run was cancelled
  passes, so its component passes.
\<close>

lemma write_failed_quota:
  "changeStep ((demoAnswers ''u1'')\<lparr>WriteOk := False\<rparr>) w (goto a (WriteData pod rec) []) =
     (w, goto (goto a (WriteData pod rec) []) (Close (terminalLedger rec ledgerStateUnknown ''write-failed'')
        (failedWith ledgerStateAttempted)) [])"
  by (simp add: changeStep_def demoAnswers_def Let_def)

lemma cancelled_last_step_passes:
  "planOverall ''postgresql'' (fst (runPlan (\<lambda>n. 1 \<le> n)
     \<lparr>PlanSteps = [demoStep ''PG-01'' None], PlanDependencies = []\<rparr> (0::nat))) = VerifyStatusPass"
  by code_simp

end
