(* ===== verification/Records.thy ===== *)
theory Records
  imports Scope "HOL-Library.List_Lexorder" "HOL-Library.Char_ord"
begin

text \<open>
  The records of installs and of component executions (\<^verbatim>\<open>pkg/ani/run_manifest.go\<close>,
  \<^verbatim>\<open>components_record.go\<close>, and the reading side in \<^verbatim>\<open>verify.go\<close>): what an execution writes about
  itself, what a reader accepts, and the scope and the quota an accepted record grants. Of a record
  the fields that are read again are kept; installer, nodes, storage and network fields are passed
  through unread. The digests of files, the file system and the live cluster are arguments; a
  record is read back as it was written (its JSON text is not modelled).
\<close>

subsection \<open>Records\<close>

record ManifestIdentity =
  SourceTreeFingerprint :: string
  CodeCommit :: string
  CodeBinaryDigest :: string
  SiteConfigDigest :: string
  MaterialsLockDigest :: string
  ClusterUID :: string
  NodeCount :: int
  ReadyNodes :: "string list"

record ExecutionTarget =
  TgComponent :: string
  TgStatus :: string
  TgNamespace :: string
  TgKind :: string
  TgName :: string
  TgUID :: string

record EvidenceRef =
  EvKind :: string
  EvPath :: string
  EvSHA256 :: string
  EvRunID :: string

record ComponentsExecution =
  Operation :: string
  DidInstall :: bool
  RequestedScope :: "string list"
  Executed :: "string list"
  ObservedExists :: "string list"
  BaseRunID :: string
  BaseRecordFile :: string
  BaseRecordSHA256 :: string
  BaseClusterUID :: string
  BaseConfigDigest :: string
  Targets :: "ExecutionTarget list"
  Evidence :: "EvidenceRef list"

record RunManifest =
  SchemaVersion :: int
  RecordKind :: string
  RunID :: string
  RmClusterName :: string
  RunResult :: string
  ConfigDigest :: string
  Identity :: ManifestIdentity
  RmComponents :: "string list"
  Execution :: "ComponentsExecution option"

record InstallState =
  StRunID :: string
  StClusterName :: string
  StPhase :: string
  StResult :: string
  StConfigDigest :: string

record ComponentsPlan =
  PlRunID :: string
  PlClusterName :: string
  PlNewConfigDigest :: string
  PlBaseClusterUID :: string
  PlKKBinaryDigest :: string
  PlBaseRunFile :: string
  PlComponents :: "PlanComponent list"

definition RunManifestSchemaVersion :: int where "RunManifestSchemaVersion = 1"
definition RecordKindInstallSuccess :: string where "RecordKindInstallSuccess = ''install-success''"
definition RecordKindComponentsExecution :: string where
  "RecordKindComponentsExecution = ''components-execution''"
definition ResultSucceeded :: string where "ResultSucceeded = ''succeeded''"
definition ResultFailed :: string where "ResultFailed = ''failed''"
definition ResultCancelled :: string where "ResultCancelled = ''cancelled''"
definition RecordResultUnknown :: string where "RecordResultUnknown = ''unknown''"
definition PhaseSucceeded :: string where "PhaseSucceeded = ''succeeded''"
definition OperationAdd :: string where "OperationAdd = ''add''"
definition OperationNoop :: string where "OperationNoop = ''noop''"
definition TargetExecuted :: string where "TargetExecuted = ''executed''"
definition TargetFailed :: string where "TargetFailed = ''failed''"
definition TargetCancelled :: string where "TargetCancelled = ''cancelled''"
definition TargetUnknown :: string where "TargetUnknown = ''unknown''"
definition EvidencePlan :: string where "EvidencePlan = ''plan''"
definition EvidenceExecuteReport :: string where "EvidenceExecuteReport = ''execute-report''"
definition EvidencePriorExecution :: string where "EvidencePriorExecution = ''prior-execution''"
definition notEmbeddedIdentity :: string where "notEmbeddedIdentity = ''not-embedded''"

definition isHex64 :: "string \<Rightarrow> bool" where
  "isHex64 s \<longleftrightarrow> length s = 64 \<and> list_all (\<lambda>r. r \<in> set ''0123456789abcdef'') s"

definition isGitCommit :: "string \<Rightarrow> bool" where
  "isGitCommit v \<longleftrightarrow>
     (let core = takeWhile (\<lambda>r. r \<noteq> CHR ''-'') v
      in 7 \<le> length core \<and> length core \<le> 40 \<and> list_all (\<lambda>r. r \<in> set ''0123456789abcdefABCDEF'') core)"

text \<open>\<^verbatim>\<open>filepath.Base\<close>, and the test for a single path element that several checks share.\<close>

definition Base :: "string \<Rightarrow> string" where
  "Base path =
     (if path = [] then ''.''
      else let p = TrimRight (CHR ''/'') path in if p = [] then ''/'' else last (Split (CHR ''/'') p))"

definition singleElement :: "string \<Rightarrow> bool" where
  "singleElement s \<longleftrightarrow> s = Base s \<and> CHR ''/'' \<notin> set s \<and> CHR 0x5C \<notin> set s"

subsection \<open>The record of an install\<close>

datatype record_error = NotARunRecord | BadDigest string | WrongKind string | CarriesExecution
  | NotSucceeded string | SiteDigestDiffers | NoClusterUID | BadLockDigest | StateDiffers | NoRunID | NoBase
  | BadOperation string | BadResult string | NothingExecuted | NoopExecuted | NothingObserved | NoResource string
  | NoUID string | NoBaseFile | OtherCluster | NoLock | ConfigUnchanged | BadRecordDir | BadSchema | NoExecution
  | BadRunID | BadIdentity | DidInstallDiffers | BadBaseLink | NoTargets | NoComponentName | BadElement string
  | NamedTwice string | BadTargetStatus string | NotCarried string | ScopeWithoutTarget string
  | LeftOutOfScope string | NotInstalled string | NoRequest | BadEvidence string | NoEvidence string
  | BaseChanged | BaseDiffers | EvidenceChanged string | ReadOnlyRecord | Unreadable string | NoLiveCluster
  | NodesNotReady | NodesDiffer | PlanRefused scope_error | ConfigDiffers | OtherBinary
  | PlaybookFailed | NoConnections | Unbound | OtherHost

definition ValidateSuccessRecord :: "RunManifest \<Rightarrow> InstallState option \<Rightarrow> record_error option" where
  "ValidateSuccessRecord m state =
     (if ConfigDigest m = [] \<or> RmClusterName m = [] then Some NotARunRecord
      else if \<not> isHex64 (ConfigDigest m) then Some (BadDigest (ConfigDigest m))
      else if RecordKind m \<noteq> RecordKindInstallSuccess then Some (WrongKind (RecordKind m))
      else if Execution m \<noteq> None then Some CarriesExecution
      else if RunResult m \<noteq> ResultSucceeded then Some (NotSucceeded (RunResult m))
      else if \<not> isHex64 (SiteConfigDigest (Identity m)) \<or> SiteConfigDigest (Identity m) \<noteq> ConfigDigest m
      then Some SiteDigestDiffers
      else if ClusterUID (Identity m) = [] then Some NoClusterUID
      else if \<not> isHex64 (MaterialsLockDigest (Identity m)) then Some BadLockDigest
      else case state of
             None \<Rightarrow> None
           | Some st \<Rightarrow>
               (if StRunID st \<noteq> RunID m \<or> StClusterName st \<noteq> RmClusterName m \<or> StResult st \<noteq> ResultSucceeded \<or>
                   StPhase st \<noteq> PhaseSucceeded \<or> StConfigDigest st \<noteq> [] \<and> StConfigDigest st \<noteq> ConfigDigest m
                then Some StateDiffers else None))"

definition BuildInstallSuccessManifest ::
  "RunManifest \<Rightarrow> InstallState \<Rightarrow> ManifestIdentity \<Rightarrow> record_error + RunManifest" where
  "BuildInstallSuccessManifest base state identity =
     (if StRunID state = [] then Inl NoRunID
      else if SiteConfigDigest identity = [] \<or> \<not> isHex64 (SiteConfigDigest identity)
      then Inl (BadDigest (SiteConfigDigest identity))
      else if ClusterUID identity = [] then Inl NoClusterUID
      else Inr (base\<lparr>SchemaVersion := RunManifestSchemaVersion, RecordKind := RecordKindInstallSuccess,
                    RunID := StRunID state, RunResult := StResult state, Identity := identity\<rparr>))"

subsection \<open>The record of an execution, as it is written\<close>

definition uidRead :: "kube \<Rightarrow> string \<Rightarrow> string \<Rightarrow> string \<Rightarrow> string" where
  "uidRead k kind name ns =
     (case jsonpath k (map lower kind) name ns uidPath of Inl e \<Rightarrow> [] | Inr uid \<Rightarrow> TrimSpace uid)"

text \<open>
  \<^verbatim>\<open>componentsRecordTargets\<close>, one component: a target whose object has no readable uid is not
  recorded as executed or installed.
\<close>

definition recordTarget :: "kube \<Rightarrow> string gomap \<Rightarrow> PlanComponent \<Rightarrow> ExecutionTarget" where
  "recordTarget k statuses planned =
     (let spec = specOf (PcComponent planned);
          status = (case get statuses (PcComponent planned) of None \<Rightarrow> TargetUnknown | Some s \<Rightarrow> s);
          ns = (if PcNamespace planned = [] then SpecNamespace spec else PcNamespace planned);
          uid = (if WorkloadKind spec \<noteq> [] \<and> WorkloadName spec \<noteq> [] \<and> ns \<noteq> []
                 then uidRead k (WorkloadKind spec) (WorkloadName spec) ns else [])
      in \<lparr>TgComponent = PcComponent planned,
          TgStatus = (if status \<in> {TargetExecuted, rowInstalled} \<and> uid = [] then TargetUnknown else status),
          TgNamespace = ns, TgKind = WorkloadKind spec, TgName = WorkloadName spec, TgUID = uid\<rparr>)"

definition componentsRecordTargets ::
  "kube \<Rightarrow> ComponentsPlan \<Rightarrow> string gomap \<Rightarrow> ExecutionTarget list" where
  "componentsRecordTargets k plan statuses = map (recordTarget k statuses) (PlComponents plan)"

definition namesWith :: "string \<Rightarrow> ExecutionTarget list \<Rightarrow> string list" where
  "namesWith status ts = map TgComponent (filter (\<lambda>t. TgStatus t = status) ts)"

text \<open>
  What the build says of itself: the fingerprint of its source tree and its commit, either blank.
\<close>

record build =
  BuildTree :: string
  BuildCommit :: string

definition treeFingerprintForRecord :: "build \<Rightarrow> string" where
  "treeFingerprintForRecord b = (if TrimSpace (BuildTree b) = [] then notEmbeddedIdentity else BuildTree b)"

definition commitForRecord :: "build \<Rightarrow> string" where
  "commitForRecord b = (if TrimSpace (BuildCommit b) \<noteq> [] then TrimSpace (BuildCommit b) else notEmbeddedIdentity)"

definition effectiveOperation :: "string \<Rightarrow> string \<Rightarrow> ExecutionTarget list \<Rightarrow> string" where
  "effectiveOperation op result ts =
     (if namesWith TargetExecuted ts = [] \<and> namesWith rowInstalled ts \<noteq> [] \<and> result = ResultSucceeded
      then OperationNoop else op)"

text \<open>\<open>sha\<close>: the digest of the file of that path, \<open>None\<close> when it cannot be read.\<close>

definition NewComponentsExecutionManifest ::
  "build \<Rightarrow> (string \<Rightarrow> string option) \<Rightarrow> RunManifest \<Rightarrow> ComponentsPlan \<Rightarrow> ManifestIdentity \<Rightarrow> string \<Rightarrow> string \<Rightarrow> string \<Rightarrow>
     ExecutionTarget list \<Rightarrow> EvidenceRef list \<Rightarrow> record_error + RunManifest" where
  "NewComponentsExecutionManifest b sha base plan liveID lockDigest op0 result ts evidence =
     (if RunID base = [] \<or> RecordKind base \<noteq> RecordKindInstallSuccess then Inl NoBase
      else if op0 \<noteq> OperationAdd \<and> op0 \<noteq> OperationNoop then Inl (BadOperation op0)
      else if result \<notin> {ResultSucceeded, ResultFailed, ResultCancelled, RecordResultUnknown} then Inl (BadResult result)
      else
        (let executed = namesWith TargetExecuted ts; observed = namesWith rowInstalled ts;
             op = effectiveOperation op0 result ts
         in if op = OperationAdd \<and> result = ResultSucceeded \<and> executed = [] then Inl NothingExecuted
            else if op = OperationNoop \<and> executed \<noteq> [] then Inl NoopExecuted
            else if op = OperationNoop \<and> result = ResultSucceeded \<and> observed = [] then Inl NothingObserved
            else case find (\<lambda>t. TgNamespace t = [] \<or> TgKind t = [] \<or> TgName t = [] \<or>
                         TgStatus t \<in> {TargetExecuted, rowInstalled} \<and> TgUID t = []) ts of
              Some t \<Rightarrow> Inl (if TgNamespace t = [] \<or> TgKind t = [] \<or> TgName t = [] then NoResource (TgComponent t)
                             else NoUID (TgComponent t))
            | None \<Rightarrow>
                (case sha (PlBaseRunFile plan) of
                   None \<Rightarrow> Inl NoBaseFile
                 | Some baseDigest \<Rightarrow>
                     (if ClusterUID (Identity base) = [] then Inl NoClusterUID
                      else if ClusterUID liveID \<noteq> ClusterUID (Identity base) then Inl OtherCluster
                      else if lockDigest = [] then Inl NoLock
                      else if PlNewConfigDigest plan = ConfigDigest base \<and> op = OperationAdd then Inl ConfigUnchanged
                      else Inr
                        \<lparr>SchemaVersion = RunManifestSchemaVersion, RecordKind = RecordKindComponentsExecution,
                         RunID = PlRunID plan, RmClusterName = PlClusterName plan, RunResult = result,
                         ConfigDigest = PlNewConfigDigest plan,
                         Identity = \<lparr>SourceTreeFingerprint = treeFingerprintForRecord b,
                           CodeCommit = commitForRecord b, CodeBinaryDigest = PlKKBinaryDigest plan,
                           SiteConfigDigest = PlNewConfigDigest plan, MaterialsLockDigest = lockDigest,
                           ClusterUID = ClusterUID liveID, NodeCount = NodeCount liveID, ReadyNodes = ReadyNodes liveID\<rparr>,
                         RmComponents = executed @ observed,
                         Execution = Some
                           \<lparr>Operation = op, DidInstall = (op = OperationAdd), RequestedScope = map TgComponent ts,
                            Executed = executed, ObservedExists = observed, BaseRunID = RunID base,
                            BaseRecordFile = PlBaseRunFile plan, BaseRecordSHA256 = baseDigest,
                            BaseClusterUID = ClusterUID (Identity base), BaseConfigDigest = ConfigDigest base,
                            Targets = ts, Evidence = evidence\<rparr>\<rparr>))))"

text \<open>
  The earlier records of the cluster, in the order they are found: path, digest and content.
\<close>

type_synonym earlier = "(string \<times> string option \<times> RunManifest) list"

definition installedBy :: "RunManifest \<Rightarrow> string \<Rightarrow> bool" where
  "installedBy m component \<longleftrightarrow>
     RecordKind m = RecordKindComponentsExecution \<and> RunResult m = ResultSucceeded \<and>
     (case Execution m of
        None \<Rightarrow> False
      | Some e \<Rightarrow> DidInstall e \<and> (\<exists>t\<in>set (Targets e). TgComponent t = component \<and> TgStatus t = TargetExecuted))"

definition findPriorExecutionRecord :: "earlier \<Rightarrow> string \<Rightarrow> EvidenceRef option" where
  "findPriorExecutionRecord es component =
     (case find (\<lambda>(path, dg, m). installedBy m component) es of
        None \<Rightarrow> None
      | Some (path, dg, m) \<Rightarrow>
          map_option (\<lambda>d. \<lparr>EvKind = EvidencePriorExecution, EvPath = path, EvSHA256 = d, EvRunID = RunID m\<rparr>) dg)"

definition safeDirName :: "string \<Rightarrow> bool" where
  "safeDirName s \<longleftrightarrow> s \<notin> {[], ''.'', ''..''} \<and> CHR ''/'' \<notin> set s \<and> CHR 0x5C \<notin> set s"

definition recordComponentsExecution ::
  "build \<Rightarrow> (string \<Rightarrow> string option) \<Rightarrow> earlier \<Rightarrow> kube \<Rightarrow> RunManifest \<Rightarrow> ComponentsPlan \<Rightarrow> ManifestIdentity \<Rightarrow> string \<Rightarrow>
     string \<Rightarrow> string \<Rightarrow> string gomap \<Rightarrow> EvidenceRef list \<Rightarrow> record_error + RunManifest" where
  "recordComponentsExecution b sha es k base plan liveID lockDigest op result statuses evidence =
     (let ts = componentsRecordTargets k plan statuses;
          evidence1 = (if op = OperationNoop
            then evidence @ concat (map (\<lambda>t. case findPriorExecutionRecord es (TgComponent t) of
                                         None \<Rightarrow> [] | Some r \<Rightarrow> [r]) ts)
            else evidence)
      in bind_res (NewComponentsExecutionManifest b sha base plan liveID lockDigest op result ts evidence1)
           (\<lambda>m. if safeDirName (PlClusterName plan) \<and> safeDirName (PlRunID plan) then Inr m else Inl BadRecordDir))"

subsection \<open>The record of an execution, as it is read\<close>

text \<open>The loop over the targets; \<open>seen\<close> is what it has met.\<close>

fun checkTargets :: "ExecutionTarget list \<Rightarrow> string list \<Rightarrow> record_error option" where
  "checkTargets [] seen = None"
| "checkTargets (t # ts) seen =
     (if TgComponent t = [] then Some NoComponentName
      else if \<not> singleElement (TgComponent t) then Some (BadElement (TgComponent t))
      else if TgComponent t \<in> set seen then Some (NamedTwice (TgComponent t))
      else if TgStatus t \<notin> {TargetExecuted, rowInstalled, TargetFailed, TargetCancelled, TargetUnknown}
      then Some (BadTargetStatus (TgComponent t))
      else if TgNamespace t = [] \<or> TgKind t = [] \<or> TgName t = [] then Some (NoResource (TgComponent t))
      else if TgStatus t \<in> {TargetExecuted, rowInstalled} \<and> TgUID t = [] then Some (NoUID (TgComponent t))
      else checkTargets ts (TgComponent t # seen))"

definition statusOf :: "ExecutionTarget list \<Rightarrow> string \<Rightarrow> string" where
  "statusOf ts name =
     (case get (rev (map (\<lambda>t. (TgComponent t, TgStatus t)) ts)) name of None \<Rightarrow> [] | Some s \<Rightarrow> s)"

text \<open>One of the two scope lists against the targets and the components of the record.\<close>

fun checkNames ::
  "ExecutionTarget list \<Rightarrow> string list \<Rightarrow> string \<Rightarrow> string list \<Rightarrow> string list \<Rightarrow> record_error option" where
  "checkNames ts recorded kind [] named = None"
| "checkNames ts recorded kind (name # names) named =
     (if \<not> singleElement name then Some (BadElement name)
      else if name \<notin> set recorded then Some (NotCarried name)
      else if name \<in> set named then Some (NamedTwice name)
      else if statusOf ts name \<noteq> kind then Some (ScopeWithoutTarget name)
      else checkNames ts recorded kind names (name # named))"

definition checkScopeList ::
  "ExecutionTarget list \<Rightarrow> string list \<Rightarrow> string \<times> string list \<Rightarrow> record_error option" where
  "checkScopeList ts recorded = (\<lambda>(kind, names).
     case checkNames ts recorded kind names [] of
       Some e \<Rightarrow> Some e
     | None \<Rightarrow> map_option (\<lambda>t. LeftOutOfScope (TgComponent t))
                 (find (\<lambda>t. statusOf ts (TgComponent t) = kind \<and> TgComponent t \<notin> set names) ts))"

definition checkExecutionIdentity :: "RunManifest \<Rightarrow> record_error option" where
  "checkExecutionIdentity m =
     (let i = Identity m
      in if \<not> isHex64 (CodeBinaryDigest i) \<or>
            \<not> isHex64 (SourceTreeFingerprint i) \<and> SourceTreeFingerprint i \<noteq> notEmbeddedIdentity \<or>
            \<not> isHex64 (MaterialsLockDigest i) \<or> CodeCommit i = [] \<or>
            CodeCommit i \<noteq> notEmbeddedIdentity \<and> \<not> isGitCommit (CodeCommit i)
         then Some BadIdentity else None)"

text \<open>The checks of \<^verbatim>\<open>ValidateComponentsExecutionShape\<close> after the scope lists.\<close>

definition checkOutcome :: "RunManifest \<Rightarrow> ComponentsExecution \<Rightarrow> record_error option" where
  "checkOutcome m e =
     (let executed = length (namesWith TargetExecuted (Targets e));
          observed = length (namesWith rowInstalled (Targets e));
          ok = RunResult m = ResultSucceeded
      in if Operation e = OperationAdd \<and> ok \<and> executed = 0 then Some NothingExecuted
         else if Operation e = OperationNoop \<and> executed > 0 then Some NoopExecuted
         else if Operation e = OperationNoop \<and> ok \<and> observed = 0 then Some NothingObserved
         else case (if ok then find (\<lambda>t. TgStatus t \<notin> {TargetExecuted, rowInstalled}) (Targets e) else None) of
           Some t \<Rightarrow> Some (NotInstalled (TgComponent t))
         | None \<Rightarrow>
             if RequestedScope e = [] then Some NoRequest
             else case find (\<lambda>r. EvPath r = [] \<or> \<not> isHex64 (EvSHA256 r)) (Evidence e) of
               Some r \<Rightarrow> Some (BadEvidence (EvPath r))
             | None \<Rightarrow>
                 if \<not> ok then None
                 else map_option NoEvidence
                        (find (\<lambda>kind. kind \<notin> EvKind ` set (Evidence e)) [EvidencePlan, EvidenceExecuteReport]))"

definition ValidateComponentsExecutionShape :: "RunManifest \<Rightarrow> record_error option" where
  "ValidateComponentsExecutionShape m =
     (if SchemaVersion m \<noteq> RunManifestSchemaVersion then Some BadSchema
      else if RecordKind m \<noteq> RecordKindComponentsExecution then Some (WrongKind (RecordKind m))
      else case Execution m of None \<Rightarrow> Some NoExecution | Some e \<Rightarrow>
        if RunID m = [] \<or> RmClusterName m = [] then Some NoRunID
        else if \<not> singleElement (RunID m) then Some BadRunID
        else if \<not> isHex64 (ConfigDigest m) then Some (BadDigest (ConfigDigest m))
        else case checkExecutionIdentity m of Some err \<Rightarrow> Some err | None \<Rightarrow>
          if Operation e \<noteq> OperationAdd \<and> Operation e \<noteq> OperationNoop then Some (BadOperation (Operation e))
          else if DidInstall e \<noteq> (Operation e = OperationAdd) then Some DidInstallDiffers
          else if \<not> isHex64 (BaseRecordSHA256 e) then Some (BadDigest (BaseRecordSHA256 e))
          else if BaseRunID e = [] \<or> BaseClusterUID e = [] \<or> \<not> isHex64 (BaseConfigDigest e) then Some BadBaseLink
          else if DidInstall e \<and> BaseConfigDigest e = ConfigDigest m then Some ConfigUnchanged
          else if Targets e = [] then Some NoTargets
          else case checkTargets (Targets e) [] of Some err \<Rightarrow> Some err | None \<Rightarrow>
            case checkScopeList (Targets e) (RmComponents m) (TargetExecuted, Executed e) of
              Some err \<Rightarrow> Some err
            | None \<Rightarrow>
                case checkScopeList (Targets e) (RmComponents m) (rowInstalled, ObservedExists e) of
                  Some err \<Rightarrow> Some err | None \<Rightarrow> checkOutcome m e)"

text \<open>
  What is on disk: the digest of a file, the record and the install state that a file parses to, and
  the \<^verbatim>\<open>run-state.json\<close> beside a record: \<open>None\<close> when there is none, \<open>Some None\<close> when it does not parse.
\<close>

record disk =
  digestOf :: "string \<Rightarrow> string option"
  recordAt :: "string \<Rightarrow> RunManifest option"
  stateAt :: "string \<Rightarrow> InstallState option"
  stateBeside :: "string \<Rightarrow> InstallState option option"

definition readState :: "disk \<Rightarrow> string \<Rightarrow> string \<Rightarrow> record_error + InstallState option" where
  "readState d path stateFile =
     (if stateFile \<noteq> []
      then (case stateAt d stateFile of None \<Rightarrow> Inl (Unreadable stateFile) | Some st \<Rightarrow> Inr (Some st))
      else case stateBeside d path of
             None \<Rightarrow> Inr None
           | Some None \<Rightarrow> Inl (Unreadable path)
           | Some (Some st) \<Rightarrow> Inr (Some st))"

definition loadBaseRunRecord :: "disk \<Rightarrow> string \<Rightarrow> string \<Rightarrow> record_error + RunManifest" where
  "loadBaseRunRecord d path stateFile =
     (if TrimSpace path = [] then Inl NoBaseFile
      else case recordAt d path of
             None \<Rightarrow> Inl (Unreadable path)
           | Some base \<Rightarrow>
               bind_res (readState d path (TrimSpace stateFile)) (\<lambda>state.
                 case ValidateSuccessRecord base state of Some e \<Rightarrow> Inl e | None \<Rightarrow> Inr base))"

subsection \<open>The live cluster\<close>

text \<open>The nodes: a name and the conditions, type and status.\<close>

type_synonym nodes = "(string \<times> (string \<times> string) list) list"

definition nodeReady :: "string \<times> (string \<times> string) list \<Rightarrow> bool" where
  "nodeReady node \<longleftrightarrow> (''Ready'', ''True'') \<in> set (snd node)"

definition captureLiveCluster :: "kube \<Rightarrow> string + nodes \<Rightarrow> record_error + ManifestIdentity \<times> string list" where
  "captureLiveCluster k nodes =
     (case jsonpath k ''namespace'' ''kube-system'' [] uidPath of
        Inl e \<Rightarrow> Inl (Unreadable e)
      | Inr uid \<Rightarrow>
          if TrimSpace uid = [] then Inl NoLiveCluster
          else case nodes of
                 Inl e \<Rightarrow> Inl (Unreadable e)
               | Inr items \<Rightarrow>
                   if items = [] then Inl NoLiveCluster
                   else Inr (\<lparr>SourceTreeFingerprint = [], CodeCommit = [], CodeBinaryDigest = [],
                              SiteConfigDigest = [], MaterialsLockDigest = [], ClusterUID = TrimSpace uid,
                              NodeCount = int (length items),
                              ReadyNodes = sort (map fst (filter nodeReady items))\<rparr>,
                             map fst (filter (\<lambda>n. \<not> nodeReady n) items)))"

definition requireBaseIdentity :: "RunManifest \<Rightarrow> ManifestIdentity \<Rightarrow> string list \<Rightarrow> record_error option" where
  "requireBaseIdentity base liveID notReady =
     (if ClusterUID (Identity base) = [] then Some NoClusterUID
      else if ClusterUID liveID \<noteq> ClusterUID (Identity base) then Some OtherCluster
      else if notReady \<noteq> [] then Some NodesNotReady
      else if join (CHR '','') (sort (ReadyNodes (Identity base))) \<noteq> join (CHR '','') (ReadyNodes liveID)
      then Some NodesDiffer else None)"

subsection \<open>The record of an execution, as it is consumed\<close>

text \<open>
  \<^verbatim>\<open>ValidateComponentsExecutionBase\<close>: the base file has the digest the record names and is a valid
  install record, every evidence file still has its digest, and the cluster is the base's.
\<close>

definition ValidateComponentsExecutionBase ::
  "disk \<Rightarrow> kube \<Rightarrow> string + nodes \<Rightarrow> RunManifest \<Rightarrow> record_error + RunManifest" where
  "ValidateComponentsExecutionBase d k nodes m =
     (case Execution m of None \<Rightarrow> Inl NoExecution | Some e \<Rightarrow>
        if BaseRecordFile e = [] then Inl NoBaseFile
        else case digestOf d (BaseRecordFile e) of None \<Rightarrow> Inl (Unreadable (BaseRecordFile e)) | Some digest \<Rightarrow>
          if digest \<noteq> BaseRecordSHA256 e then Inl BaseChanged
          else case recordAt d (BaseRecordFile e) of None \<Rightarrow> Inl (Unreadable (BaseRecordFile e)) | Some base \<Rightarrow>
            bind_res (readState d (BaseRecordFile e) []) (\<lambda>state.
              case ValidateSuccessRecord base state of Some err \<Rightarrow> Inl err | None \<Rightarrow>
                if RunID base \<noteq> BaseRunID e \<or> RmClusterName base \<noteq> RmClusterName m \<or>
                   ConfigDigest base \<noteq> BaseConfigDigest e \<or> ClusterUID (Identity base) \<noteq> BaseClusterUID e
                then Inl BaseDiffers
                else case find (\<lambda>r. digestOf d (EvPath r) \<noteq> Some (EvSHA256 r)) (Evidence e) of
                       Some r \<Rightarrow> Inl (EvidenceChanged (EvPath r))
                     | None \<Rightarrow>
                         bind_res (captureLiveCluster k nodes) (\<lambda>(liveID, notReady).
                           if ClusterUID liveID \<noteq> BaseClusterUID e then Inl OtherCluster else Inr base)))"

definition componentsExecutionScope :: "RunManifest \<Rightarrow> record_error + string list \<times> bool" where
  "componentsExecutionScope m =
     (case Execution m of None \<Rightarrow> Inl NoExecution | Some e \<Rightarrow>
        if Operation e = OperationAdd
        then (if Executed e = [] then Inl NothingExecuted else Inr (Executed e, True))
        else if Operation e = OperationNoop
        then (if ObservedExists e = [] then Inl NothingObserved else Inr (ObservedExists e, False))
        else Inl (BadOperation (Operation e)))"

record loadedVerifyRun =
  LvManifest :: RunManifest
  LvRunID :: string
  LvBaseRunID :: string
  IsExecution :: bool
  LvScope :: "string list"

text \<open>The argument \<open>acceptance\<close>: the level is the one that changes the cluster.\<close>

definition loadComponentsExecutionRun ::
  "disk \<Rightarrow> kube \<Rightarrow> string + nodes \<Rightarrow> bool \<Rightarrow> RunManifest \<Rightarrow> record_error + loadedVerifyRun" where
  "loadComponentsExecutionRun d k nodes acceptance m =
     (case ValidateComponentsExecutionShape m of Some err \<Rightarrow> Inl err | None \<Rightarrow>
        if RunResult m \<noteq> ResultSucceeded then Inl (NotSucceeded (RunResult m))
        else bind_res (ValidateComponentsExecutionBase d k nodes m) (\<lambda>base.
             bind_res (componentsExecutionScope m) (\<lambda>(scope, allowsMutation).
               if \<not> allowsMutation \<and> acceptance then Inl ReadOnlyRecord
               else Inr \<lparr>LvManifest = m, LvRunID = RunID m, LvBaseRunID = RunID base, IsExecution = True,
                         LvScope = scope\<rparr>)))"

definition loadVerifyRunRecord ::
  "disk \<Rightarrow> kube \<Rightarrow> string + nodes \<Rightarrow> bool \<Rightarrow> string \<Rightarrow> string \<Rightarrow> record_error + loadedVerifyRun" where
  "loadVerifyRunRecord d k nodes acceptance runFile stateFile =
     (case recordAt d runFile of None \<Rightarrow> Inl (Unreadable runFile) | Some m \<Rightarrow>
        if Execution m \<noteq> None \<and> RecordKind m = RecordKindInstallSuccess then Inl CarriesExecution
        else if RecordKind m = RecordKindComponentsExecution then loadComponentsExecutionRun d k nodes acceptance m
        else bind_res (readState d runFile stateFile) (\<lambda>state.
               case ValidateSuccessRecord m state of Some err \<Rightarrow> Inl err | None \<Rightarrow>
                 Inr \<lparr>LvManifest = m, LvRunID = RunID m, LvBaseRunID = RunID m, IsExecution = False, LvScope = []\<rparr>))"

text \<open>\<open>ownsHost\<close>: this host owns the installer's address (\<^verbatim>\<open>verifyExecutionHostAddress\<close>).\<close>

definition bindVerifyTarget ::
  "kube \<Rightarrow> string + nodes \<Rightarrow> bool \<Rightarrow> bool \<Rightarrow> loadedVerifyRun \<Rightarrow> record_error option" where
  "bindVerifyTarget k nodes ownsHost acceptance l =
     (let want = (if IsExecution l
                  then (case Execution (LvManifest l) of None \<Rightarrow> [] | Some e \<Rightarrow> BaseClusterUID e)
                  else ClusterUID (Identity (LvManifest l)))
      in if TrimSpace want = [] then Some Unbound
         else case captureLiveCluster k nodes of
                Inl err \<Rightarrow> Some err
              | Inr (liveID, notReady) \<Rightarrow>
                  if ClusterUID liveID \<noteq> want then Some OtherCluster
                  else if acceptance \<and> \<not> ownsHost then Some OtherHost else None)"

text \<open>
  The beginning of \<^verbatim>\<open>RunVerify\<close>: the record is loaded and bound to the cluster and the host. The
  cluster answers both reads alike.
\<close>

definition openVerifyRun ::
  "disk \<Rightarrow> kube \<Rightarrow> string + nodes \<Rightarrow> bool \<Rightarrow> bool \<Rightarrow> string \<Rightarrow> string \<Rightarrow> record_error + loadedVerifyRun" where
  "openVerifyRun d k nodes ownsHost acceptance runFile stateFile =
     bind_res (loadVerifyRunRecord d k nodes acceptance runFile stateFile) (\<lambda>l.
       case bindVerifyTarget k nodes ownsHost acceptance l of Some err \<Rightarrow> Inl err | None \<Rightarrow> Inr l)"

subsection \<open>An execution\<close>

text \<open>
  What an execution is given and what happens to it: the site configuration and its digest, the
  digest of the package's materials lock and of the binary that runs, the cluster before and after
  the playbook, whether the playbook succeeds, and the aggregated connections file, if it could be
  written.
\<close>

record execution =
  ExConfig :: ClusterConfig
  ExArtifact :: artifact
  ExDigest :: string
  ExLock :: string
  ExBinary :: string
  ExBefore :: kube
  ExAfter :: kube
  ExNodes :: "string + nodes"
  ExPlaybook :: bool
  ExConnections :: "string option"
  ExPlanFile :: string
  ExReportFile :: string
  ExStateFile :: string

definition sha256FileHex :: "disk \<Rightarrow> string \<Rightarrow> string" where
  "sha256FileHex d path = (case digestOf d path of None \<Rightarrow> [] | Some h \<Rightarrow> h)"

definition evidenceOf :: "disk \<Rightarrow> string \<Rightarrow> string \<Rightarrow> EvidenceRef" where
  "evidenceOf d kind path = \<lparr>EvKind = kind, EvPath = path, EvSHA256 = sha256FileHex d path, EvRunID = []\<rparr>"

definition runStatuses :: "string \<Rightarrow> string list \<Rightarrow> string list \<Rightarrow> string gomap" where
  "runStatuses status executed already =
     rev (map (\<lambda>n. (n, status)) executed @ map (\<lambda>n. (n, rowInstalled)) already)"

text \<open>
  How a run ends: an error before the cluster was changed, a run that failed afterwards with the
  record it leaves, a run that succeeded but whose record could not be written, or a success and
  its record.
\<close>

datatype run_end = Refused record_error | Failed record_error "record_error + RunManifest"
  | Unrecorded record_error | Done RunManifest

definition landed :: "record_error + RunManifest \<Rightarrow> run_end" where
  "landed r = (case r of Inl e \<Rightarrow> Unrecorded e | Inr m \<Rightarrow> Done m)"

text \<open>
  \<^verbatim>\<open>RunComponentsExecute\<close> for the base run that the plan names: first the checks, from the plan to
  the digest of the binary, then the run. In between it also checks that it runs on the installer's
  host, takes the lock of the product and writes its own files, and may refuse for these too.
\<close>

definition checkedExecution ::
  "disk \<Rightarrow> execution \<Rightarrow> ComponentsPlan \<Rightarrow>
     record_error + (RunManifest \<times> ManifestIdentity) \<times> (string list \<times> string list)" where
  "checkedExecution d x plan =
     (case validateComponentsPlan (PlComponents plan) of Some e \<Rightarrow> Inl (PlanRefused e) | None \<Rightarrow>
      if ExDigest x \<noteq> PlNewConfigDigest plan then Inl ConfigDiffers
      else if CfgName (ExConfig x) \<noteq> PlClusterName plan then Inl OtherCluster
      else bind_res (loadBaseRunRecord d (PlBaseRunFile plan) (ExStateFile x)) (\<lambda>base.
           bind_res (captureLiveCluster (ExBefore x) (ExNodes x)) (\<lambda>(liveID, notReady).
             case requireBaseIdentity base liveID notReady of Some e \<Rightarrow> Inl e | None \<Rightarrow>
               if ClusterUID liveID \<noteq> PlBaseClusterUID plan then Inl OtherCluster
               else case executeRows (ExArtifact x) (ExBefore x) (ExConfig x)
                           (MaterialsLockDigest (Identity base)) (ExLock x) (PlComponents plan) of
                      Inl e \<Rightarrow> Inl (PlanRefused e)
                    | Inr rows \<Rightarrow>
                        if ExBinary x \<noteq> PlKKBinaryDigest plan then Inl OtherBinary
                        else Inr ((base, liveID), rows))))"

definition runEvidence :: "disk \<Rightarrow> execution \<Rightarrow> string \<Rightarrow> EvidenceRef list" where
  "runEvidence d x connections =
     [evidenceOf d EvidencePlan (ExPlanFile x), evidenceOf d EvidenceExecuteReport (ExReportFile x)] @
     (if connections = [] then [] else [evidenceOf d ''connections'' connections])"

definition RunComponentsExecute ::
  "build \<Rightarrow> disk \<Rightarrow> earlier \<Rightarrow> execution \<Rightarrow> ComponentsPlan \<Rightarrow> run_end" where
  "RunComponentsExecute b d es x plan =
     (case checkedExecution d x plan of
        Inl e \<Rightarrow> Refused e
      | Inr ((base, liveID), (executed, already)) \<Rightarrow>
          (let record = (\<lambda>op result status connections.
                 recordComponentsExecution b (digestOf d) es (ExAfter x) base plan liveID (ExLock x) op result
                   (runStatuses status executed already) (runEvidence d x connections))
           in if executed = [] \<and> already \<noteq> []
              then landed (record OperationNoop ResultSucceeded TargetExecuted [])
              else if executed = [] then Refused NothingExecuted
              else if \<not> ExPlaybook x
              then Failed PlaybookFailed (record OperationAdd ResultFailed TargetFailed [])
              else case ExConnections x of
                     None \<Rightarrow> Failed NoConnections (record OperationAdd ResultFailed TargetFailed [])
                   | Some f \<Rightarrow> landed (record OperationAdd ResultSucceeded TargetExecuted f)))"

subsection \<open>What the checks of a record mean\<close>

lemma target_statuses [simp]:
  "TargetExecuted \<noteq> rowInstalled" "rowInstalled \<noteq> TargetExecuted" "TargetUnknown \<noteq> TargetExecuted"
  "TargetUnknown \<noteq> rowInstalled" "TargetFailed \<noteq> TargetExecuted" "TargetFailed \<noteq> rowInstalled"
  by (simp_all add: TargetExecuted_def rowInstalled_def TargetUnknown_def TargetFailed_def)

lemma operations [simp]: "OperationAdd \<noteq> OperationNoop" "OperationNoop \<noteq> OperationAdd"
  by (simp_all add: OperationAdd_def OperationNoop_def)

lemma results [simp]: "ResultFailed \<noteq> ResultSucceeded" "ResultSucceeded \<noteq> ResultFailed"
  by (simp_all add: ResultFailed_def ResultSucceeded_def)

lemma record_kinds [simp]:
  "RecordKindComponentsExecution \<noteq> RecordKindInstallSuccess" "RecordKindInstallSuccess \<noteq> RecordKindComponentsExecution"
  by (simp_all add: RecordKindComponentsExecution_def RecordKindInstallSuccess_def)

lemma isHex64_nonempty [simp]: "\<not> isHex64 []"
  by (simp add: isHex64_def)

lemma single_element:
  assumes "s \<noteq> []" "CHR ''/'' \<notin> set s"
  shows "Base s = s"
proof -
  have "TrimRight (CHR ''/'') s = s"
    using assms(2) by (cases s rule: rev_cases) (auto simp: TrimRight_def)
  then show ?thesis using assms by (simp add: Base_def)
qed

lemma safe_singleElement: "safeDirName s \<Longrightarrow> singleElement s \<and> s \<noteq> []"
  by (simp add: safeDirName_def singleElement_def single_element)

lemma canonical_safe:
  assumes "canonical x"
  shows "safeDirName x"
proof -
  have "\<forall>x\<in>set (keys componentInstallSpecs). safeDirName x"
    by (simp add: componentInstallSpecs_def safeDirName_def)
  moreover have "x \<in> set (keys componentInstallSpecs)"
    using assms by (metis domIff dom_map_of_conv_image_fst set_map)
  ultimately show ?thesis by blast
qed

definition wellFormedTarget :: "ExecutionTarget \<Rightarrow> bool" where
  "wellFormedTarget t \<longleftrightarrow>
     TgComponent t \<noteq> [] \<and> singleElement (TgComponent t) \<and>
     TgStatus t \<in> {TargetExecuted, rowInstalled, TargetFailed, TargetCancelled, TargetUnknown} \<and>
     TgNamespace t \<noteq> [] \<and> TgKind t \<noteq> [] \<and> TgName t \<noteq> [] \<and>
     (TgStatus t \<in> {TargetExecuted, rowInstalled} \<longrightarrow> TgUID t \<noteq> [])"

lemma checkTargets_None:
  "checkTargets ts seen = None \<longleftrightarrow>
     distinct (map TgComponent ts) \<and> set (map TgComponent ts) \<inter> set seen = {} \<and> (\<forall>t\<in>set ts. wellFormedTarget t)"
  by (induction ts arbitrary: seen) (auto simp: wellFormedTarget_def)

lemma statusOf_target:
  assumes "distinct (map TgComponent ts)" "t \<in> set ts"
  shows "statusOf ts (TgComponent t) = TgStatus t"
proof -
  let ?m = "rev (map (\<lambda>t. (TgComponent t, TgStatus t)) ts)"
  have "distinct (map fst ?m)" using assms(1) by (simp add: rev_map [symmetric] comp_def)
  moreover have "(TgComponent t, TgStatus t) \<in> set ?m" using assms(2) by auto
  ultimately show ?thesis by (simp add: statusOf_def)
qed

lemma checkNames_None:
  "checkNames ts recorded kind names named = None \<longleftrightarrow>
     distinct names \<and> set names \<inter> set named = {} \<and> set names \<subseteq> set recorded \<and>
     (\<forall>n\<in>set names. singleElement n \<and> statusOf ts n = kind)"
  by (induction names arbitrary: named) auto

lemma statusOf_known: "statusOf ts n = kind \<Longrightarrow> kind \<noteq> [] \<Longrightarrow> n \<in> TgComponent ` set ts"
  by (force simp: statusOf_def dest!: map_of_SomeD split: option.splits)

text \<open>An accepted scope list names the targets of its kind, each once.\<close>

lemma checkScopeList_sound:
  assumes "checkScopeList ts recorded (kind, names) = None" "distinct (map TgComponent ts)" "kind \<noteq> []"
  shows "distinct names \<and> set names \<subseteq> set recorded \<and> set names = set (namesWith kind ts)"
proof -
  have names: "checkNames ts recorded kind names [] = None"
      "\<forall>t\<in>set ts. statusOf ts (TgComponent t) = kind \<longrightarrow> TgComponent t \<in> set names"
    using assms(1) by (auto simp: checkScopeList_def find_None_iff split: option.splits)
  then have "\<forall>n\<in>set names. statusOf ts n = kind" by (simp add: checkNames_None)
  moreover have "n \<in> set (namesWith kind ts)" if n: "statusOf ts n = kind" for n
  proof -
    obtain t where "t \<in> set ts" "TgComponent t = n" using statusOf_known [OF n assms(3)] by auto
    then show ?thesis using n statusOf_target [OF assms(2)] by (auto simp: namesWith_def)
  qed
  moreover have "set (namesWith kind ts) \<subseteq> set names"
    using names(2) statusOf_target [OF assms(2)] by (auto simp: namesWith_def)
  ultimately show ?thesis using names(1) by (auto simp: checkNames_None)
qed

lemma namesWith_distinct: "distinct (map TgComponent ts) \<Longrightarrow> distinct (namesWith kind ts)"
  by (simp add: namesWith_def distinct_map_filter)

lemma checkScopeList_complete:
  assumes "distinct (map TgComponent ts)" "\<forall>t\<in>set ts. singleElement (TgComponent t)"
    "set (namesWith kind ts) \<subseteq> set recorded"
  shows "checkScopeList ts recorded (kind, namesWith kind ts) = None"
proof -
  have "statusOf ts n = kind \<and> singleElement n" if "n \<in> set (namesWith kind ts)" for n
    using that assms(2) statusOf_target [OF assms(1)] by (auto simp: namesWith_def)
  then have "checkNames ts recorded kind (namesWith kind ts) [] = None"
    using assms(3) namesWith_distinct [OF assms(1)] by (simp add: checkNames_None)
  moreover have "find (\<lambda>t. statusOf ts (TgComponent t) = kind \<and> TgComponent t \<notin> set (namesWith kind ts)) ts = None"
    using statusOf_target [OF assms(1)] by (auto simp: find_None_iff namesWith_def)
  ultimately show ?thesis by (simp add: checkScopeList_def)
qed

subsection \<open>A written record has the shape that a reader demands\<close>

definition writtenExecution ::
  "string \<Rightarrow> RunManifest \<Rightarrow> ComponentsPlan \<Rightarrow> string \<Rightarrow> ExecutionTarget list \<Rightarrow> EvidenceRef list \<Rightarrow> ComponentsExecution" where
  "writtenExecution dg base plan op ts evidence =
     \<lparr>Operation = op, DidInstall = (op = OperationAdd), RequestedScope = map TgComponent ts,
      Executed = namesWith TargetExecuted ts, ObservedExists = namesWith rowInstalled ts, BaseRunID = RunID base,
      BaseRecordFile = PlBaseRunFile plan, BaseRecordSHA256 = dg, BaseClusterUID = ClusterUID (Identity base),
      BaseConfigDigest = ConfigDigest base, Targets = ts, Evidence = evidence\<rparr>"

definition writtenIdentity :: "build \<Rightarrow> ComponentsPlan \<Rightarrow> ManifestIdentity \<Rightarrow> string \<Rightarrow> ManifestIdentity" where
  "writtenIdentity b plan liveID lockDigest =
     \<lparr>SourceTreeFingerprint = treeFingerprintForRecord b, CodeCommit = commitForRecord b,
      CodeBinaryDigest = PlKKBinaryDigest plan, SiteConfigDigest = PlNewConfigDigest plan,
      MaterialsLockDigest = lockDigest, ClusterUID = ClusterUID liveID, NodeCount = NodeCount liveID,
      ReadyNodes = ReadyNodes liveID\<rparr>"

lemma manifest_written:
  assumes "NewComponentsExecutionManifest b sha base plan liveID lockDigest op0 result ts evidence = Inr m"
  defines "op \<equiv> effectiveOperation op0 result ts"
  shows "\<exists>dg. sha (PlBaseRunFile plan) = Some dg \<and> m =
      \<lparr>SchemaVersion = RunManifestSchemaVersion, RecordKind = RecordKindComponentsExecution,
       RunID = PlRunID plan, RmClusterName = PlClusterName plan, RunResult = result,
       ConfigDigest = PlNewConfigDigest plan, Identity = writtenIdentity b plan liveID lockDigest,
       RmComponents = namesWith TargetExecuted ts @ namesWith rowInstalled ts,
       Execution = Some (writtenExecution dg base plan op ts evidence)\<rparr>" (is ?written)
    and "RunID base \<noteq> []" "ClusterUID (Identity base) \<noteq> []" "ClusterUID liveID = ClusterUID (Identity base)"
      "op = OperationAdd \<or> op = OperationNoop" "op = OperationAdd \<longrightarrow> PlNewConfigDigest plan \<noteq> ConfigDigest base"
      "op = OperationAdd \<and> result = ResultSucceeded \<longrightarrow> namesWith TargetExecuted ts \<noteq> []"
      "op = OperationNoop \<longrightarrow> namesWith TargetExecuted ts = []"
      "op = OperationNoop \<and> result = ResultSucceeded \<longrightarrow> namesWith rowInstalled ts \<noteq> []"
    and "\<forall>t\<in>set ts. TgNamespace t \<noteq> [] \<and> TgKind t \<noteq> [] \<and> TgName t \<noteq> [] \<and>
      (TgStatus t \<in> {TargetExecuted, rowInstalled} \<longrightarrow> TgUID t \<noteq> [])"
proof -
  note run = assms(1) [unfolded NewComponentsExecutionManifest_def Let_def, folded op_def]
  show ?written
    using run unfolding writtenExecution_def writtenIdentity_def by (force split: if_splits option.splits)
  show "RunID base \<noteq> []" "ClusterUID (Identity base) \<noteq> []" "ClusterUID liveID = ClusterUID (Identity base)"
      "op = OperationAdd \<longrightarrow> PlNewConfigDigest plan \<noteq> ConfigDigest base"
      "op = OperationAdd \<and> result = ResultSucceeded \<longrightarrow> namesWith TargetExecuted ts \<noteq> []"
      "op = OperationNoop \<longrightarrow> namesWith TargetExecuted ts = []"
      "op = OperationNoop \<and> result = ResultSucceeded \<longrightarrow> namesWith rowInstalled ts \<noteq> []"
    using run by (auto split: if_splits option.splits)
  show "op = OperationAdd \<or> op = OperationNoop"
    using run by (auto simp: op_def effectiveOperation_def split: if_splits)
  show "\<forall>t\<in>set ts. TgNamespace t \<noteq> [] \<and> TgKind t \<noteq> [] \<and> TgName t \<noteq> [] \<and>
      (TgStatus t \<in> {TargetExecuted, rowInstalled} \<longrightarrow> TgUID t \<noteq> [])"
    using run by (auto simp: find_None_iff split: if_splits option.splits)
qed

definition wellBuilt :: "build \<Rightarrow> bool" where
  "wellBuilt b \<longleftrightarrow> (TrimSpace (BuildTree b) = [] \<or> isHex64 (BuildTree b)) \<and>
     (TrimSpace (BuildCommit b) = [] \<or> isGitCommit (TrimSpace (BuildCommit b)))"

lemma wellBuilt_identity:
  assumes "wellBuilt b" "isHex64 (PlKKBinaryDigest plan)" "isHex64 lockDigest"
  shows "checkExecutionIdentity (m\<lparr>Identity := writtenIdentity b plan liveID lockDigest\<rparr>) = None"
  using assms by (auto simp: checkExecutionIdentity_def writtenIdentity_def wellBuilt_def treeFingerprintForRecord_def
      commitForRecord_def notEmbeddedIdentity_def)

text \<open>
  The targets decide: with targets of distinct, safe names and legal states and with whole evidence, a
  written record has the demanded shape exactly when it does not claim success over an unsettled target.
\<close>

definition settled :: "ExecutionTarget list \<Rightarrow> bool" where
  "settled ts \<longleftrightarrow> (\<forall>t\<in>set ts. TgStatus t \<in> {TargetExecuted, rowInstalled})"

definition wholeEvidence :: "EvidenceRef list \<Rightarrow> bool" where
  "wholeEvidence evidence \<longleftrightarrow>
     (\<forall>r\<in>set evidence. EvPath r \<noteq> [] \<and> isHex64 (EvSHA256 r)) \<and>
     {EvidencePlan, EvidenceExecuteReport} \<subseteq> EvKind ` set evidence"

lemma find_None_all: "find P xs = None \<longleftrightarrow> (\<forall>x\<in>set xs. \<not> P x)"
  by (auto simp: find_None_iff)

lemma checkOutcome_None:
  "checkOutcome m e = None \<longleftrightarrow>
     (Operation e = OperationAdd \<and> RunResult m = ResultSucceeded \<longrightarrow> namesWith TargetExecuted (Targets e) \<noteq> []) \<and>
     (Operation e = OperationNoop \<longrightarrow> namesWith TargetExecuted (Targets e) = []) \<and>
     (Operation e = OperationNoop \<and> RunResult m = ResultSucceeded \<longrightarrow> namesWith rowInstalled (Targets e) \<noteq> []) \<and>
     (RunResult m = ResultSucceeded \<longrightarrow> settled (Targets e)) \<and> RequestedScope e \<noteq> [] \<and>
     (\<forall>r\<in>set (Evidence e). EvPath r \<noteq> [] \<and> isHex64 (EvSHA256 r)) \<and>
     (RunResult m = ResultSucceeded \<longrightarrow> {EvidencePlan, EvidenceExecuteReport} \<subseteq> EvKind ` set (Evidence e))"
proof -
  let ?bad = "find (\<lambda>t. TgStatus t \<notin> {TargetExecuted, rowInstalled}) (Targets e)"
  let ?ev = "find (\<lambda>r. EvPath r = [] \<or> \<not> isHex64 (EvSHA256 r)) (Evidence e)"
  let ?kind = "find (\<lambda>kind. kind \<notin> EvKind ` set (Evidence e)) [EvidencePlan, EvidenceExecuteReport]"
  have "?bad = None \<longleftrightarrow> settled (Targets e)" unfolding find_None_all settled_def by simp
  moreover have "?ev = None \<longleftrightarrow> (\<forall>r\<in>set (Evidence e). EvPath r \<noteq> [] \<and> isHex64 (EvSHA256 r))"
    unfolding find_None_all by simp
  moreover have "?kind = None \<longleftrightarrow> {EvidencePlan, EvidenceExecuteReport} \<subseteq> EvKind ` set (Evidence e)"
    unfolding find_None_all by simp
  ultimately show ?thesis
    unfolding checkOutcome_def Let_def
    by (cases ?bad; cases ?ev; cases ?kind; cases "RunResult m = ResultSucceeded") simp_all
qed

lemma manifest_shape:
  assumes written: "NewComponentsExecutionManifest b sha base plan liveID lockDigest op0 result ts evidence = Inr m"
    and plan: "safeDirName (PlRunID plan)" "safeDirName (PlClusterName plan)" "isHex64 (PlNewConfigDigest plan)"
      "isHex64 (PlKKBinaryDigest plan)" "isHex64 lockDigest" "isHex64 (ConfigDigest base)"
    and sha: "\<forall>p h. sha p = Some h \<longrightarrow> isHex64 h" and built: "wellBuilt b"
    and ts: "ts \<noteq> []" "distinct (map TgComponent ts)"
      "\<forall>t\<in>set ts. safeDirName (TgComponent t) \<and>
        TgStatus t \<in> {TargetExecuted, rowInstalled, TargetFailed, TargetCancelled, TargetUnknown}"
    and ev: "wholeEvidence evidence"
  shows "(ValidateComponentsExecutionShape m = None) = (result = ResultSucceeded \<longrightarrow> settled ts)"
proof -
  note facts = manifest_written [OF written]
  obtain dg where dg: "sha (PlBaseRunFile plan) = Some dg"
    and m: "m = \<lparr>SchemaVersion = RunManifestSchemaVersion, RecordKind = RecordKindComponentsExecution,
       RunID = PlRunID plan, RmClusterName = PlClusterName plan, RunResult = result,
       ConfigDigest = PlNewConfigDigest plan, Identity = writtenIdentity b plan liveID lockDigest,
       RmComponents = namesWith TargetExecuted ts @ namesWith rowInstalled ts,
       Execution = Some (writtenExecution dg base plan (effectiveOperation op0 result ts) ts evidence)\<rparr>"
    using facts(1) by blast
  let ?e = "writtenExecution dg base plan (effectiveOperation op0 result ts) ts evidence"
  have safe: "singleElement (TgComponent t) \<and> TgComponent t \<noteq> []" if "t \<in> set ts" for t
    using ts(3) that safe_singleElement by blast
  have targets: "checkTargets ts [] = None"
    using ts facts(10) safe by (auto simp: checkTargets_None wellFormedTarget_def)
  have scope: "checkScopeList ts (RmComponents m) (kind, namesWith kind ts) = None"
    if "kind \<in> {TargetExecuted, rowInstalled}" for kind
    using that checkScopeList_complete [OF ts(2), of kind "RmComponents m"] safe by (auto simp: m)
  have ident: "checkExecutionIdentity m = None"
    using wellBuilt_identity [OF built plan(4,5), of liveID m] by (simp add: m)
  have outcome: "(checkOutcome m ?e = None) = (result = ResultSucceeded \<longrightarrow> settled ts)"
    using ev ts(1) facts(7-9) unfolding checkOutcome_None wholeEvidence_def
    by (simp add: m writtenExecution_def) blast
  have "effectiveOperation op0 result ts = OperationAdd \<longrightarrow> ConfigDigest base \<noteq> PlNewConfigDigest plan"
    using facts(6) by auto
  then have "ValidateComponentsExecutionShape m = checkOutcome m ?e"
    using safe_singleElement [OF plan(1)] safe_singleElement [OF plan(2)] plan(3,6) dg sha ident targets ts(1)
      scope [of TargetExecuted] scope [of rowInstalled] facts(2-5)
    by (simp add: ValidateComponentsExecutionShape_def m writtenExecution_def) blast
  then show ?thesis using outcome by simp
qed

subsection \<open>What a run leaves is what verification accepts\<close>

lemma checkedExecution_Inr:
  assumes "checkedExecution d x plan = Inr ((base, liveID), (executed, already))"
  shows "loadBaseRunRecord d (PlBaseRunFile plan) (ExStateFile x) = Inr base"
    "\<exists>notReady. captureLiveCluster (ExBefore x) (ExNodes x) = Inr (liveID, notReady) \<and>
       requireBaseIdentity base liveID notReady = None"
    "ClusterUID liveID = PlBaseClusterUID plan"
    "executeRows (ExArtifact x) (ExBefore x) (ExConfig x) (MaterialsLockDigest (Identity base)) (ExLock x)
       (PlComponents plan) = Inr (executed, already)"
    "ExDigest x = PlNewConfigDigest plan" "ExBinary x = PlKKBinaryDigest plan"
  using assms
  by (auto simp: checkedExecution_def bind_res_Inr_conv split: option.splits sum.splits if_splits)

lemma RunComponentsExecute_Done:
  assumes "RunComponentsExecute b d es x plan = Done m"
  obtains base liveID executed already connections
  where "checkedExecution d x plan = Inr ((base, liveID), (executed, already))"
    "connections \<noteq> [] \<longrightarrow> ExConnections x = Some connections"
    "recordComponentsExecution b (digestOf d) es (ExAfter x) base plan liveID (ExLock x)
       (if executed = [] then OperationNoop else OperationAdd) ResultSucceeded
       (runStatuses TargetExecuted executed already) (runEvidence d x connections) = Inr m"
    "executed = [] \<longrightarrow> already \<noteq> []"
proof -
  obtain base liveID executed already where c: "checkedExecution d x plan = Inr ((base, liveID), (executed, already))"
    using assms by (auto simp: RunComponentsExecute_def split: sum.splits)
  show ?thesis
  proof (cases "executed = []")
    case True
    then show ?thesis
      using assms c that [OF c, of "[]"] by (auto simp: RunComponentsExecute_def landed_def split: if_splits sum.splits)
  next
    case False
    then obtain f where f: "ExConnections x = Some f"
      using assms c by (auto simp: RunComponentsExecute_def split: if_splits option.splits)
    show ?thesis
      using False assms c f that [OF c, of f]
      by (auto simp: RunComponentsExecute_def landed_def split: if_splits sum.splits)
  qed
qed

lemma runStatuses_get:
  assumes "distinct (executed @ already)"
  shows "n \<in> set executed \<Longrightarrow> get (runStatuses s executed already) n = Some s"
    and "n \<in> set already \<Longrightarrow> get (runStatuses s executed already) n = Some rowInstalled"
proof -
  let ?m = "runStatuses s executed already"
  have d: "distinct (map fst ?m)" using assms by (auto simp: runStatuses_def rev_map [symmetric] comp_def)
  show "n \<in> set executed \<Longrightarrow> get ?m n = Some s"
    using d by (intro map_of_is_SomeI) (auto simp: runStatuses_def image_iff)
  show "n \<in> set already \<Longrightarrow> get ?m n = Some rowInstalled"
    using d by (intro map_of_is_SomeI) (auto simp: runStatuses_def image_iff)
qed

lemma executeRows_rows:
  assumes "executeRows a k c want lock rows = Inr (executed, already)"
  shows "executed = plannedNames rows" "already = alreadyInstalledNames rows" "rows \<noteq> []"
    "distinct (map PcComponent rows)" "\<forall>r\<in>set rows. PcStatus r = rowPlanned \<or> PcStatus r = rowInstalled"
    "\<forall>r\<in>set rows. canonical (PcComponent r)" "distinct (executed @ already)" "want = [] \<or> lock = want"
proof -
  obtain full where run: "validateComponentsPlan rows = None"
      "validatePlanClosure c rows (plannedNames rows) = Inr full" "lockRefusal want lock = None"
      "executed = plannedNames rows" "already = alreadyInstalledNames rows"
    using executeRows_Inr [OF assms] by metis
  note rows = closure_rows [OF run(1, 2)]
  show "distinct (map PcComponent rows)" "\<forall>r\<in>set rows. PcStatus r = rowPlanned \<or> PcStatus r = rowInstalled"
    "rows \<noteq> []" by (rule rows)+
  show "executed = plannedNames rows" "already = alreadyInstalledNames rows" using run by simp_all
  show "distinct (executed @ already)" using legal_rows_distinct [OF rows(1)] run by simp
  show "\<forall>r\<in>set rows. canonical (PcComponent r)" using rows(6, 7) by auto
  show "want = [] \<or> lock = want" using run(3) by (simp add: lockRefusal_eq split: if_splits)
qed

text \<open>Every object that the plan's components stand for has a uid that can be read.\<close>

definition ownersReadable :: "kube \<Rightarrow> ComponentsPlan \<Rightarrow> bool" where
  "ownersReadable k plan \<longleftrightarrow> (\<forall>p\<in>set (PlComponents plan). TgUID (recordTarget k [] p) \<noteq> [])"

lemma recordTarget_simps [simp]:
  "TgComponent (recordTarget k statuses p) = PcComponent p"
  "TgUID (recordTarget k (s # statuses) p) = TgUID (recordTarget k [] p)"
  by (simp_all add: recordTarget_def Let_def)

lemma recordTarget_status:
  assumes "get statuses (PcComponent p) = Some s"
  shows "TgUID (recordTarget k statuses p) = TgUID (recordTarget k [] p)"
    "TgStatus (recordTarget k statuses p) =
       (if s \<in> {TargetExecuted, rowInstalled} \<and> TgUID (recordTarget k [] p) = [] then TargetUnknown else s)"
  using assms by (simp_all add: recordTarget_def Let_def)

lemma namesWith_rows:
  assumes "\<forall>p\<in>set rows. TgStatus (f p) = (if PcStatus p = rowPlanned then TargetExecuted else rowInstalled) \<and>
      TgComponent (f p) = PcComponent p \<and> (PcStatus p = rowPlanned \<or> PcStatus p = rowInstalled)"
  shows "namesWith TargetExecuted (map f rows) = plannedNames rows"
    "namesWith rowInstalled (map f rows) = alreadyInstalledNames rows"
  using assms by (induction rows) (auto simp: namesWith_def plannedNames_def alreadyInstalledNames_def)

lemma run_targets:
  fixes k :: kube
  assumes rows: "executeRows a0 k0 c want lock (PlComponents plan) = Inr (executed, already)"
    and s: "s = TargetExecuted \<or> s = TargetFailed"
  defines "ts \<equiv> componentsRecordTargets k plan (runStatuses s executed already)"
  shows "map TgComponent ts = map PcComponent (PlComponents plan)" "ts \<noteq> []" "distinct (map TgComponent ts)"
    "\<forall>t\<in>set ts. safeDirName (TgComponent t) \<and>
       TgStatus t \<in> {TargetExecuted, rowInstalled, TargetFailed, TargetCancelled, TargetUnknown}"
    "s = TargetExecuted \<Longrightarrow> settled ts \<longleftrightarrow> ownersReadable k plan"
    "s = TargetExecuted \<Longrightarrow> ownersReadable k plan \<Longrightarrow>
       namesWith TargetExecuted ts = executed \<and> namesWith rowInstalled ts = already"
proof -
  note facts = executeRows_rows [OF rows]
  let ?st = "runStatuses s executed already" and ?rows = "PlComponents plan"
  let ?f = "recordTarget k ?st"
  have ts: "ts = map ?f ?rows" by (simp add: ts_def componentsRecordTargets_def)
  show names: "map TgComponent ts = map PcComponent ?rows" by (simp add: ts)
  show "ts \<noteq> []" using facts(3) by (simp add: ts)
  show "distinct (map TgComponent ts)" using facts(4) names by simp
  have st: "get ?st (PcComponent p) = Some (if PcStatus p = rowPlanned then s else rowInstalled)" if "p \<in> set ?rows" for p
  proof (cases "PcStatus p = rowPlanned")
    case True
    then have "PcComponent p \<in> set executed" using that by (auto simp: facts(1) plannedNames_def)
    then show ?thesis using runStatuses_get(1) [OF facts(7)] True by simp
  next
    case False
    then have "PcComponent p \<in> set already" using that facts(5) by (auto simp: facts(2) alreadyInstalledNames_def)
    then show ?thesis using runStatuses_get(2) [OF facts(7)] False by simp
  qed
  have status: "TgStatus (?f p) =
      (let s' = if PcStatus p = rowPlanned then s else rowInstalled
       in if s' \<in> {TargetExecuted, rowInstalled} \<and> TgUID (recordTarget k [] p) = [] then TargetUnknown else s')"
    if "p \<in> set ?rows" for p
    using recordTarget_status(2) [OF st [OF that], of k] by (simp add: Let_def)
  show "\<forall>t\<in>set ts. safeDirName (TgComponent t) \<and>
       TgStatus t \<in> {TargetExecuted, rowInstalled, TargetFailed, TargetCancelled, TargetUnknown}"
    using canonical_safe facts(6) status s by (auto simp: ts Let_def)
  show "settled ts \<longleftrightarrow> ownersReadable k plan" if "s = TargetExecuted"
    using status that by (auto simp: ts settled_def ownersReadable_def Let_def)
  show "namesWith TargetExecuted ts = executed \<and> namesWith rowInstalled ts = already"
    if "s = TargetExecuted" "ownersReadable k plan"
    using namesWith_rows [of ?rows ?f] status that facts(5) unfolding ts facts(1,2)
    by (simp add: ownersReadable_def Let_def)
qed

lemma wholeEvidence_run:
  assumes "\<forall>p h. digestOf d p = Some h \<longrightarrow> isHex64 h"
    "\<forall>f\<in>{ExPlanFile x, ExReportFile x} \<union> set_option (ExConnections x). f \<noteq> [] \<longrightarrow> digestOf d f \<noteq> None"
    "ExPlanFile x \<noteq> []" "ExReportFile x \<noteq> []" "connections \<noteq> [] \<longrightarrow> ExConnections x = Some connections"
    "\<forall>r\<in>set prior. EvPath r \<noteq> [] \<and> digestOf d (EvPath r) = Some (EvSHA256 r)"
  shows "wholeEvidence (runEvidence d x connections @ prior)"
    "\<forall>r\<in>set (runEvidence d x connections @ prior). digestOf d (EvPath r) = Some (EvSHA256 r)"
proof -
  have *: "digestOf d f = Some (sha256FileHex d f)" if "digestOf d f \<noteq> None" for f
    using that by (auto simp: sha256FileHex_def)
  show good: "\<forall>r\<in>set (runEvidence d x connections @ prior). digestOf d (EvPath r) = Some (EvSHA256 r)"
    using assms(2-6) * by (auto simp: runEvidence_def evidenceOf_def)
  have "\<forall>r\<in>set (runEvidence d x connections @ prior). EvPath r \<noteq> []"
    using assms(3,4,6) by (auto simp: runEvidence_def evidenceOf_def)
  then show "wholeEvidence (runEvidence d x connections @ prior)"
    using good assms(1) by (auto simp: wholeEvidence_def runEvidence_def evidenceOf_def)
qed

lemma loadBaseRunRecord_Inr:
  assumes "loadBaseRunRecord d path stateFile = Inr base" "TrimSpace stateFile = []"
  shows "path \<noteq> []" "recordAt d path = Some base"
    "\<exists>state. readState d path [] = Inr state \<and> ValidateSuccessRecord base state = None"
proof -
  have "TrimSpace path \<noteq> []" using assms(1) by (auto simp: loadBaseRunRecord_def split: if_splits)
  then show "path \<noteq> []" by (auto simp: TrimSpace_def)
  show "recordAt d path = Some base" "\<exists>state. readState d path [] = Inr state \<and> ValidateSuccessRecord base state = None"
    using assms by (auto simp: loadBaseRunRecord_def bind_res_Inr_conv split: if_splits option.splits)
qed

lemma ValidateSuccessRecord_None:
  assumes "ValidateSuccessRecord m state = None"
  shows "RecordKind m = RecordKindInstallSuccess" "Execution m = None" "RunResult m = ResultSucceeded"
    "isHex64 (ConfigDigest m)" "ClusterUID (Identity m) \<noteq> []" "isHex64 (MaterialsLockDigest (Identity m))"
    "SiteConfigDigest (Identity m) = ConfigDigest m"
  using assms by (auto simp: ValidateSuccessRecord_def split: if_splits)

text \<open>The record that an install leaves is one that additions and verification accept.\<close>

lemma install_record_valid:
  assumes "BuildInstallSuccessManifest config st identity = Inr m"
    "StResult st = ResultSucceeded" "StPhase st = PhaseSucceeded" "StClusterName st = RmClusterName config"
    "RmClusterName config \<noteq> []" "ConfigDigest config = SiteConfigDigest identity" "Execution config = None"
    "StConfigDigest st = [] \<or> StConfigDigest st = ConfigDigest config" "isHex64 (MaterialsLockDigest identity)"
  shows "ValidateSuccessRecord m (Some st) = None \<and> RunID m = StRunID st"
proof -
  have m: "m = config\<lparr>SchemaVersion := RunManifestSchemaVersion, RecordKind := RecordKindInstallSuccess,
      RunID := StRunID st, RunResult := StResult st, Identity := identity\<rparr>"
    and "isHex64 (SiteConfigDigest identity)" "ClusterUID identity \<noteq> []"
    using assms(1) by (auto simp: BuildInstallSuccessManifest_def split: if_splits)
  moreover have "ConfigDigest config \<noteq> []" using assms(6) calculation(2) by auto
  ultimately show ?thesis using assms(2-9) by (simp add: ValidateSuccessRecord_def)
qed

lemma captureLiveCluster_uid:
  "captureLiveCluster k nodes = Inr (liveID, notReady) \<Longrightarrow> TrimSpace (ClusterUID liveID) = ClusterUID liveID \<and> ClusterUID liveID \<noteq> []"
  by (auto simp: captureLiveCluster_def Let_def split: sum.splits if_splits)

text \<open>The base of a written record is accepted as long as the files it names are as they were.\<close>

lemma base_accepted:
  assumes base: "digestOf d path = Some dg" "recordAt d path = Some base" "path \<noteq> []"
      "readState d path [] = Inr state" "ValidateSuccessRecord base state = None"
    and m: "Execution m = Some (writtenExecution dg base plan op ts evidence)" "PlBaseRunFile plan = path"
      "RmClusterName base = RmClusterName m"
    and ev: "\<forall>r\<in>set evidence. digestOf d (EvPath r) = Some (EvSHA256 r)"
    and live: "captureLiveCluster k nodes = Inr (liveID, notReady)" "ClusterUID liveID = ClusterUID (Identity base)"
  shows "ValidateComponentsExecutionBase d k nodes m = Inr base"
proof -
  have "find (\<lambda>r. digestOf d (EvPath r) \<noteq> Some (EvSHA256 r)) evidence = None"
    using ev unfolding find_None_all by simp
  then show ?thesis
    using assms by (simp add: ValidateComponentsExecutionBase_def writtenExecution_def)
qed

text \<open>The evidence of an earlier record that an observation adds.\<close>

definition priorEvidence :: "earlier \<Rightarrow> ExecutionTarget list \<Rightarrow> EvidenceRef list" where
  "priorEvidence es ts =
     concat (map (\<lambda>t. case findPriorExecutionRecord es (TgComponent t) of None \<Rightarrow> [] | Some r \<Rightarrow> [r]) ts)"

lemma priorEvidence_whole:
  assumes "\<forall>(path, dg, r)\<in>set es. path \<noteq> [] \<and> dg = digest path" "r \<in> set (priorEvidence es ts)"
  shows "EvPath r \<noteq> [] \<and> digest (EvPath r) = Some (EvSHA256 r)"
proof -
  obtain component where r: "findPriorExecutionRecord es component = Some r"
    using assms(2) by (auto simp: priorEvidence_def split: option.splits)
  then obtain path dg m where "find (\<lambda>(path, dg, m). installedBy m component) es = Some (path, dg, m)"
      "dg = Some (EvSHA256 r)" "EvPath r = path"
    by (auto simp: findPriorExecutionRecord_def split: option.splits prod.splits)
  moreover have "(path, dg, m) \<in> set es" using calculation(1) unfolding find_Some_iff by (metis nth_mem)
  ultimately show ?thesis using assms(1) by force
qed

lemma recordComponentsExecution_Inr:
  assumes "recordComponentsExecution b sha es k base plan liveID lockDigest op result statuses evidence = Inr m"
  defines "ts \<equiv> componentsRecordTargets k plan statuses"
  obtains prior where "prior = [] \<or> prior = priorEvidence es ts"
    "NewComponentsExecutionManifest b sha base plan liveID lockDigest op result ts (evidence @ prior) = Inr m"
    "safeDirName (PlClusterName plan)" "safeDirName (PlRunID plan)"
proof
  let ?prior = "if op = OperationNoop then priorEvidence es ts else []"
  show "?prior = [] \<or> ?prior = priorEvidence es ts" by simp
  show "NewComponentsExecutionManifest b sha base plan liveID lockDigest op result ts (evidence @ ?prior) = Inr m"
    and "safeDirName (PlClusterName plan)" "safeDirName (PlRunID plan)"
    using assms(1) unfolding recordComponentsExecution_def Let_def ts_def [symmetric] priorEvidence_def
    by (auto simp: bind_res_Inr_conv split: if_splits)
qed

text \<open>What a successful execution leaves, in terms of what its reader looks at.\<close>

lemma recorded_execution:
  assumes run: "RunComponentsExecute b d es x plan = Done m"
    and digests: "\<forall>p h. digestOf d p = Some h \<longrightarrow> isHex64 h" "isHex64 (ExDigest x)" "isHex64 (ExBinary x)"
    and built: "wellBuilt b"
    and files: "ExPlanFile x \<noteq> []" "ExReportFile x \<noteq> []"
      "\<forall>f\<in>{ExPlanFile x, ExReportFile x} \<union> set_option (ExConnections x). f \<noteq> [] \<longrightarrow> digestOf d f \<noteq> None"
    and earlier: "\<forall>(path, dg, r)\<in>set es. path \<noteq> [] \<and> dg = digestOf d path"
    and state: "TrimSpace (ExStateFile x) = []"
    and base: "recordAt d (PlBaseRunFile plan) = Some base"
  obtains dg op ts ev st where
    "ValidateComponentsExecutionShape m = None \<longleftrightarrow> ownersReadable (ExAfter x) plan"
    "RecordKind m = RecordKindComponentsExecution" "RunResult m = ResultSucceeded" "RunID m = PlRunID plan"
    "RmClusterName m = PlClusterName plan" "Execution m = Some (writtenExecution dg base plan op ts ev)"
    "ClusterUID (Identity base) = PlBaseClusterUID plan" "digestOf d (PlBaseRunFile plan) = Some dg"
    "PlBaseRunFile plan \<noteq> []" "readState d (PlBaseRunFile plan) [] = Inr st" "ValidateSuccessRecord base st = None"
    "\<forall>r\<in>set ev. digestOf d (EvPath r) = Some (EvSHA256 r)"
    "ownersReadable (ExAfter x) plan \<longrightarrow>
       componentsExecutionScope m =
         (let executed = plannedNames (PlComponents plan)
          in Inr (if executed = [] then alreadyInstalledNames (PlComponents plan) else executed, executed \<noteq> []))"
proof -
  obtain base' liveID' executed already connections
    where c: "checkedExecution d x plan = Inr ((base', liveID'), (executed, already))"
    and conn: "connections \<noteq> [] \<longrightarrow> ExConnections x = Some connections"
    and rec: "recordComponentsExecution b (digestOf d) es (ExAfter x) base' plan liveID' (ExLock x)
       (if executed = [] then OperationNoop else OperationAdd) ResultSucceeded
       (runStatuses TargetExecuted executed already) (runEvidence d x connections) = Inr m"
    and some: "executed = [] \<longrightarrow> already \<noteq> []"
    using RunComponentsExecute_Done [OF run] by blast
  note checked = checkedExecution_Inr [OF c]
  note loaded = loadBaseRunRecord_Inr [OF checked(1) state]
  have [simp]: "base' = base" using loaded(2) base(1) by simp
  obtain st where st: "readState d (PlBaseRunFile plan) [] = Inr st" "ValidateSuccessRecord base st = None"
    using loaded(3) by auto
  note valid = ValidateSuccessRecord_None [OF st(2)]
  note rows = executeRows_rows [OF checked(4)]
  let ?ts = "componentsRecordTargets (ExAfter x) plan (runStatuses TargetExecuted executed already)"
  note targets = run_targets [OF checked(4) disjI1 [OF refl], of "ExAfter x"]
  define op0 where "op0 = (if executed = [] then OperationNoop else OperationAdd)"
  obtain prior where prior: "prior = [] \<or> prior = priorEvidence es ?ts"
    and w: "NewComponentsExecutionManifest b (digestOf d) base plan liveID' (ExLock x) op0 ResultSucceeded ?ts
       (runEvidence d x connections @ prior) = Inr m"
    and safe: "safeDirName (PlClusterName plan)" "safeDirName (PlRunID plan)"
    using recordComponentsExecution_Inr [OF rec] by (auto simp: op0_def)
  let ?ev = "runEvidence d x connections @ prior"
  have "\<forall>r\<in>set prior. EvPath r \<noteq> [] \<and> digestOf d (EvPath r) = Some (EvSHA256 r)"
    using prior priorEvidence_whole [OF earlier] by auto
  note ev = wholeEvidence_run [OF digests(1) files(3,1,2) conn this]
  have lock: "isHex64 (ExLock x)" using rows(8) valid(6) by (auto simp: isHex64_def)
  have shape: "ValidateComponentsExecutionShape m = None \<longleftrightarrow> ownersReadable (ExAfter x) plan"
    using manifest_shape [OF w safe(2,1) _ _ lock valid(4) digests(1) built targets(2-4) ev(1)] digests(2,3)
      checked(5,6) targets(5) by simp
  define op where "op = effectiveOperation op0 ResultSucceeded ?ts"
  note written = manifest_written [OF w, folded op_def]
  obtain dg where dg: "digestOf d (PlBaseRunFile plan) = Some dg"
    and m: "RecordKind m = RecordKindComponentsExecution" "RunResult m = ResultSucceeded" "RunID m = PlRunID plan"
      "RmClusterName m = PlClusterName plan" "Execution m = Some (writtenExecution dg base plan op ?ts ?ev)"
    using written(1) by auto
  have scope: "componentsExecutionScope m = Inr (if executed = [] then already else executed, executed \<noteq> [])"
    if "ownersReadable (ExAfter x) plan"
  proof -
    have names: "namesWith TargetExecuted ?ts = executed" "namesWith rowInstalled ?ts = already"
      using targets(6) that by auto
    then have "op = op0" by (auto simp: op_def effectiveOperation_def op0_def)
    then show ?thesis
      using m(5) names some by (simp add: componentsExecutionScope_def writtenExecution_def op0_def)
  qed
  show thesis
    using that [OF shape m _ dg loaded(1) st ev(2)] scope checked(3) written(4) rows(1,2) by simp
qed

text \<open>
  Claim C13. What a successful execution records is what verification accepts: whoever opens the
  record on the cluster of the plan, with the files it names unchanged, gets the components that were
  executed, or, of an execution that had nothing to do, those it observed, and for a change of the
  cluster only the former; the run that owns the quota is the base install's. This needs that the uid
  of each object could be read when the record was written. Otherwise the record, whose writing was
  reported as a success, is refused.
\<close>

theorem execution_verifies:
  assumes run: "RunComponentsExecute b d es x plan = Done m"
    and digests: "\<forall>p h. digestOf d p = Some h \<longrightarrow> isHex64 h" "isHex64 (ExDigest x)" "isHex64 (ExBinary x)"
    and built: "wellBuilt b"
    and files: "ExPlanFile x \<noteq> []" "ExReportFile x \<noteq> []"
      "\<forall>f\<in>{ExPlanFile x, ExReportFile x} \<union> set_option (ExConnections x). f \<noteq> [] \<longrightarrow> digestOf d f \<noteq> None"
    and earlier: "\<forall>(path, dg, r)\<in>set es. path \<noteq> [] \<and> dg = digestOf d path"
    and state: "TrimSpace (ExStateFile x) = []"
    and base: "recordAt d (PlBaseRunFile plan) = Some base" "RmClusterName base = PlClusterName plan"
    and kept: "\<forall>p h. digestOf d p = Some h \<longrightarrow> digestOf d' p = Some h"
      "recordAt d' (PlBaseRunFile plan) = Some base"
      "stateBeside d' (PlBaseRunFile plan) = stateBeside d (PlBaseRunFile plan)"
    and found: "recordAt d' runFile = Some m"
    and live: "captureLiveCluster k nodes = Inr (liveID, notReady)" "ClusterUID liveID = PlBaseClusterUID plan"
  shows "if ownersReadable (ExAfter x) plan
         then openVerifyRun d' k nodes ownsHost acceptance runFile stateFile =
           (if acceptance \<and> plannedNames (PlComponents plan) = [] then Inl ReadOnlyRecord
            else if acceptance \<and> \<not> ownsHost then Inl OtherHost
            else Inr \<lparr>LvManifest = m, LvRunID = PlRunID plan, LvBaseRunID = RunID base, IsExecution = True,
                      LvScope = (if plannedNames (PlComponents plan) = []
                                 then alreadyInstalledNames (PlComponents plan)
                                 else plannedNames (PlComponents plan))\<rparr>)
         else openVerifyRun d' k nodes ownsHost acceptance runFile stateFile \<in> range Inl"
proof -
  obtain dg op ts ev st where
    shape: "ValidateComponentsExecutionShape m = None \<longleftrightarrow> ownersReadable (ExAfter x) plan"
    and m: "RecordKind m = RecordKindComponentsExecution" "RunResult m = ResultSucceeded" "RunID m = PlRunID plan"
      "RmClusterName m = PlClusterName plan" "Execution m = Some (writtenExecution dg base plan op ts ev)"
    and uid: "ClusterUID (Identity base) = PlBaseClusterUID plan"
    and onDisk: "digestOf d (PlBaseRunFile plan) = Some dg" "PlBaseRunFile plan \<noteq> []"
      "readState d (PlBaseRunFile plan) [] = Inr st" "ValidateSuccessRecord base st = None"
    and ev: "\<forall>r\<in>set ev. digestOf d (EvPath r) = Some (EvSHA256 r)"
    and scope: "ownersReadable (ExAfter x) plan \<longrightarrow> componentsExecutionScope m =
         (let executed = plannedNames (PlComponents plan)
          in Inr (if executed = [] then alreadyInstalledNames (PlComponents plan) else executed, executed \<noteq> []))"
    using recorded_execution [OF run digests built files earlier state base(1)] by blast
  have bound: "ValidateComponentsExecutionBase d' k nodes m = Inr base"
    using base_accepted [of d' "PlBaseRunFile plan" dg base st m plan op ts ev k nodes liveID notReady]
      kept onDisk base(2) m ev live uid by (simp add: readState_def)
  show ?thesis
  proof (cases "ownersReadable (ExAfter x) plan")
    case True
    then show ?thesis
      using shape bound m found scope live uid captureLiveCluster_uid [OF live(1)]
      by (simp add: openVerifyRun_def loadVerifyRunRecord_def loadComponentsExecutionRun_def bindVerifyTarget_def
          writtenExecution_def Let_def)
  next
    case False
    then show ?thesis
      using shape m(1) found
      by (auto simp: openVerifyRun_def loadVerifyRunRecord_def loadComponentsExecutionRun_def split: option.splits)
  qed
qed

subsection \<open>What an accepted record is backed by\<close>

lemma ValidateComponentsExecutionBase_Inr:
  assumes "ValidateComponentsExecutionBase d k nodes m = Inr base"
  obtains e state liveID notReady where "Execution m = Some e"
    "digestOf d (BaseRecordFile e) = Some (BaseRecordSHA256 e)" "recordAt d (BaseRecordFile e) = Some base"
    "ValidateSuccessRecord base state = None" "BaseRunID e = RunID base" "BaseConfigDigest e = ConfigDigest base"
    "BaseClusterUID e = ClusterUID (Identity base)" "RmClusterName base = RmClusterName m"
    "\<forall>r\<in>set (Evidence e). digestOf d (EvPath r) = Some (EvSHA256 r)"
    "captureLiveCluster k nodes = Inr (liveID, notReady)" "ClusterUID liveID = BaseClusterUID e"
proof -
  obtain e where e: "Execution m = Some e"
    using assms by (auto simp: ValidateComponentsExecutionBase_def split: option.splits)
  note run = assms [unfolded ValidateComponentsExecutionBase_def, simplified e option.case]
  have dg: "digestOf d (BaseRecordFile e) = Some (BaseRecordSHA256 e)" "recordAt d (BaseRecordFile e) = Some base"
    using run by (auto simp: bind_res_Inr_conv split: option.splits if_splits)
  have "\<exists>state. ValidateSuccessRecord base state = None"
    using run by (auto simp: bind_res_Inr_conv split: option.splits if_splits)
  moreover have "BaseRunID e = RunID base" "BaseConfigDigest e = ConfigDigest base"
      "BaseClusterUID e = ClusterUID (Identity base)" "RmClusterName base = RmClusterName m"
    using run by (auto simp: bind_res_Inr_conv split: option.splits if_splits)
  moreover have "find (\<lambda>r. digestOf d (EvPath r) \<noteq> Some (EvSHA256 r)) (Evidence e) = None"
    using run by (auto simp: bind_res_Inr_conv split: option.splits if_splits)
  moreover have "\<exists>liveID notReady. captureLiveCluster k nodes = Inr (liveID, notReady) \<and> ClusterUID liveID = BaseClusterUID e"
    using run by (auto simp: bind_res_Inr_conv split: option.splits if_splits)
  ultimately show thesis using that [OF e dg] unfolding find_None_all by blast
qed

lemma shape_sound:
  assumes "ValidateComponentsExecutionShape m = None" "Execution m = Some e"
  shows "DidInstall e \<longleftrightarrow> Operation e = OperationAdd" "Operation e = OperationAdd \<or> Operation e = OperationNoop"
    "DidInstall e \<longrightarrow> ConfigDigest m \<noteq> BaseConfigDigest e"
    "distinct (Executed e)" "set (Executed e) = set (namesWith TargetExecuted (Targets e))"
    "distinct (ObservedExists e)" "set (ObservedExists e) = set (namesWith rowInstalled (Targets e))"
    "set (Executed e) \<union> set (ObservedExists e) \<subseteq> set (RmComponents m)"
    "\<forall>t\<in>set (Targets e). wellFormedTarget t" "checkOutcome m e = None"
proof -
  note run = assms(1) [unfolded ValidateComponentsExecutionShape_def]
  have ts: "checkTargets (Targets e) [] = None"
    and ex: "checkScopeList (Targets e) (RmComponents m) (TargetExecuted, Executed e) = None"
    and ob: "checkScopeList (Targets e) (RmComponents m) (rowInstalled, ObservedExists e) = None"
    using run assms(2) by (auto split: option.splits if_splits)
  show "checkOutcome m e = None" using run assms(2) by (auto split: option.splits if_splits)
  show "DidInstall e \<longleftrightarrow> Operation e = OperationAdd" "Operation e = OperationAdd \<or> Operation e = OperationNoop"
      "DidInstall e \<longrightarrow> ConfigDigest m \<noteq> BaseConfigDigest e"
    using run assms(2) by (auto split: option.splits if_splits)
  have d: "distinct (map TgComponent (Targets e))" "\<forall>t\<in>set (Targets e). wellFormedTarget t"
    using ts by (simp_all add: checkTargets_None)
  show "\<forall>t\<in>set (Targets e). wellFormedTarget t" by (rule d)
  have "TargetExecuted \<noteq> []" by (simp add: TargetExecuted_def)
  then show "distinct (Executed e)" "set (Executed e) = set (namesWith TargetExecuted (Targets e))"
      "distinct (ObservedExists e)" "set (ObservedExists e) = set (namesWith rowInstalled (Targets e))"
      "set (Executed e) \<union> set (ObservedExists e) \<subseteq> set (RmComponents m)"
    using checkScopeList_sound [OF ex d(1)] checkScopeList_sound [OF ob d(1)] by auto
qed

text \<open>
  What an execution record that was accepted is backed by: a base record with the bytes it names,
  unchanged evidence, and targets that carry the identity of an object.
\<close>

definition backedBy :: "disk \<Rightarrow> RunManifest \<Rightarrow> bool \<Rightarrow> loadedVerifyRun \<Rightarrow> bool" where
  "backedBy d base acceptance l \<longleftrightarrow>
     (case Execution (LvManifest l) of
        None \<Rightarrow> False
      | Some e \<Rightarrow>
          RunResult (LvManifest l) = ResultSucceeded \<and>
          digestOf d (BaseRecordFile e) = Some (BaseRecordSHA256 e) \<and> recordAt d (BaseRecordFile e) = Some base \<and>
          (\<forall>r\<in>set (Evidence e). digestOf d (EvPath r) = Some (EvSHA256 r)) \<and>
          {EvidencePlan, EvidenceExecuteReport} \<subseteq> EvKind ` set (Evidence e) \<and>
          LvScope l \<noteq> [] \<and> distinct (LvScope l) \<and> set (LvScope l) \<subseteq> set (RmComponents (LvManifest l)) \<and>
          (\<forall>name. name \<in> set (LvScope l) \<longleftrightarrow>
             (\<exists>t\<in>set (Targets e). TgComponent t = name \<and> TgUID t \<noteq> [] \<and>
                TgStatus t = (if DidInstall e then TargetExecuted else rowInstalled))) \<and>
          (DidInstall e \<longrightarrow> ConfigDigest (LvManifest l) \<noteq> ConfigDigest base) \<and>
          (acceptance \<longrightarrow> DidInstall e))"

lemma namesWith_identified:
  assumes "\<forall>t\<in>set ts. wellFormedTarget t" "kind = TargetExecuted \<or> kind = rowInstalled"
  shows "n \<in> set (namesWith kind ts) \<longleftrightarrow> (\<exists>t\<in>set ts. TgComponent t = n \<and> TgUID t \<noteq> [] \<and> TgStatus t = kind)"
  using assms by (auto simp: namesWith_def wellFormedTarget_def)

lemma execution_backed:
  assumes "loadComponentsExecutionRun d k nodes acceptance m = Inr l"
  obtains base where "ValidateComponentsExecutionBase d k nodes m = Inr base" "LvManifest l = m" "IsExecution l"
    "LvBaseRunID l = RunID base" "backedBy d base acceptance l"
proof -
  have shape: "ValidateComponentsExecutionShape m = None" and ok: "RunResult m = ResultSucceeded"
    using assms by (auto simp: loadComponentsExecutionRun_def split: option.splits if_splits)
  obtain base scope mutates where base: "ValidateComponentsExecutionBase d k nodes m = Inr base"
    and scope: "componentsExecutionScope m = Inr (scope, mutates)" and acc: "acceptance \<longrightarrow> mutates"
    and l: "l = \<lparr>LvManifest = m, LvRunID = RunID m, LvBaseRunID = RunID base, IsExecution = True, LvScope = scope\<rparr>"
    using assms shape ok
    by (auto simp: loadComponentsExecutionRun_def bind_res_Inr_conv split: if_splits)
  obtain e where e: "Execution m = Some e"
    and onDisk: "digestOf d (BaseRecordFile e) = Some (BaseRecordSHA256 e)" "recordAt d (BaseRecordFile e) = Some base"
    and link: "BaseConfigDigest e = ConfigDigest base"
    and ev: "\<forall>r\<in>set (Evidence e). digestOf d (EvPath r) = Some (EvSHA256 r)"
    using ValidateComponentsExecutionBase_Inr [OF base] by metis
  note sound = shape_sound [OF shape e]
  have granted: "scope = (if DidInstall e then Executed e else ObservedExists e)" "scope \<noteq> []" "mutates = DidInstall e"
    using scope e sound(1,2) by (auto simp: componentsExecutionScope_def split: if_splits)
  have "name \<in> set scope \<longleftrightarrow> (\<exists>t\<in>set (Targets e). TgComponent t = name \<and> TgUID t \<noteq> [] \<and>
          TgStatus t = (if DidInstall e then TargetExecuted else rowInstalled))" for name
    using sound(5,7) namesWith_identified [OF sound(9), of "if DidInstall e then TargetExecuted else rowInstalled" name]
    by (auto simp: granted(1))
  moreover have "distinct scope" "set scope \<subseteq> set (RmComponents m)"
    using sound(4,6,8) by (auto simp: granted(1))
  moreover have "{EvidencePlan, EvidenceExecuteReport} \<subseteq> EvKind ` set (Evidence e)"
    using sound(10) ok unfolding checkOutcome_None by simp
  ultimately have "backedBy d base acceptance l"
    using ok e onDisk ev granted(2,3) sound(3) acc link unfolding backedBy_def l by simp
  then show thesis using that [OF base] by (simp add: l)
qed

text \<open>
  Claim C14. A verification that got past the reading of its record answers for the cluster that
  stands here and for one install: the run that owns the quota is the run of a succeeded install
  record, which for the record of an execution is the base whose bytes it names, never the
  execution; the cluster is that install's, and a change needs the installer's host. Of an execution the
  scope is exactly the targets it installed, or, of an observation, those it saw, each with the uid of
  its object, with unchanged evidence; an observation allows no change.
\<close>

theorem opened_run_sound:
  assumes "openVerifyRun d k nodes ownsHost acceptance runFile stateFile = Inr l"
  shows "\<exists>base state liveID notReady. ValidateSuccessRecord base state = None \<and> LvBaseRunID l = RunID base \<and>
     captureLiveCluster k nodes = Inr (liveID, notReady) \<and> ClusterUID liveID = ClusterUID (Identity base) \<and>
     (acceptance \<longrightarrow> ownsHost) \<and> recordAt d runFile = Some (LvManifest l) \<and>
     (if IsExecution l then backedBy d base acceptance l else LvManifest l = base \<and> LvScope l = [])"
proof -
  obtain m where load: "loadVerifyRunRecord d k nodes acceptance runFile stateFile = Inr l"
    and bind: "bindVerifyTarget k nodes ownsHost acceptance l = None" and m: "recordAt d runFile = Some m"
    using assms by (auto simp: openVerifyRun_def bind_res_Inr_conv loadVerifyRunRecord_def split: option.splits)
  have bound: "\<exists>liveID notReady. captureLiveCluster k nodes = Inr (liveID, notReady) \<and> ClusterUID liveID =
      (if IsExecution l then (case Execution (LvManifest l) of None \<Rightarrow> [] | Some e \<Rightarrow> BaseClusterUID e)
       else ClusterUID (Identity (LvManifest l)))" and host: "acceptance \<longrightarrow> ownsHost"
    using bind by (auto simp: bindVerifyTarget_def Let_def split: if_splits sum.splits)
  show ?thesis
  proof (cases "RecordKind m = RecordKindComponentsExecution")
    case True
    then have "loadComponentsExecutionRun d k nodes acceptance m = Inr l"
      using load m by (simp add: loadVerifyRunRecord_def)
    then obtain base where base: "ValidateComponentsExecutionBase d k nodes m = Inr base" "LvManifest l = m"
        "IsExecution l" "LvBaseRunID l = RunID base" "backedBy d base acceptance l"
      by (rule execution_backed)
    obtain e state where "Execution m = Some e" "ValidateSuccessRecord base state = None"
        "BaseClusterUID e = ClusterUID (Identity base)"
      using ValidateComponentsExecutionBase_Inr [OF base(1)] by metis
    then show ?thesis using base bound host m by auto
  next
    case False
    then obtain state where "ValidateSuccessRecord m state = None"
        "l = \<lparr>LvManifest = m, LvRunID = RunID m, LvBaseRunID = RunID m, IsExecution = False, LvScope = []\<rparr>"
      using load m by (auto simp: loadVerifyRunRecord_def bind_res_Inr_conv split: if_splits option.splits)
    then show ?thesis using bound host m by auto
  qed
qed

text \<open>A run that changed the cluster and then failed leaves a record that no verification consumes.\<close>

lemma failed_run_refused:
  assumes "RunComponentsExecute b d es x plan = Failed err (Inr m)" "recordAt d' runFile = Some m"
  shows "openVerifyRun d' k nodes ownsHost acceptance runFile stateFile \<in> range Inl"
proof -
  obtain base liveID executed already where c: "checkedExecution d x plan = Inr ((base, liveID), (executed, already))"
    using assms(1) by (auto simp: RunComponentsExecute_def split: sum.splits)
  have "\<exists>statuses. recordComponentsExecution b (digestOf d) es (ExAfter x) base plan liveID (ExLock x) OperationAdd
      ResultFailed statuses (runEvidence d x []) = Inr m"
    using assms(1) c by (auto simp: RunComponentsExecute_def landed_def split: if_splits option.splits sum.splits)
  then obtain op ts ev where
    "NewComponentsExecutionManifest b (digestOf d) base plan liveID (ExLock x) op ResultFailed ts ev = Inr m"
    by (metis recordComponentsExecution_Inr)
  then have "RecordKind m = RecordKindComponentsExecution" "RunResult m \<noteq> ResultSucceeded"
    using manifest_written(1) by fastforce+
  then show ?thesis
    using assms(2)
    by (auto simp: openVerifyRun_def loadVerifyRunRecord_def loadComponentsExecutionRun_def split: option.splits)
qed

subsection \<open>OpenSearch added, recorded and verified\<close>

definition hexDigest :: "char \<Rightarrow> string" where "hexDigest c = replicate 64 c"

definition demoBase :: RunManifest where
  "demoBase =
     \<lparr>SchemaVersion = 1, RecordKind = ''install-success'', RunID = ''run-1'', RmClusterName = ''ani'',
      RunResult = ''succeeded'', ConfigDigest = hexDigest (CHR ''b''),
      Identity = \<lparr>SourceTreeFingerprint = ''not-embedded'', CodeCommit = ''not-embedded'', CodeBinaryDigest = [],
        SiteConfigDigest = hexDigest (CHR ''b''), MaterialsLockDigest = hexDigest (CHR ''c''), ClusterUID = ''7f3a'',
        NodeCount = 1, ReadyNodes = [''node1'']\<rparr>,
      RmComponents = [''fluent-bit''], Execution = None\<rparr>"

definition demoDisk :: disk where
  "demoDisk =
     \<lparr>digestOf = (\<lambda>p. if p \<in> {''/run.json'', ''plan.json'', ''report.json'', ''connections.md''}
                    then Some (hexDigest (CHR ''d'')) else None),
      recordAt = (\<lambda>p. if p = ''/run.json'' then Some demoBase else None),
      stateAt = (\<lambda>p. None), stateBeside = (\<lambda>p. None)\<rparr>"

definition demoPlan :: ComponentsPlan where
  "demoPlan =
     \<lparr>PlRunID = ''run-2'', PlClusterName = ''ani'', PlNewConfigDigest = hexDigest (CHR ''e''), PlBaseClusterUID = ''7f3a'',
      PlKKBinaryDigest = hexDigest (CHR ''f''), PlBaseRunFile = ''/run.json'', PlComponents = demoRows\<rparr>"

definition answering :: kube where
  "answering = demoKube\<lparr>jsonpath := (\<lambda>resource name ns path.
     if path = daemonPath then Inr ''1 1'' else Inr ''7f3a'')\<rparr>"

definition demoNodes :: "string + nodes" where "demoNodes = Inr [(''node1'', [(''Ready'', ''True'')])]"

definition demoExecution :: "kube \<Rightarrow> execution" where
  "demoExecution after =
     \<lparr>ExConfig = demoSite, ExArtifact = demoArtifact, ExDigest = hexDigest (CHR ''e''), ExLock = hexDigest (CHR ''c''),
      ExBinary = hexDigest (CHR ''f''), ExBefore = answering, ExAfter = after, ExNodes = demoNodes, ExPlaybook = True,
      ExConnections = Some ''connections.md'', ExPlanFile = ''plan.json'', ExReportFile = ''report.json'',
      ExStateFile = []\<rparr>"

definition demoBuild :: build where "demoBuild = \<lparr>BuildTree = [], BuildCommit = ''0a1b2c3d''\<rparr>"

definition recordOf :: "run_end \<Rightarrow> RunManifest" where
  "recordOf r = (case r of Done m \<Rightarrow> m | _ \<Rightarrow> demoBase)"

definition demoRecord :: RunManifest where
  "demoRecord = recordOf (RunComponentsExecute demoBuild demoDisk [] (demoExecution answering) demoPlan)"

definition demoDisk' :: disk where
  "demoDisk' = demoDisk\<lparr>recordAt := (\<lambda>p. if p = ''record.json'' then Some demoRecord else recordAt demoDisk p)\<rparr>"

lemma demo_run: "RunComponentsExecute demoBuild demoDisk [] (demoExecution answering) demoPlan = Done demoRecord"
  by code_simp

lemma demo_open:
  "openVerifyRun demoDisk' answering demoNodes True True ''record.json'' [] =
     Inr \<lparr>LvManifest = demoRecord, LvRunID = ''run-2'', LvBaseRunID = ''run-1'', IsExecution = True,
          LvScope = [''opensearch'']\<rparr>"
  by code_simp

lemma demo_hex: "c \<in> set ''0123456789abcdef'' \<Longrightarrow> isHex64 (hexDigest c)"
  by (auto simp: isHex64_def hexDigest_def list_all_iff)

lemma demo_digests: "\<forall>p h. digestOf demoDisk p = Some h \<longrightarrow> isHex64 h"
  by (auto simp: demoDisk_def demo_hex)

lemma demo_readable: "ownersReadable answering demoPlan"
  by code_simp

lemma demo_live: "captureLiveCluster answering demoNodes = Inr (Identity demoBase\<lparr>SourceTreeFingerprint := [],
    CodeCommit := [], SiteConfigDigest := [], MaterialsLockDigest := []\<rparr>, [])"
  by code_simp

theorem execution_verifies_witness:
  "openVerifyRun demoDisk' answering demoNodes True True ''record.json'' [] =
     Inr \<lparr>LvManifest = demoRecord, LvRunID = ''run-2'', LvBaseRunID = ''run-1'', IsExecution = True,
          LvScope = [''opensearch'']\<rparr>"
proof -
  have wb: "wellBuilt demoBuild" by code_simp
  note found = execution_verifies [OF demo_run demo_digests, of demoBase demoDisk' "''record.json''" answering demoNodes
      "Identity demoBase\<lparr>SourceTreeFingerprint := [], CodeCommit := [], SiteConfigDigest := [], MaterialsLockDigest := []\<rparr>"
      "[]" True True "[]"]
  show ?thesis
    using found wb demo_hex demo_live demo_readable demo_rows
    by (simp add: demoExecution_def demoDisk_def demoDisk'_def demoPlan_def demoBase_def TrimSpace_def hexDigest_def)
qed

theorem opened_run_sound_witness:
  "backedBy demoDisk' demoBase True \<lparr>LvManifest = demoRecord, LvRunID = ''run-2'', LvBaseRunID = ''run-1'',
     IsExecution = True, LvScope = [''opensearch'']\<rparr>"
proof -
  obtain base where b: "backedBy demoDisk' base True \<lparr>LvManifest = demoRecord, LvRunID = ''run-2'',
      LvBaseRunID = ''run-1'', IsExecution = True, LvScope = [''opensearch'']\<rparr>"
    using opened_run_sound [OF demo_open] by auto
  have "map_option BaseRecordFile (Execution demoRecord) = Some ''/run.json''" by code_simp
  then obtain e where e: "Execution demoRecord = Some e" "BaseRecordFile e = ''/run.json''" by auto
  have "recordAt demoDisk' ''/run.json'' = Some demoBase" by (simp add: demoDisk'_def demoDisk_def)
  then have "base = demoBase" using b e by (simp add: backedBy_def)
  then show ?thesis using b by simp
qed

text \<open>
  What the writer does not check: a success whose new component shows no uid (its read timed out, say)
  is relabelled as an observation of the components that were there before, written, and reported as
  a success, although the playbook installed the component. The reader refuses the record for the
  component's state; the record itself says that nothing was installed.
\<close>

definition timingOut :: kube where
  "timingOut = answering\<lparr>jsonpath := (\<lambda>resource name ns path.
     if name = WorkloadName (specOf ''opensearch'') then Inl ''timeout'' else jsonpath answering resource name ns path)\<rparr>"

definition relabelled :: RunManifest where
  "relabelled = recordOf (RunComponentsExecute demoBuild demoDisk [] (demoExecution timingOut) demoPlan)"

lemma unread_uid_relabels:
  "RunComponentsExecute demoBuild demoDisk [] (demoExecution timingOut) demoPlan = Done relabelled"
  "RunResult relabelled = ''succeeded''"
  "map_option (\<lambda>e. (Operation e, DidInstall e, Executed e)) (Execution relabelled) = Some (''noop'', False, [])"
  "ValidateComponentsExecutionShape relabelled = Some (NotInstalled ''opensearch'')"
  by code_simp+

text \<open>The test for a single path element lets the two elements that are directories through.\<close>

lemma dots_are_elements: "singleElement ''.''" "singleElement ''..''"
  by code_simp+

end
