(* ===== verification/Spec2Isabelle.thy ===== *)
theory Spec2Isabelle
  imports Prelude Tags Kahn Inventory Serial Merge Objects Template Yaml Variables Tasks Blocks Project Controller Ip
    Upgrade Swagger Scope Acceptance Records
begin

text \<open>
  \<^bold>\<open>Verification of ani-installer (KubeKey)\<close>

  The program (\<^verbatim>\<open>src/kubekey\<close>) installs and upgrades Kubernetes clusters by running Ansible-like
  playbooks. A run works like this. A playbook resource reaches the controller, which moves it
  through its phases and creates the pod that runs it (a run from the command line starts here).
  The project is loaded: the base playbook with the playbooks, roles, task files and variable
  files it names becomes a list of plays. The inventory names hosts and nested groups; the variable
  store keeps, per host, gathered facts and variables set by tasks, merges them with inventory
  and configuration whenever they are read, and mirrors them on disk. The playbook executor
  resolves the hosts of each play, gathers facts, splits the hosts into batches and walks the
  play's blocks and roles; the block executor walks nested blocks with their \<^verbatim>\<open>rescue\<close> and
  \<^verbatim>\<open>always\<close> sections, inherits conditions and tags, and turns leaf blocks into tasks; the task
  executor runs a task on its hosts, with loops, conditions, registered results and retries,
  and counts it in the playbook's statistics. An upgrade over several minor versions is a
  sequence of such runs, each with a configuration of its own. A web service publishes the API
  and a page that documents it. The product layer (\<^verbatim>\<open>pkg/ani\<close>) drives such runs for one product: it
  plans and executes the addition of components to a cluster it installed, records what it did, and
  accepts an installation by recreating a pod and looking for its data.

  \<^bold>\<open>Theories and sources\<close>

  \<^item> \<^verbatim>\<open>Prelude\<close>: Go maps as association lists, ranges over maps with an order oracle, errors as
    sums, append-if-absent loops, string helpers of the standard library.
  \<^item> \<^verbatim>\<open>Tags\<close>: tag selection and inheritance (\<^verbatim>\<open>api/project/v1/taggable.go\<close>).
  \<^item> \<^verbatim>\<open>Kahn\<close>: the incremental cycle check (\<^verbatim>\<open>pkg/utils/graph.go\<close>). The locale \<open>cycle_checker\<close> is
    the contract its clients use; it is interpreted on the graph.
  \<^item> \<^verbatim>\<open>Inventory\<close>: group resolution (\<^verbatim>\<open>pkg/variable/helper.go\<close>: \<^verbatim>\<open>ConvertGroup\<close>,
    \<^verbatim>\<open>hostsInGroup\<close>).
  \<^item> \<^verbatim>\<open>Serial\<close>: batches of hosts (\<^verbatim>\<open>pkg/converter/converter.go\<close>: \<^verbatim>\<open>GroupHostBySerial\<close>).
  \<^item> \<^verbatim>\<open>Merge\<close>: JSON-like values and the two deep-merge routines (\<^verbatim>\<open>CombineVariables\<close>,
    \<^verbatim>\<open>combineConfigMaps\<close>), both interpretations of the locale \<open>deep_merge\<close>.
  \<^item> \<^verbatim>\<open>Template\<close>: template syntax and conditions (\<^verbatim>\<open>pkg/converter/tmpl/template.go\<close>,
    \<^verbatim>\<open>api/project/v1/playbook.go\<close>, \<^verbatim>\<open>conditional.go\<close>).
  \<^item> \<^verbatim>\<open>Objects\<close>: values in which maps and slices have an identity, with \<^verbatim>\<open>CombineVariables\<close>,
    writes in place and \<^verbatim>\<open>reflect.DeepEqual\<close> on them.
  \<^item> \<^verbatim>\<open>Yaml\<close>: evaluation of variables written in YAML (\<^verbatim>\<open>pkg/variable/yaml.go\<close>).
  \<^item> \<^verbatim>\<open>Variables\<close>: the variable store (\<^verbatim>\<open>pkg/variable/variable.go\<close>, \<^verbatim>\<open>variable_get.go\<close>,
    \<^verbatim>\<open>variable_merge.go\<close>, \<^verbatim>\<open>source/file.go\<close>). The locale \<open>merge_function\<close> is what \<^verbatim>\<open>Merge\<close> relies on
    in the function it is given; the four merge functions are its interpretations.
  \<^item> \<^verbatim>\<open>Tasks\<close>: the task executor (\<^verbatim>\<open>pkg/executor/task_executor.go\<close>) with the task type of
    \<^verbatim>\<open>api/core/v1alpha1\<close>.
  \<^item> \<^verbatim>\<open>Blocks\<close>: block, role and playbook executors (\<^verbatim>\<open>pkg/executor\<close>), host patterns
    (\<^verbatim>\<open>GetHostnames\<close>) and the conversion of blocks to tasks (\<^verbatim>\<open>MarshalBlock\<close>). The locale
    \<open>run_relation\<close> is the interface between the task executor and the executors above it; it is
    interpreted three times: for bounds of the statistics, for what they count, and for the store.
  \<^item> \<^verbatim>\<open>Project\<close>: loading a project (\<^verbatim>\<open>pkg/project/project.go\<close>, \<^verbatim>\<open>path.go\<close>,
    \<^verbatim>\<open>pkg/utils/files.go\<close>, \<^verbatim>\<open>Playbook.Validate\<close>); a client of the graph of \<^verbatim>\<open>Kahn\<close>.
  \<^item> \<^verbatim>\<open>Controller\<close>: the playbook controller (\<^verbatim>\<open>pkg/controllers/core/playbook_controller.go\<close>) as
    a step relation on the cluster.
  \<^item> \<^verbatim>\<open>Ip\<close>: address lists (\<^verbatim>\<open>pkg/utils/ip.go\<close>) over bytes, with the text forms of
    addresses they read and print.
  \<^item> this theory: \<open>Exec\<close>, a run from the files of a project to the recorded phase.
  \<^item> \<^verbatim>\<open>Upgrade\<close>: upgrade paths, steps and their configurations (\<^verbatim>\<open>builtin/core/upgrade_path.go\<close>).
  \<^item> \<^verbatim>\<open>Swagger\<close>: the documentation page (\<^verbatim>\<open>config/swagger-ui/swagger-initializer.js\<close>,
    \<^verbatim>\<open>index.html\<close>: its elements, its scripts and the order in which they run) and the service that
    serves it (\<^verbatim>\<open>pkg/web/service.go\<close>: routes, redirect, embedded files).
  \<^item> \<^verbatim>\<open>Scope\<close>: what a component addition may touch (\<^verbatim>\<open>pkg/ani/components_install.go\<close>, with the
    switches of \<^verbatim>\<open>config.go\<close>): the scope of \<^verbatim>\<open>--only\<close>, the live preflight of cluster and images, ownership
    of what runs, the closure of a plan, the refusal of a package whose materials lock is not that of the base.
  \<^item> \<^verbatim>\<open>Acceptance\<close>: the acceptance level (\<^verbatim>\<open>pkg/ani/verify.go\<close>, \<^verbatim>\<open>acceptance_plan.go\<close>,
    \<^verbatim>\<open>pod_delete.go\<close>): the ledger, the one recreation of a pod as a step function on the calls it
    makes, attempts side by side as a step relation, and the plans of steps around it.
  \<^item> \<^verbatim>\<open>Records\<close>: what an install and an execution write about themselves and what a verification
    accepts (\<^verbatim>\<open>pkg/ani/run_manifest.go\<close>, \<^verbatim>\<open>components_record.go\<close>, \<^verbatim>\<open>verify.go\<close>), and \<^verbatim>\<open>RunComponentsExecute\<close>
    from the plan to the record it leaves.

  \<^bold>\<open>How state and effects are modelled\<close>

  A definition has the name of the function it translates where the name is free. State is
  passed explicitly: the store is a record (the memory and what was written to the files). The
  variables in it are objects, because the store, the copies that \<^verbatim>\<open>DeepCopy\<close> makes and the variables
  given to templates share nested maps, and evaluation writes into them: an evaluation gives the log
  of its writes, and \<^verbatim>\<open>Merge\<close> replays the log on the store even when the merge fails. Templates see
  the variables with the identities erased. A run has a record \<open>world\<close> of the
  store, the statistics, the tasks made known to the API server and the number of API calls.
  Errors are sums or options, and a panic is an outcome of its own, which no \<^verbatim>\<open>rescue\<close> section
  sees. What the program calls but does not contain is a field of an environment record:
  YAML and JSON encoders and decoders, the template engine, modules (they act on remote machines), the
  answers of the API server (one bit per call), the order of map iterations, the order in which
  parallel host runs take their turns, the nested-map accessors and the semantic-version
  library, the file system of a project, and for the controller the answers of the API server
  and what its cache shows (\<open>api\<close>). Theorems hold for every value of these fields, or name what
  they need of them. A reconciliation is one step of the cluster relation \<open>step\<close>; it reads the
  playbook the API server holds, while the pods it lists come from a cache that may be stale. The
  executor of a pod writes the phase without reading it; \<open>calm\<close> is the relation without executors, and
  \<open>staleRun\<close> counts the reconciliations that worked with a stale list.

  \<^bold>\<open>What is shown\<close>

  \<^item> Graph: an edge is reported as closing a cycle exactly when the edges added so far contain
    one, whatever the iteration order.
  \<^item> Inventory: resolution always returns; on acyclic inventories the table is exactly
    reachability; one cyclic group makes the rest depend on iteration order.
  \<^item> Batches: what the sizes mean, when the routine errs, and that accepted batches partition
    the hosts.
  \<^item> Values and store: the laws of deep merge and the precedence of variable layers at every path: as
    documented within static and within dynamic sources, and (against the documentation) with the
    static ones above the dynamic ones. Evaluating a node keeps every value that is there, in maps and
    lists at any depth, and one without templates means what is written. In every reachable state the
    objects are consistent and each file says nothing the memory does not say; a merge that fails
    loses no variable: an evaluation that fails writes no file but may leave its first entries, a file
    that cannot be written leaves the hosts before it changed and the others as they were.
  \<^item> Tasks: results per host whatever the schedule, the retry loop as its contract (it ends,
    with at most the declared retries).
  \<^item> Executors: the recursive executor equals a big-step semantics of block trees; every task comes
    from one block, with its fields, the conditions and tags of all the blocks around it and the hosts
    left by \<^verbatim>\<open>run_once\<close>; exactly where a play can panic; the invariants of a whole playbook run, and
    its statistics, which count each task that ended once; the inherited \<^verbatim>\<open>ignore_errors\<close> that has no effect.
  \<^item> Loading: it ends with the plays or an error whatever the playbooks import, every play it
    returns is well formed, and injected playbooks keep to their contract. Includes and role
    dependencies are not checked for cycles: a file that includes itself never returns.
  \<^item> Run: a run from its files ends, and its phase is Failed exactly when it returned an error
    (a panic while loading is recorded as a success).
  \<^item> Controller: a new playbook reaches Running; it has one pod, and one more at most for each
    reconciliation with a stale list; the controller never changes the phase of a finished one nor
    runs it again (a second executor can change the phase); and the end of its pod is recorded.
  \<^item> Address lists: what a network and a range list, in order and without gaps; the readers
    are total.
  \<^item> Upgrades: the steps in every case, one minor at a time; what each step's configuration
    contains; that validation keeps components from being rolled back; how defaults and user
    entries combine.
  \<^item> Additions: a scope is closed, ordered and enabled; a plan executes as it was made, through every check
    the execution repeats and also when part of its closure already runs, except for the materials lock,
    which only the execution compares; an execution writes only what is absent when kubectl answers
    as documented.
  \<^item> Records: what a successful execution writes is what a verification accepts, with exactly what
    was executed as its scope, unless the uid of an object could not be read; an accepted record is
    backed by an unchanged base install on the cluster that stands there, whose run owns the quota; a
    failed run's record is never consumed.
  \<^item> Acceptance: at most one delete request per base run and object under every interleaving and
    crash, by a refinement of the quota contract of the ledger; what a pass rests on, step by step;
    a level passes only when everything it declares was checked.
  \<^item> Page: for every name below its directory, whether it shows the published document in the
    element of the page, is an embedded file or is not found; nothing at the address without a slash;
    and what is left when scripts do not arrive.

  \<^bold>\<open>Bounds and fuel\<close>

  Group resolution (\<open>hostsInGroup\<close>) recurses on fuel; the fuel used is the number of groups plus
  one, and \<open>ConvertGroup_total\<close> shows it is enough for every inventory. Loading a project has two
  counts: imports, for which the number of files plus two is enough (the graph of imports has no
  cycle), and includes and role dependencies, for which a bound of their depth plus two is; larger
  counts give the same result. Bytes of an address are 8-bit words. All other loops are
  structural or have a termination proof (the queue of the graph, the retry loop, the block
  tree, the steps of an upgrade, the closure of a scope by the weight of a component). The wait for
  a new pod is one step per round, so its length is that of the run. Go's \<^verbatim>\<open>int\<close> is a mathematical integer except where a string
  is read as a number (\<^verbatim>\<open>Atoi\<close>), which checks the 64-bit range.

  \<^bold>\<open>What is not modelled\<close>

  The choice between git, local and built-in projects is a parameter. Maps whose static type is not
  that of variables (the group table) are treated as maps of any values: writing into one of them
  panics in the program. The memory source, progress bars, logs, the modules and connectors themselves, the
  volumes of executor pods, the inventory, cluster and machine controllers and webhooks, the
  rest of the product layer (site configuration, rendering, registry, materials, the writing of
  record files, the install runner, smoke checks, the check jobs and the steps of the metrics acceptance), the storage
  behind the API, web handlers, command-line wiring,
  generated code and the Swagger UI distribution are left out. A host's run inside a task is one
  step: interleavings of parallel hosts are modelled as an arbitrary order of whole host runs.
  In \<open>Acceptance\<close> a ledger that was flushed survives a crash, although the code does not flush the
  directory above the state directory it may just have made; the clock, the texts of details and the
  map of evidence are left out, the trace of an attempt standing for the last. The parts left out
  call other programs or only move data between files and the network; queries of the web service
  (\<^verbatim>\<open>pkg/web/query\<close>) and the file storage of the API would be next.
\<close>

subsection \<open>From files to a recorded result\<close>

text \<open>
  \<^verbatim>\<open>playbookExecutor.Exec\<close> with the project it loads. \<open>errText\<close> is the text of an error. The
  deferred \<^verbatim>\<open>syncStatus\<close> also runs when loading panics, with the result still \<^verbatim>\<open>nil\<close>. \<open>None\<close>:
  loading has not returned within the counts.
\<close>

definition Exec ::
  "penv \<Rightarrow> nat \<Rightarrow> nat \<Rightarrow> string \<Rightarrow> (load_error \<Rightarrow> string) \<Rightarrow> xenv \<Rightarrow> PlaybookStatus \<Rightarrow> world \<Rightarrow>
   (outcome \<times> PlaybookStatus \<times> world) option" where
  "Exec E k n basePlaybook errText X st w =
     (case MarshalPlaybook E k n NewKahnGraph basePlaybook of
        None \<Rightarrow> None
      | Some (Inl e) \<Rightarrow>
          (if e = NilMapPanic then
             (case syncStatus X st None w of
                (st', w') \<Rightarrow> Some (Panic ''assignment to entry in nil map'', st', w'))
           else Some (playbookExec X st (Inl (errText e)) w))
      | Some (Inr ps) \<Rightarrow> Some (playbookExec X st (Inr ps) w))"

lemma syncStatus_phase:
  "PbPhase (fst (syncStatus X st err w)) =
     (case err of None \<Rightarrow> PlaybookPhaseSucceeded | Some _ \<Rightarrow> PlaybookPhaseFailed)"
  by (simp add: syncStatus_def Let_def split: option.splits)

lemma playbookExec_phase:
  assumes "playbookExec X st project w = (r, st', w')"
  shows "PbPhase st' = (if is_Err r then PlaybookPhaseFailed else PlaybookPhaseSucceeded)"
proof -
  obtain w1 where "syncStatus X st (case r of Err e \<Rightarrow> Some e | _ \<Rightarrow> None) w1 = (st', w')"
    using assms by (auto simp: playbookExec_def Let_def split: prod.splits)
  with syncStatus_phase [of X st "case r of Err e \<Rightarrow> Some e | _ \<Rightarrow> None" w1] show ?thesis
    by (cases r) auto
qed

lemma Exec_None:
  "Exec E k n basePlaybook errText X st w = None \<longleftrightarrow> MarshalPlaybook E k n NewKahnGraph basePlaybook = None"
  by (simp add: Exec_def del: not_None_eq split: option.split sum.split prod.split)

lemma Exec_phase:
  assumes "Exec E k n basePlaybook errText X st w = Some (r, st', w')"
  shows "PbPhase st' = (if is_Err r then PlaybookPhaseFailed else PlaybookPhaseSucceeded)"
proof -
  consider (panic) "syncStatus X st None w = (st', w')" "\<not> is_Err r"
    | (run) project where "playbookExec X st project w = (r, st', w')"
    using assms by (auto simp: Exec_def split: option.splits sum.splits if_splits prod.splits)
  then show ?thesis
  proof cases
    case panic
    then show ?thesis using syncStatus_phase [of X st None w] by simp
  next
    case run
    then show ?thesis by (rule playbookExec_phase)
  qed
qed

text \<open>
  Claim C3. A run ends and says how. For a project with finitely many files whose includes and role
  dependencies have bounded depth, a run of the playbook from its files ends, whatever the
  playbooks import; it leaves the phase Failed exactly when it returned an error and Succeeded
  otherwise, and the result does not depend on the counts once they are large enough.
\<close>

theorem run_ends_with_phase:
  assumes "finite {p. statFs E p \<noteq> None}" "ranked_includes E r K" "ranked_roles E s K"
  shows "\<exists>out st' w'.
    (\<forall>k \<ge> K + 2. \<forall>n \<ge> card {p. statFs E p \<noteq> None} + 2.
       Exec E k n basePlaybook errText X st w = Some (out, st', w')) \<and>
    PbPhase st' = (if is_Err out then PlaybookPhaseFailed else PlaybookPhaseSucceeded)"
proof -
  let ?k = "K + 2" and ?n = "card {p. statFs E p \<noteq> None} + 2"
  have ret: "returned (MarshalPlaybook E ?k ?n NewKahnGraph basePlaybook)"
    by (rule MarshalPlaybook_returned [OF assms])
  then have same: "Exec E k n basePlaybook errText X st w = Exec E ?k ?n basePlaybook errText X st w"
    if "?k \<le> k" "?n \<le> n" for k n
    using below_Marshal [OF that, of E NewKahnGraph basePlaybook] by (simp add: below_def Exec_def)
  have "Exec E ?k ?n basePlaybook errText X st w \<noteq> None"
    using ret Exec_None [of E ?k ?n] by (simp add: returned_def del: not_None_eq)
  then obtain out st' w' where "Exec E ?k ?n basePlaybook errText X st w = Some (out, st', w')" by auto
  then show ?thesis using Exec_phase same by metis
qed

theorem run_ends_with_phase_witness:
  "\<exists>out st' w'.
    (\<forall>k \<ge> 2. \<forall>n \<ge> 5.
       Exec sample_penv k n ''site.yaml'' (\<lambda>_. []) run_env sample_status sample_world = Some (out, st', w')) \<and>
    PbPhase st' = (if is_Err out then PlaybookPhaseFailed else PlaybookPhaseSucceeded)"
proof -
  have "finite {p. statFs sample_penv p \<noteq> None}" "card {p. statFs sample_penv p \<noteq> None} = 3"
    unfolding sample_files by simp_all
  then show ?thesis
    using run_ends_with_phase [OF _ sample_ranked, of "''site.yaml''" "\<lambda>_. []" run_env sample_status sample_world]
    by (simp add: numeral_2_eq_2)
qed

text \<open>
  A panic while loading (an empty \<^verbatim>\<open>block\<close> list is enough) is recorded as a success.
\<close>

lemma load_panic_recorded_as_success:
  assumes "MarshalPlaybook E k n NewKahnGraph basePlaybook = Some (Inl NilMapPanic)"
  shows "\<exists>m st' w'. Exec E k n basePlaybook errText X st w = Some (Panic m, st', w') \<and>
    PbPhase st' = PlaybookPhaseSucceeded"
  using assms syncStatus_phase [of X st None w]
  by (cases "syncStatus X st None w") (simp add: Exec_def)

end
